(* ===== verification/Prelude.thy ===== *)
theory Prelude
  imports Main "HOL-Library.Word"
begin

text \<open>
  Shared vocabulary of the development: names for the machine integers of the Rust
  sources, \<open>Result\<close> values as sums with the \<open>?\<close> operator as \<open>rbind\<close>, saturating
  64-bit arithmetic on natural numbers, list and map lemmas the components share, and
  the locale \<open>keyed_registry\<close>, the contract of every keyed registry of the program (rate
  limiters per rule and per owner, quota handles per user).
\<close>

section \<open>Machine integers\<close>

type_synonym u8 = "8 word"
type_synonym u16 = "16 word"
type_synonym u32 = "32 word"

text \<open>
  Counters and rates of type \<open>u64\<close> are natural numbers with the saturation or
  wrap-around of the source operation written out. \<open>sat_add64\<close> is \<open>u64::saturating_add\<close>,
  \<open>sat_mul64\<close> is \<open>u64::saturating_mul\<close>, \<open>wrap64\<close> is the result of a wrapping operation
  (\<open>AtomicU64::fetch_add\<close>), \<open>try_u64\<close> is \<open>u64::try_from(x).unwrap_or(u64::MAX)\<close>, and
  \<open>div_ceil\<close> is \<open>u64::div_ceil\<close>.
\<close>

definition u64_max :: nat where
  "u64_max = 18446744073709551615"

definition u32_max :: nat where
  "u32_max = 4294967295"

definition i64_max :: int where
  "i64_max = 9223372036854775807"

definition sat_add64 :: "nat \<Rightarrow> nat \<Rightarrow> nat" where
  "sat_add64 a b = min (a + b) u64_max"

definition sat_mul64 :: "nat \<Rightarrow> nat \<Rightarrow> nat" where
  "sat_mul64 a b = min (a * b) u64_max"

definition sat_add32 :: "nat \<Rightarrow> nat \<Rightarrow> nat" where
  "sat_add32 a b = min (a + b) u32_max"

definition wrap64 :: "nat \<Rightarrow> nat" where
  "wrap64 n = n mod (u64_max + 1)"

definition wrap_sub64 :: "nat \<Rightarrow> nat \<Rightarrow> nat" where
  "wrap_sub64 a b = (a + (u64_max + 1) - b mod (u64_max + 1)) mod (u64_max + 1)"

definition try_u64 :: "nat \<Rightarrow> nat" where
  "try_u64 n = min n u64_max"

definition div_ceil :: "nat \<Rightarrow> nat \<Rightarrow> nat" where
  "div_ceil a b = (a + b - 1) div b"

named_theorems sat_defs \<open>definitions of the saturating and wrapping operations\<close>

lemmas [sat_defs] = sat_add64_def sat_mul64_def sat_add32_def wrap64_def try_u64_def

lemma sat_add64_le [simp]: "sat_add64 a b \<le> u64_max"
  by (simp add: sat_add64_def)

lemma sat_mul64_le [simp]: "sat_mul64 a b \<le> u64_max"
  by (simp add: sat_mul64_def)

lemma try_u64_le [simp]: "try_u64 n \<le> u64_max"
  by (simp add: try_u64_def)

lemma wrap64_id [simp]: "n \<le> u64_max \<Longrightarrow> wrap64 n = n"
  by (simp add: wrap64_def)

lemma wrap_sub64_id:
  assumes "b \<le> a" and "a \<le> u64_max"
  shows "wrap_sub64 a b = a - b"
proof -
  have b: "b mod (u64_max + 1) = b"
    using assms by simp
  have "(a - b + (u64_max + 1)) mod (u64_max + 1) = a - b"
    using assms by (simp only: mod_add_self2) simp
  moreover have "a + (u64_max + 1) - b = a - b + (u64_max + 1)"
    using assms(1) by simp
  ultimately show ?thesis
    by (simp only: wrap_sub64_def b)
qed

lemma div_ceil_mult_ge:
  assumes "0 < b"
  shows "a \<le> div_ceil a b * b"
proof (cases a)
  case 0
  then show ?thesis by simp
next
  case (Suc k)
  have "a + b - 1 = (a + b - 1) div b * b + (a + b - 1) mod b"
    by simp
  moreover have "(a + b - 1) mod b < b"
    using assms by simp
  ultimately show ?thesis
    unfolding div_ceil_def by linarith
qed

section \<open>Results\<close>

text \<open>\<open>Result<A, E>\<close> is \<open>E + A\<close>; \<open>rbind\<close> is the early return of the \<open>?\<close> operator.\<close>

type_synonym ('e, 'a) result = "'e + 'a"

fun rbind :: "('e, 'a) result \<Rightarrow> ('a \<Rightarrow> ('e, 'b) result) \<Rightarrow> ('e, 'b) result" where
  "rbind (Inl e) f = Inl e"
| "rbind (Inr a) f = f a"

fun map_err :: "('e \<Rightarrow> 'f) \<Rightarrow> ('e, 'a) result \<Rightarrow> ('f, 'a) result" where
  "map_err g (Inl e) = Inl (g e)"
| "map_err g (Inr a) = Inr a"

definition ok_or :: "'e \<Rightarrow> 'a option \<Rightarrow> ('e, 'a) result" where
  "ok_or e x = (case x of None \<Rightarrow> Inl e | Some a \<Rightarrow> Inr a)"

definition is_ok :: "('e, 'a) result \<Rightarrow> bool" where
  "is_ok r = (case r of Inl _ \<Rightarrow> False | Inr _ \<Rightarrow> True)"

lemma is_ok_simps [simp]: "is_ok (Inl e) = False" "is_ok (Inr a) = True"
  by (simp_all add: is_ok_def)

lemma rbind_Inr_iff: "rbind r f = Inr b \<longleftrightarrow> (\<exists>a. r = Inr a \<and> f a = Inr b)"
  by (cases r) auto

lemma rbind_Inl_iff: "rbind r f = Inl e \<longleftrightarrow> r = Inl e \<or> (\<exists>a. r = Inr a \<and> f a = Inl e)"
  by (cases r) auto

lemma map_err_Inr_iff [simp]: "map_err g r = Inr a \<longleftrightarrow> r = Inr a"
  by (cases r) auto

lemma ok_or_Inr_iff [simp]: "ok_or e x = Inr a \<longleftrightarrow> x = Some a"
  by (auto simp: ok_or_def split: option.splits)

lemma unit_result_cases: "r \<noteq> Inr () \<longleftrightarrow> (\<exists>e. r = Inl e)"
  by (cases r) auto

lemma rbind_unit_ok [simp]: "rbind r (\<lambda>_. s) = Inr a \<longleftrightarrow> is_ok r \<and> s = Inr a"
  by (cases r) auto

section \<open>Lists\<close>

text \<open>The first index whose element satisfies a predicate, as an \<open>enumerate()\<close> walk finds it.\<close>

fun find_index_from :: "nat \<Rightarrow> ('a \<Rightarrow> bool) \<Rightarrow> 'a list \<Rightarrow> nat option" where
  "find_index_from i P [] = None"
| "find_index_from i P (x # xs) = (if P x then Some i else find_index_from (Suc i) P xs)"

lemma sum_list_update_nat:
  "i < length xs \<Longrightarrow> sum_list (map f (xs[i := y])) + f (xs ! i) = sum_list (map f xs) + (f y :: nat)"
  by (induction xs arbitrary: i) (auto split: nat.splits)

lemma find_index_from_None: "find_index_from i P xs = None \<longleftrightarrow> (\<forall>x \<in> set xs. \<not> P x)"
  by (induction xs arbitrary: i) auto

lemma find_index_from_Some:
  "find_index_from i P xs = Some j \<Longrightarrow>
     \<exists>k < length xs. j = i + k \<and> P (xs ! k) \<and> (\<forall>m < k. \<not> P (xs ! m))"
proof (induction xs arbitrary: i)
  case Nil
  then show ?case by simp
next
  case (Cons x xs)
  show ?case
  proof (cases "P x")
    case True
    with Cons.prems show ?thesis by (intro exI [of _ 0]) simp
  next
    case False
    with Cons.prems have "find_index_from (Suc i) P xs = Some j" by simp
    from Cons.IH [OF this] obtain k where "k < length xs" "j = Suc i + k" "P (xs ! k)"
      and "\<forall>m < k. \<not> P (xs ! m)" by blast
    with False show ?thesis
      by (intro exI [of _ "Suc k"]) (auto simp: All_less_Suc2)
  qed
qed

lemma filter_distinct_map_fst:
  "distinct (map fst xs) \<Longrightarrow> distinct (map fst (filter P xs))"
  by (induction xs) auto

section \<open>Keyed registries\<close>

text \<open>
  The contract of a registry: after every sequence of installs and removals a lookup
  returns what the last operation on that key left there. An operation installs an entry
  \<open>e\<close>, of which lookups show the \<open>view\<close>; \<open>invar\<close> is the representation invariant of the
  provider. The client lemmas are proved once here; each registry of the model interprets
  the locale.
\<close>

datatype ('k, 'e) reg_op = RegPut 'k 'e | RegDel 'k

fun reg_key :: "('k, 'e) reg_op \<Rightarrow> 'k" where
  "reg_key (RegPut k e) = k"
| "reg_key (RegDel k) = k"

fun reg_effect :: "('e \<Rightarrow> 'v) \<Rightarrow> ('k, 'e) reg_op \<Rightarrow> 'v option" where
  "reg_effect view (RegPut k e) = Some (view e)"
| "reg_effect view (RegDel k) = None"

fun reg_apply :: "('m \<Rightarrow> 'k \<Rightarrow> 'e \<Rightarrow> 'm) \<Rightarrow> ('m \<Rightarrow> 'k \<Rightarrow> 'm) \<Rightarrow> 'm \<Rightarrow> ('k, 'e) reg_op \<Rightarrow> 'm" where
  "reg_apply put del m (RegPut k e) = put m k e"
| "reg_apply put del m (RegDel k) = del m k"

locale keyed_registry =
  fixes empty :: "'m"
    and invar :: "'m \<Rightarrow> bool"
    and get :: "'m \<Rightarrow> 'k \<Rightarrow> 'v option"
    and put :: "'m \<Rightarrow> 'k \<Rightarrow> 'e \<Rightarrow> 'm"
    and del :: "'m \<Rightarrow> 'k \<Rightarrow> 'm"
    and view :: "'e \<Rightarrow> 'v"
  assumes invar_empty: "invar empty"
    and invar_put: "invar m \<Longrightarrow> invar (put m k e)"
    and invar_del: "invar m \<Longrightarrow> invar (del m k)"
    and get_empty: "get empty k = None"
    and get_put: "invar m \<Longrightarrow> get (put m k e) k' = (if k' = k then Some (view e) else get m k')"
    and get_del: "invar m \<Longrightarrow> get (del m k) k' = (if k' = k then None else get m k')"
begin

lemma invar_apply: "invar m \<Longrightarrow> invar (reg_apply put del m x)"
  by (cases x) (simp_all add: invar_put invar_del)

lemma invar_foldl: "invar m \<Longrightarrow> invar (foldl (reg_apply put del) m xs)"
  by (induction xs arbitrary: m) (simp_all add: invar_apply)

lemma get_apply:
  "invar m \<Longrightarrow> get (reg_apply put del m x) k = (if reg_key x = k then reg_effect view x else get m k)"
  by (cases x) (auto simp: get_put get_del)

lemma get_foldl_other:
  "invar m \<Longrightarrow> \<forall>x \<in> set xs. reg_key x \<noteq> k \<Longrightarrow> get (foldl (reg_apply put del) m xs) k = get m k"
  by (induction xs arbitrary: m) (simp_all add: get_apply invar_apply)

lemma last_write_wins:
  assumes "invar m" and "\<forall>y \<in> set ys. reg_key y \<noteq> reg_key x"
  shows "get (foldl (reg_apply put del) m (xs @ x # ys)) (reg_key x) = reg_effect view x"
  using get_foldl_other [OF invar_apply [OF invar_foldl [OF assms(1)]] assms(2)]
  by (simp add: get_apply invar_foldl assms(1))

lemma untouched_key_absent:
  "\<forall>x \<in> set xs. reg_key x \<noteq> k \<Longrightarrow> get (foldl (reg_apply put del) empty xs) k = None"
  by (simp add: get_foldl_other get_empty invar_empty)

end

end
