(* ===== verification/Port_Range.thy ===== *)
theory Port_Range
  imports Prelude
begin

text \<open>
  Contiguous port ranges (crates/portunus-core/src/port_range.rs): the validating
  constructor, the size, the membership and overlap tests and the same-offset mapping
  from a listen range onto a target range. Ports are 16-bit words and sizes 32-bit words,
  with the casts of the source written out.
\<close>

section \<open>Definitions\<close>

record PortRange =
  pr_start :: u16
  pr_end :: u16

datatype PortRangeError =
    Inverted u16 u16
  | OutOfBounds
  | LengthMismatch u32 u32
  | ExceedsCap u32 u32

definition pr_single :: "u16 \<Rightarrow> PortRange" where
  "pr_single port = \<lparr>pr_start = port, pr_end = port\<rparr>"

definition pr_new :: "u16 \<Rightarrow> u16 \<Rightarrow> (PortRangeError, PortRange) result" where
  "pr_new s e =
     (if s = 0 then Inl OutOfBounds
      else if s > e then Inl (Inverted s e)
      else Inr \<lparr>pr_start = s, pr_end = e\<rparr>)"

definition pr_len :: "PortRange \<Rightarrow> u32" where
  "pr_len r = (ucast (pr_end r) :: u32) - (ucast (pr_start r) :: u32) + 1"

definition pr_pair :: "PortRange \<Rightarrow> PortRange \<Rightarrow> (PortRangeError, PortRange \<times> PortRange) result" where
  "pr_pair l t =
     (if pr_len l \<noteq> pr_len t then Inl (LengthMismatch (pr_len l) (pr_len t))
      else Inr (l, t))"

definition pr_is_empty :: "PortRange \<Rightarrow> bool" where
  "pr_is_empty r = False"

definition pr_contains :: "PortRange \<Rightarrow> u16 \<Rightarrow> bool" where
  "pr_contains r port = (port \<ge> pr_start r \<and> port \<le> pr_end r)"

definition pr_overlaps :: "PortRange \<Rightarrow> PortRange \<Rightarrow> bool" where
  "pr_overlaps a b = (pr_start a \<le> pr_end b \<and> pr_start b \<le> pr_end a)"

text \<open>The inclusive Rust range \<open>start..=end\<close> yields its ports in increasing order.\<close>

definition pr_iter :: "PortRange \<Rightarrow> u16 list" where
  "pr_iter r = map word_of_nat [unat (pr_start r) ..< Suc (unat (pr_end r))]"

text \<open>
  \<open>PortRange::target_for\<close>. The final addition is a 16-bit one; in the release profile,
  which the workspace builds without overflow checks, it wraps around.
\<close>

definition target_for :: "u16 \<Rightarrow> PortRange \<Rightarrow> PortRange \<Rightarrow> u16 option" where
  "target_for listen_port l t =
     (if \<not> pr_contains l listen_port then None
      else let offset = (ucast listen_port :: u32) - (ucast (pr_start l) :: u32);
               offset_u16 = (ucast offset :: u16)
           in Some (pr_start t + offset_u16))"

text \<open>The invariant of every range the validating constructor returns.\<close>

definition pr_wf :: "PortRange \<Rightarrow> bool" where
  "pr_wf r \<longleftrightarrow> pr_start r \<noteq> 0 \<and> pr_start r \<le> pr_end r"

section \<open>Facts about ranges\<close>

lemma unat_u16_bound: "unat (w :: u16) < 65536"
  by (rule order_less_le_trans [OF unsigned_less]) simp

lemma unat_ucast_16_32 [simp]: "unat (ucast (w :: u16) :: u32) = unat w"
  using unat_u16_bound [of w] by (simp add: unsigned_ucast_eq take_bit_nat_eq_self)

lemma unat_ucast_32_16: "unat (x :: u32) < 65536 \<Longrightarrow> unat (ucast x :: u16) = unat x"
  by (simp add: unsigned_ucast_eq take_bit_nat_eq_self)

lemma pr_new_iff: "pr_new s e = Inr r \<longleftrightarrow> r = \<lparr>pr_start = s, pr_end = e\<rparr> \<and> pr_wf r"
  by (auto simp: pr_new_def pr_wf_def not_less)

lemma pr_single_wf: "p \<noteq> 0 \<Longrightarrow> pr_wf (pr_single p)"
  by (simp add: pr_wf_def pr_single_def)

lemma unat_pr_len:
  assumes "pr_start r \<le> pr_end r"
  shows "unat (pr_len r) = unat (pr_end r) - unat (pr_start r) + 1"
proof -
  let ?e = "ucast (pr_end r) :: u32" and ?s = "ucast (pr_start r) :: u32"
  have le: "unat (pr_start r) \<le> unat (pr_end r)"
    using assms by (simp add: word_le_nat_alt)
  then have sub: "unat (?e - ?s) = unat (pr_end r) - unat (pr_start r)"
    by (simp add: unat_sub word_le_nat_alt)
  have "unat (?e - ?s) + 1 < 2 ^ 32"
    using sub unat_u16_bound [of "pr_end r"] by simp
  then have "unat (?e - ?s + 1) = unat (?e - ?s) + 1"
    by (simp add: unat_word_ariths)
  then show ?thesis
    by (simp add: pr_len_def sub)
qed

lemma pr_len_single [simp]: "pr_len (pr_single p) = 1"
  by (simp add: pr_len_def pr_single_def)

lemma set_pr_iter: "set (pr_iter r) = {p. pr_contains r p}"
proof (rule set_eqI)
  fix p :: u16
  have "p \<in> set (pr_iter r) \<longleftrightarrow> unat (pr_start r) \<le> unat p \<and> unat p \<le> unat (pr_end r)"
  proof
    assume "p \<in> set (pr_iter r)"
    then obtain n where n: "p = word_of_nat n" "unat (pr_start r) \<le> n" "n < Suc (unat (pr_end r))"
      by (auto simp: pr_iter_def simp del: upt_Suc)
    have "n < 65536"
      using n(3) unat_u16_bound [of "pr_end r"] by simp
    then have "unat p = n"
      using n(1) by (simp add: unat_of_nat)
    then show "unat (pr_start r) \<le> unat p \<and> unat p \<le> unat (pr_end r)"
      using n by simp
  next
    assume "unat (pr_start r) \<le> unat p \<and> unat p \<le> unat (pr_end r)"
    then show "p \<in> set (pr_iter r)"
      by (auto simp: pr_iter_def simp del: upt_Suc intro!: image_eqI [where x = "unat p"])
  qed
  then show "p \<in> set (pr_iter r) \<longleftrightarrow> p \<in> {p. pr_contains r p}"
    by (simp add: pr_contains_def word_le_nat_alt)
qed

lemma distinct_pr_iter: "distinct (pr_iter r)"
proof -
  have "inj_on (word_of_nat :: nat \<Rightarrow> u16) {unat (pr_start r) ..< Suc (unat (pr_end r))}"
  proof (rule inj_onI)
    fix m n
    assume "m \<in> {unat (pr_start r) ..< Suc (unat (pr_end r))}"
      and "n \<in> {unat (pr_start r) ..< Suc (unat (pr_end r))}"
      and eq: "(word_of_nat m :: u16) = word_of_nat n"
    then have "m < 65536" "n < 65536"
      using unat_u16_bound [of "pr_end r"] by auto
    then show "m = n"
      using arg_cong [OF eq, of unat] by (simp add: unat_of_nat)
  qed
  then show ?thesis
    by (simp add: pr_iter_def distinct_map del: upt_Suc)
qed

lemma length_pr_iter: "pr_start r \<le> pr_end r \<Longrightarrow> length (pr_iter r) = unat (pr_len r)"
  by (simp add: pr_iter_def unat_pr_len word_le_nat_alt)

lemma pr_overlaps_sym: "pr_overlaps a b = pr_overlaps b a"
  by (auto simp: pr_overlaps_def)

lemma target_for_eq:
  assumes "pr_contains l p"
  shows "target_for p l t = Some (pr_start t + (p - pr_start l))"
proof -
  have le: "unat (pr_start l) \<le> unat p"
    using assms by (simp add: pr_contains_def word_le_nat_alt)
  have off: "unat ((ucast p :: u32) - ucast (pr_start l)) = unat p - unat (pr_start l)"
    using le by (simp add: unat_sub word_le_nat_alt)
  have "unat (ucast ((ucast p :: u32) - ucast (pr_start l)) :: u16) = unat p - unat (pr_start l)"
    using off unat_u16_bound [of p] by (simp add: unat_ucast_32_16)
  also have "\<dots> = unat (p - pr_start l)"
    using le by (simp add: unat_sub word_le_nat_alt)
  finally have "(ucast ((ucast p :: u32) - ucast (pr_start l)) :: u16) = p - pr_start l"
    by (rule word_unat_eq_iff [THEN iffD2])
  then show ?thesis
    using assms by (simp add: target_for_def Let_def)
qed

text \<open>On a length-matched pair the mapping is exact in the natural numbers.\<close>

lemma unat_target_for:
  assumes wf: "pr_wf l" "pr_wf t" and len: "pr_len l = pr_len t"
    and p: "pr_contains l p" and q: "target_for p l t = Some q"
  shows "unat q = unat (pr_start t) + (unat p - unat (pr_start l))" and "pr_contains t q"
proof -
  have ord: "unat (pr_start l) \<le> unat p" "unat p \<le> unat (pr_end l)"
    "unat (pr_start t) \<le> unat (pr_end t)"
    using p wf by (auto simp: pr_contains_def pr_wf_def word_le_nat_alt)
  have span: "unat (pr_end l) - unat (pr_start l) = unat (pr_end t) - unat (pr_start t)"
    using arg_cong [OF len, of unat] wf by (simp add: unat_pr_len pr_wf_def)
  have qeq: "q = pr_start t + (p - pr_start l)"
    using q p by (simp add: target_for_eq)
  have "unat (pr_start t) + unat (p - pr_start l) < 65536"
    using ord span unat_u16_bound [of "pr_end t"] by (simp add: unat_sub word_le_nat_alt)
  then show eq: "unat q = unat (pr_start t) + (unat p - unat (pr_start l))"
    using ord by (simp add: qeq unat_word_ariths unat_sub word_le_nat_alt)
  have "unat (pr_start t) \<le> unat q" "unat q \<le> unat (pr_end t)"
    using eq ord span by linarith+
  then show "pr_contains t q"
    by (simp add: pr_contains_def word_le_nat_alt)
qed

section \<open>Properties\<close>

text \<open>Two well-formed ranges overlap by the interval test of
  the source exactly when some port lies in both, so the test neither misses a clash nor
  reports one that is not there.\<close>

lemma overlaps_iff_shared_port:
  assumes "pr_wf a" and "pr_wf b"
  shows "pr_overlaps a b \<longleftrightarrow> (\<exists>p. pr_contains a p \<and> pr_contains b p)"
proof
  assume ov: "pr_overlaps a b"
  show "\<exists>p. pr_contains a p \<and> pr_contains b p"
    using ov assms by (intro exI [of _ "max (pr_start a) (pr_start b)"])
      (auto simp: pr_overlaps_def pr_contains_def pr_wf_def max_def)
next
  assume "\<exists>p. pr_contains a p \<and> pr_contains b p"
  then show "pr_overlaps a b"
    by (auto simp: pr_overlaps_def pr_contains_def)
qed



end
