(* ===== verification/Rust_Str.thy ===== *)
theory Rust_Str
  imports Prelude
begin

text \<open>
  Rust strings as the sources use them. A \<open>String\<close> or \<open>&str\<close> is its UTF-8 byte sequence,
  one HOL \<open>char\<close> per byte, so \<open>length\<close> is \<open>str::len\<close>. A Rust \<open>char\<close> is the byte sequence
  that encodes it: \<open>chars\<close> cuts a string before every byte that is not a continuation byte.
  The functions below are the methods of \<open>str\<close> and \<open>char\<close> the modelled files call.
\<close>

section \<open>ASCII classes and case\<close>

definition cc :: "char \<Rightarrow> nat" where
  "cc c = of_char c"

definition is_ascii_digit :: "char \<Rightarrow> bool" where
  "is_ascii_digit c \<longleftrightarrow> 48 \<le> cc c \<and> cc c \<le> 57"

definition is_ascii_upper :: "char \<Rightarrow> bool" where
  "is_ascii_upper c \<longleftrightarrow> 65 \<le> cc c \<and> cc c \<le> 90"

definition is_ascii_lower :: "char \<Rightarrow> bool" where
  "is_ascii_lower c \<longleftrightarrow> 97 \<le> cc c \<and> cc c \<le> 122"

definition is_ascii_alnum :: "char \<Rightarrow> bool" where
  "is_ascii_alnum c \<longleftrightarrow> is_ascii_digit c \<or> is_ascii_upper c \<or> is_ascii_lower c"

definition lower_char :: "char \<Rightarrow> char" where
  "lower_char c = (if is_ascii_upper c then char_of (cc c + 32) else c)"

definition to_ascii_lowercase :: "string \<Rightarrow> string" where
  "to_ascii_lowercase s = map lower_char s"

definition eq_ignore_ascii_case :: "string \<Rightarrow> string \<Rightarrow> bool" where
  "eq_ignore_ascii_case a b \<longleftrightarrow> to_ascii_lowercase a = to_ascii_lowercase b"

section \<open>Slicing\<close>

fun strip_prefix :: "string \<Rightarrow> string \<Rightarrow> string option" where
  "strip_prefix [] s = Some s"
| "strip_prefix (p # ps) [] = None"
| "strip_prefix (p # ps) (c # cs) = (if p = c then strip_prefix ps cs else None)"

definition strip_suffix :: "string \<Rightarrow> string \<Rightarrow> string option" where
  "strip_suffix p s = map_option rev (strip_prefix (rev p) (rev s))"

text \<open>\<open>s.split(c)\<close>: always at least one piece.\<close>

fun split_on :: "char \<Rightarrow> string \<Rightarrow> string list" where
  "split_on c [] = [[]]"
| "split_on c (x # xs) =
     (if x = c then [] # split_on c xs
      else case split_on c xs of [] \<Rightarrow> [[x]] | y # ys \<Rightarrow> (x # y) # ys)"

fun join_with :: "char \<Rightarrow> string list \<Rightarrow> string" where
  "join_with c [] = []"
| "join_with c [x] = x"
| "join_with c (x # y # ys) = x @ c # join_with c (y # ys)"

text \<open>\<open>s.split_once(c)\<close>: the text before and after the first \<open>c\<close>.\<close>

fun split_once :: "char \<Rightarrow> string \<Rightarrow> (string \<times> string) option" where
  "split_once c [] = None"
| "split_once c (x # xs) =
     (if x = c then Some ([], xs)
      else case split_once c xs of None \<Rightarrow> None | Some (a, b) \<Rightarrow> Some (x # a, b))"

definition trim_end_matches :: "char \<Rightarrow> string \<Rightarrow> string" where
  "trim_end_matches c s = rev (dropWhile (\<lambda>x. x = c) (rev s))"

section \<open>UTF-8\<close>

definition is_cont :: "char \<Rightarrow> bool" where
  "is_cont c \<longleftrightarrow> 128 \<le> cc c \<and> cc c \<le> 191"

text \<open>\<open>str::from_utf8\<close> accepts exactly the well-formed sequences of the Unicode standard.\<close>

fun utf8_valid :: "string \<Rightarrow> bool" where
  "utf8_valid [] = True"
| "utf8_valid (a # r) =
     (if cc a < 128 then utf8_valid r
      else if 194 \<le> cc a \<and> cc a \<le> 223 then
        (case r of b # r' \<Rightarrow> is_cont b \<and> utf8_valid r' | _ \<Rightarrow> False)
      else if 224 \<le> cc a \<and> cc a \<le> 239 then
        (case r of
           b # c # r' \<Rightarrow>
             is_cont b \<and> is_cont c \<and> (cc a = 224 \<longrightarrow> 160 \<le> cc b) \<and> (cc a = 237 \<longrightarrow> cc b \<le> 159) \<and>
             utf8_valid r'
         | _ \<Rightarrow> False)
      else if 240 \<le> cc a \<and> cc a \<le> 244 then
        (case r of
           b # c # d # r' \<Rightarrow>
             is_cont b \<and> is_cont c \<and> is_cont d \<and> (cc a = 240 \<longrightarrow> 144 \<le> cc b) \<and>
             (cc a = 244 \<longrightarrow> cc b \<le> 143) \<and> utf8_valid r'
         | _ \<Rightarrow> False)
      else False)"

type_synonym rchar = string

function chars :: "string \<Rightarrow> rchar list" where
  "chars [] = []"
| "chars (c # cs) = (c # takeWhile is_cont cs) # chars (dropWhile is_cont cs)"
  by pat_completeness auto
termination
  by (relation "measure length") (auto simp: length_dropWhile_le le_imp_less_Suc)

text \<open>\<open>char::is_whitespace\<close>: the code points with the \<open>White_Space\<close> property, by encoding.\<close>

definition is_whitespace :: "rchar \<Rightarrow> bool" where
  "is_whitespace ch =
     (case map cc ch of
        [a] \<Rightarrow> 9 \<le> a \<and> a \<le> 13 \<or> a = 32
      | [a, b] \<Rightarrow> a = 194 \<and> (b = 133 \<or> b = 160)
      | [a, b, c] \<Rightarrow>
          a = 225 \<and> b = 154 \<and> c = 128
        \<or> a = 226 \<and> b = 128 \<and> (128 \<le> c \<and> c \<le> 138 \<or> c = 168 \<or> c = 169 \<or> c = 175)
        \<or> a = 226 \<and> b = 129 \<and> c = 159
        \<or> a = 227 \<and> b = 128 \<and> c = 128
      | _ \<Rightarrow> False)"

text \<open>\<open>char::is_control\<close>: the general category \<open>Cc\<close>.\<close>

definition is_control :: "rchar \<Rightarrow> bool" where
  "is_control ch =
     (case map cc ch of
        [a] \<Rightarrow> a < 32 \<or> a = 127
      | [a, b] \<Rightarrow> a = 194 \<and> 128 \<le> b \<and> b \<le> 159
      | _ \<Rightarrow> False)"

definition trim :: "string \<Rightarrow> string" where
  "trim s = concat (rev (dropWhile is_whitespace (rev (dropWhile is_whitespace (chars s)))))"

section \<open>Facts\<close>

lemma cc_bound [simp]: "cc c < 256"
  by (simp add: cc_def of_char_of)

lemma cc_char_of: "n < 256 \<Longrightarrow> cc (char_of n) = n"
  by (simp add: cc_def)

lemma cc_lower_char: "cc (lower_char c) = (if is_ascii_upper c then cc c + 32 else cc c)"
  by (simp add: lower_char_def is_ascii_upper_def cc_char_of)

lemma lower_char_not_upper [simp]: "\<not> is_ascii_upper (lower_char c)"
  by (simp add: is_ascii_upper_def cc_lower_char)

lemma lower_char_id: "\<not> is_ascii_upper c \<Longrightarrow> lower_char c = c"
  by (simp add: lower_char_def)

lemma lower_char_idem [simp]: "lower_char (lower_char c) = lower_char c"
  by (simp add: lower_char_id)

lemma lower_char_digit [simp]: "is_ascii_digit (lower_char c) = is_ascii_digit c"
  by (auto simp: is_ascii_digit_def cc_lower_char is_ascii_upper_def)

lemma lower_char_alnum [simp]: "is_ascii_alnum (lower_char c) = is_ascii_alnum c"
  by (auto simp: is_ascii_alnum_def is_ascii_digit_def is_ascii_lower_def is_ascii_upper_def cc_lower_char)

lemma cc_inj: "cc a = cc b \<Longrightarrow> a = b"
  by (simp add: cc_def of_char_eq_iff)

lemma lower_char_eq_sym:
  assumes "\<not> is_ascii_upper d" and "\<not> is_ascii_lower d"
  shows "lower_char c = d \<longleftrightarrow> c = d"
proof
  assume eq: "lower_char c = d"
  show "c = d"
  proof (cases "is_ascii_upper c")
    case True
    with eq assms(2) show ?thesis
      using cc_lower_char [of c] by (auto simp: is_ascii_lower_def is_ascii_upper_def)
  next
    case False
    with eq show ?thesis by (simp add: lower_char_id)
  qed
next
  assume "c = d"
  with assms(1) show "lower_char c = d" by (simp add: lower_char_id)
qed

lemma to_ascii_lowercase_simps [simp]:
  "to_ascii_lowercase [] = []"
  "to_ascii_lowercase (c # cs) = lower_char c # to_ascii_lowercase cs"
  "to_ascii_lowercase (a @ b) = to_ascii_lowercase a @ to_ascii_lowercase b"
  "length (to_ascii_lowercase s) = length s"
  "to_ascii_lowercase s = [] \<longleftrightarrow> s = []"
  by (simp_all add: to_ascii_lowercase_def)

lemma to_ascii_lowercase_idem [simp]: "to_ascii_lowercase (to_ascii_lowercase s) = to_ascii_lowercase s"
  by (simp add: to_ascii_lowercase_def)

lemma to_ascii_lowercase_id: "\<forall>c \<in> set s. \<not> is_ascii_upper c \<Longrightarrow> to_ascii_lowercase s = s"
  by (simp add: to_ascii_lowercase_def lower_char_id map_idI)

lemma strip_prefix_Some: "strip_prefix p s = Some r \<longleftrightarrow> s = p @ r"
  by (induction p s rule: strip_prefix.induct) auto

lemma strip_suffix_Some: "strip_suffix p s = Some r \<longleftrightarrow> s = r @ p"
proof -
  have "strip_suffix p s = Some r \<longleftrightarrow> strip_prefix (rev p) (rev s) = Some (rev r)"
    by (auto simp: strip_suffix_def)
  also have "\<dots> \<longleftrightarrow> rev s = rev p @ rev r"
    by (rule strip_prefix_Some)
  also have "\<dots> \<longleftrightarrow> rev s = rev (r @ p)" by simp
  also have "\<dots> \<longleftrightarrow> s = r @ p" by (rule rev_is_rev_conv)
  finally show ?thesis .
qed

lemma strip_suffix_None: "strip_suffix p s = None \<longleftrightarrow> (\<forall>r. s \<noteq> r @ p)"
  using strip_suffix_Some [of p s] by (metis not_None_eq)

lemma strip_prefix_None: "strip_prefix p s = None \<longleftrightarrow> (\<forall>r. s \<noteq> p @ r)"
  using strip_prefix_Some [of p s] by (metis not_None_eq)

lemma split_on_nonempty [simp]: "split_on c s \<noteq> []"
  by (induction s) (auto split: list.splits)

lemma join_split: "join_with c (split_on c s) = s"
proof (induction s)
  case Nil
  then show ?case by simp
next
  case (Cons x s)
  obtain y ys where y: "split_on c s = y # ys"
    by (cases "split_on c s") auto
  show ?case
  proof (cases "x = c")
    case True
    with y Cons show ?thesis by simp
  next
    case False
    with y Cons show ?thesis by (cases ys) auto
  qed
qed

lemma split_on_no_sep: "p \<in> set (split_on c s) \<Longrightarrow> c \<notin> set p"
  by (induction s arbitrary: p) (auto split: list.splits if_splits)

lemma split_on_set: "p \<in> set (split_on c s) \<Longrightarrow> set p \<subseteq> set s"
  by (induction s arbitrary: p) (fastforce split: list.splits if_splits)+

lemma split_on_single: "c \<notin> set s \<Longrightarrow> split_on c s = [s]"
  by (induction s) auto

lemma split_on_append: "c \<notin> set a \<Longrightarrow> split_on c (a @ c # b) = a # split_on c b"
  by (induction a) auto

lemma split_on_lower:
  assumes "lower_char c = c" and "\<not> is_ascii_lower c"
  shows "split_on c (to_ascii_lowercase s) = map to_ascii_lowercase (split_on c s)"
proof -
  have c: "lower_char x = c \<longleftrightarrow> x = c" for x
    using assms lower_char_not_upper [of c] by (intro lower_char_eq_sym) simp_all
  show ?thesis
  proof (induction s)
    case Nil
    then show ?case by simp
  next
    case (Cons x s)
    then show ?case
      by (cases "split_on c s") (auto simp: c)
  qed
qed

lemma concat_chars [simp]: "concat (chars s) = s"
  by (induction s rule: chars.induct) auto

lemma chars_ascii: "\<forall>c \<in> set s. \<not> is_cont c \<Longrightarrow> chars s = map (\<lambda>c. [c]) s"
proof (induction s)
  case Nil
  then show ?case by simp
next
  case (Cons c s)
  have "takeWhile is_cont s = []" "dropWhile is_cont s = s"
    using Cons.prems by (cases s; simp)+
  with Cons show ?case by simp
qed

lemma trim_end_matches_id: "s = [] \<or> last s \<noteq> c \<Longrightarrow> trim_end_matches c s = s"
  by (cases s rule: rev_cases) (auto simp: trim_end_matches_def)

end
