(* ===== verification/Rust_Net.thy ===== *)
theory Rust_Net
  imports Rust_Str
begin

text \<open>
  Internet addresses as the standard library of Rust reads and prints them: the parsers
  behind \<open>str::parse::<Ipv4Addr>\<close> and \<open>str::parse::<Ipv6Addr>\<close>, and the \<open>Display\<close> forms
  that the PROXY protocol header embeds. A parser takes the remaining input and returns
  the value with what is left, or \<open>None\<close> with nothing consumed.
\<close>

section \<open>Addresses\<close>

datatype Ipv4Addr = Ipv4 u8 u8 u8 u8

text \<open>The eight 16-bit segments of an IPv6 address.\<close>

datatype Ipv6Addr = Ipv6 u16 u16 u16 u16 u16 u16 u16 u16

datatype IpAddr = IpV4 Ipv4Addr | IpV6 Ipv6Addr

datatype SocketAddr = SockV4 Ipv4Addr u16 | SockV6 Ipv6Addr u16

fun v4_octets :: "Ipv4Addr \<Rightarrow> u8 list" where
  "v4_octets (Ipv4 a b c d) = [a, b, c, d]"

fun v6_segments :: "Ipv6Addr \<Rightarrow> u16 list" where
  "v6_segments (Ipv6 a b c d e f g h) = [a, b, c, d, e, f, g, h]"

fun v6_of_segments :: "u16 list \<Rightarrow> Ipv6Addr option" where
  "v6_of_segments [a, b, c, d, e, f, g, h] = Some (Ipv6 a b c d e f g h)"
| "v6_of_segments _ = None"

definition u16_be_bytes :: "u16 \<Rightarrow> u8 list" where
  "u16_be_bytes w = [ucast (drop_bit 8 w), ucast w]"

definition u16_from_be :: "u8 \<Rightarrow> u8 \<Rightarrow> u16" where
  "u16_from_be hi lo = push_bit 8 (ucast hi) + ucast lo"

definition v6_octets :: "Ipv6Addr \<Rightarrow> u8 list" where
  "v6_octets a = concat (map u16_be_bytes (v6_segments a))"

section \<open>Parsing\<close>

definition dec_digit :: "char \<Rightarrow> nat option" where
  "dec_digit c = (if is_ascii_digit c then Some (cc c - 48) else None)"

definition hex_digit :: "char \<Rightarrow> nat option" where
  "hex_digit c =
     (if is_ascii_digit c then Some (cc c - 48)
      else if 97 \<le> cc c \<and> cc c \<le> 102 then Some (cc c - 87)
      else if 65 \<le> cc c \<and> cc c \<le> 70 then Some (cc c - 55)
      else None)"

text \<open>
  \<open>Parser::read_number\<close> with a digit limit: the longest run of digits, refused when it is
  empty, longer than the limit, has a leading zero that is not allowed, or does not fit the
  result type (\<open>bound\<close>).
\<close>

definition digits_value :: "(char \<Rightarrow> nat option) \<Rightarrow> nat \<Rightarrow> string \<Rightarrow> nat" where
  "digits_value dig radix ds = foldl (\<lambda>n c. n * radix + the (dig c)) 0 ds"

definition read_number ::
  "(char \<Rightarrow> nat option) \<Rightarrow> nat \<Rightarrow> nat \<Rightarrow> bool \<Rightarrow> nat \<Rightarrow> string \<Rightarrow> (nat \<times> string) option" where
  "read_number dig radix max_digits allow_zero_prefix bound s =
     (let ds = takeWhile (\<lambda>c. dig c \<noteq> None) s;
          rest = dropWhile (\<lambda>c. dig c \<noteq> None) s;
          n = digits_value dig radix ds
      in if length ds > max_digits then None
         else if ds = [] then None
         else if \<not> allow_zero_prefix \<and> hd ds = CHR ''0'' \<and> length ds > 1 then None
         else if n < bound then Some (n, rest)
         else None)"

fun read_given_char :: "char \<Rightarrow> string \<Rightarrow> string option" where
  "read_given_char c [] = None"
| "read_given_char c (x # xs) = (if x = c then Some xs else None)"

definition read_separator ::
  "char \<Rightarrow> nat \<Rightarrow> (string \<Rightarrow> ('a \<times> string) option) \<Rightarrow> string \<Rightarrow> ('a \<times> string) option" where
  "read_separator sep i p s =
     (if i > 0 then (case read_given_char sep s of None \<Rightarrow> None | Some r \<Rightarrow> p r) else p s)"

definition read_octet :: "string \<Rightarrow> (nat \<times> string) option" where
  "read_octet = read_number dec_digit 10 3 False 256"

definition read_ipv4_addr :: "string \<Rightarrow> (Ipv4Addr \<times> string) option" where
  "read_ipv4_addr s =
     (case read_separator CHR ''.'' 0 read_octet s of None \<Rightarrow> None | Some (a, s1) \<Rightarrow>
      case read_separator CHR ''.'' 1 read_octet s1 of None \<Rightarrow> None | Some (b, s2) \<Rightarrow>
      case read_separator CHR ''.'' 2 read_octet s2 of None \<Rightarrow> None | Some (c, s3) \<Rightarrow>
      case read_separator CHR ''.'' 3 read_octet s3 of None \<Rightarrow> None | Some (d, s4) \<Rightarrow>
        Some (Ipv4 (word_of_nat a) (word_of_nat b) (word_of_nat c) (word_of_nat d), s4))"

definition parse_ipv4 :: "string \<Rightarrow> Ipv4Addr option" where
  "parse_ipv4 s =
     (if length s > 15 then None
      else case read_ipv4_addr s of Some (a, []) \<Rightarrow> Some a | _ \<Rightarrow> None)"

text \<open>
  \<open>read_groups\<close> of the IPv6 parser: group \<open>i\<close> of at most \<open>limit\<close>, first as an embedded
  IPv4 address when two groups are left, then as a hexadecimal group. The result is the
  groups read, whether the last two came from an IPv4 address, and the rest.
\<close>

definition read_group :: "string \<Rightarrow> (nat \<times> string) option" where
  "read_group = read_number hex_digit 16 4 True 65536"

function read_groups :: "nat \<Rightarrow> nat \<Rightarrow> string \<Rightarrow> u16 list \<Rightarrow> u16 list \<times> bool \<times> string" where
  "read_groups i limit s acc =
     (if i \<ge> limit then (acc, False, s)
      else case (if i + 1 < limit then read_separator CHR '':'' i read_ipv4_addr s else None) of
        Some (Ipv4 a b c d, s') \<Rightarrow> (acc @ [u16_from_be a b, u16_from_be c d], True, s')
      | None \<Rightarrow>
          (case read_separator CHR '':'' i read_group s of
             None \<Rightarrow> (acc, False, s)
           | Some (g, s') \<Rightarrow> read_groups (i + 1) limit s' (acc @ [word_of_nat g])))"
  by pat_completeness auto
termination
  by (relation "measure (\<lambda>(i, limit, s, acc). limit - i)") auto

definition read_ipv6_addr :: "string \<Rightarrow> (Ipv6Addr \<times> string) option" where
  "read_ipv6_addr s =
     (case read_groups 0 8 s [] of (head, head_ipv4, s1) \<Rightarrow>
        if length head = 8 then map_option (\<lambda>a. (a, s1)) (v6_of_segments head)
        else if head_ipv4 then None
        else case read_given_char CHR '':'' s1 of None \<Rightarrow> None | Some s2 \<Rightarrow>
        case read_given_char CHR '':'' s2 of None \<Rightarrow> None | Some s3 \<Rightarrow>
        case read_groups 0 (8 - (length head + 1)) s3 [] of (tail, _, s4) \<Rightarrow>
          map_option (\<lambda>a. (a, s4))
            (v6_of_segments (head @ replicate (8 - length head - length tail) 0 @ tail)))"

definition parse_ipv6 :: "string \<Rightarrow> Ipv6Addr option" where
  "parse_ipv6 s = (case read_ipv6_addr s of Some (a, []) \<Rightarrow> Some a | _ \<Rightarrow> None)"

section \<open>Printing\<close>

definition digit_char :: "nat \<Rightarrow> char" where
  "digit_char n = char_of (if n < 10 then 48 + n else 87 + n)"

fun show_radix :: "nat \<Rightarrow> nat \<Rightarrow> string" where
  "show_radix b n =
     (if b < 2 then [] else if n < b then [digit_char n]
      else show_radix b (n div b) @ [digit_char (n mod b)])"

declare show_radix.simps [simp del]

definition show_dec :: "nat \<Rightarrow> string" where
  "show_dec n = show_radix 10 n"

definition show_hex :: "nat \<Rightarrow> string" where
  "show_hex n = show_radix 16 n"

fun show_ipv4 :: "Ipv4Addr \<Rightarrow> string" where
  "show_ipv4 (Ipv4 a b c d) =
     show_dec (unat a) @ ''.'' @ show_dec (unat b) @ ''.'' @ show_dec (unat c) @ ''.'' @ show_dec (unat d)"

text \<open>The longest run of zero segments, the leftmost of equals: (start, length).\<close>

fun zero_span :: "nat \<Rightarrow> u16 list \<Rightarrow> nat \<times> nat \<Rightarrow> nat \<times> nat \<Rightarrow> nat \<times> nat" where
  "zero_span i [] cur best = best"
| "zero_span i (x # xs) (cs, cl) (bs, bl) =
     (if x = 0 then
        let cur = (if cl = 0 then i else cs, cl + 1)
        in zero_span (Suc i) xs cur (if snd cur > bl then cur else (bs, bl))
      else zero_span (Suc i) xs (0, 0) (bs, bl))"

fun fmt_subslice :: "u16 list \<Rightarrow> string" where
  "fmt_subslice [] = []"
| "fmt_subslice [x] = show_hex (unat x)"
| "fmt_subslice (x # y # ys) = show_hex (unat x) @ '':'' @ fmt_subslice (y # ys)"

definition show_ipv6 :: "Ipv6Addr \<Rightarrow> string" where
  "show_ipv6 a =
     (let segs = v6_segments a in
      if take 5 segs = [0, 0, 0, 0, 0] \<and> segs ! 5 = 65535 then
        ''::ffff:'' @ show_ipv4 (Ipv4 (u16_be_bytes (segs ! 6) ! 0) (u16_be_bytes (segs ! 6) ! 1)
          (u16_be_bytes (segs ! 7) ! 0) (u16_be_bytes (segs ! 7) ! 1))
      else case zero_span 0 segs (0, 0) (0, 0) of (start, len) \<Rightarrow>
        if len > 1 then
          fmt_subslice (take start segs) @ ''::'' @ fmt_subslice (drop (start + len) segs)
        else fmt_subslice segs)"

section \<open>Facts about decimal numbers\<close>

lemma digit_char_dec: "n < 10 \<Longrightarrow> dec_digit (digit_char n) = Some n"
  by (simp add: dec_digit_def digit_char_def is_ascii_digit_def cc_char_of)

lemma digits_value_append: "digits_value dig radix (xs @ [c]) = digits_value dig radix xs * radix + the (dig c)"
  by (simp add: digits_value_def)

lemma show_dec_all_digits: "c \<in> set (show_radix 10 n) \<Longrightarrow> dec_digit c \<noteq> None"
proof (induction "10 :: nat" n rule: show_radix.induct)
  case (1 n)
  then show ?case
    by (subst (asm) (2) show_radix.simps) (auto split: if_splits simp: digit_char_dec)
qed

lemma show_dec_value: "digits_value dec_digit 10 (show_radix 10 n) = n"
proof (induction "10 :: nat" n rule: show_radix.induct)
  case (1 n)
  show ?case
  proof (cases "n < 10")
    case True
    then show ?thesis
      by (subst show_radix.simps) (simp add: digits_value_def digit_char_dec)
  next
    case False
    with 1 have "digits_value dec_digit 10 (show_radix 10 (n div 10)) = n div 10"
      by simp
    with False show ?thesis
      by (subst show_radix.simps) (simp add: digits_value_append digit_char_dec)
  qed
qed

lemma show_radix_nonempty: "1 < b \<Longrightarrow> show_radix b n \<noteq> []"
  by (subst show_radix.simps) simp

lemma show_dec_no_leading_zero: "0 < n \<Longrightarrow> hd (show_radix 10 n) \<noteq> CHR ''0''"
proof (induction "10 :: nat" n rule: show_radix.induct)
  case (1 n)
  show ?case
  proof (cases "n < 10")
    case True
    have "cc (digit_char n) \<noteq> cc CHR ''0''"
      using True \<open>0 < n\<close> by (simp add: digit_char_def cc_char_of) (simp add: cc_def)
    then have "digit_char n \<noteq> CHR ''0''" by auto
    with True show ?thesis by (subst show_radix.simps) simp
  next
    case False
    with 1 have "hd (show_radix 10 (n div 10)) \<noteq> CHR ''0''" by simp
    with False show ?thesis
      by (subst show_radix.simps) (simp add: show_radix_nonempty)
  qed
qed

lemma show_dec_length: "n < 256 \<Longrightarrow> length (show_radix 10 n) \<le> 3"
proof -
  assume n: "n < 256"
  have one: "m < 10 \<Longrightarrow> length (show_radix 10 m) = 1" for m
    by (subst show_radix.simps) simp
  have two: "m < 100 \<Longrightarrow> length (show_radix 10 m) \<le> 2" for m
    by (subst show_radix.simps) (simp add: one)
  show ?thesis
    using n by (subst show_radix.simps) (simp add: two)
qed

lemma show_dec_leading:
  "hd (show_radix 10 n) = CHR ''0'' \<Longrightarrow> length (show_radix 10 n) = 1"
  using show_dec_no_leading_zero [of n] by (cases "n = 0") (auto simp: show_radix.simps)

lemma takeWhile_append_stop:
  "\<forall>x \<in> set xs. P x \<Longrightarrow> ys = [] \<or> \<not> P (hd ys) \<Longrightarrow> takeWhile P (xs @ ys) = xs"
  by (cases ys) (auto simp: takeWhile_append)

lemma dropWhile_append_stop:
  "\<forall>x \<in> set xs. P x \<Longrightarrow> ys = [] \<or> \<not> P (hd ys) \<Longrightarrow> dropWhile P (xs @ ys) = ys"
  by (cases ys) (auto simp: dropWhile_append)

lemma read_octet_show:
  assumes "n < 256" and "rest = [] \<or> dec_digit (hd rest) = None"
  shows "read_octet (show_dec n @ rest) = Some (n, rest)"
proof -
  have all: "\<forall>c \<in> set (show_radix 10 n). dec_digit c \<noteq> None"
    using show_dec_all_digits by blast
  have tw: "takeWhile (\<lambda>c. dec_digit c \<noteq> None) (show_radix 10 n @ rest) = show_radix 10 n"
    and dw: "dropWhile (\<lambda>c. dec_digit c \<noteq> None) (show_radix 10 n @ rest) = rest"
    using takeWhile_append_stop [OF all] dropWhile_append_stop [OF all] assms(2) by auto
  show ?thesis
    unfolding read_octet_def read_number_def show_dec_def tw dw Let_def show_dec_value
    using show_dec_length [OF assms(1)] show_radix_nonempty [of 10 n] show_dec_leading [of n] assms(1)
    by auto
qed

lemma read_ipv4_show:
  assumes "rest = [] \<or> dec_digit (hd rest) = None"
  shows "read_ipv4_addr (show_ipv4 a @ rest) = Some (a, rest)"
proof -
  obtain p q r t where a: "a = Ipv4 p q r t" by (cases a)
  have dot: "dec_digit CHR ''.'' = None"
    by (simp add: dec_digit_def is_ascii_digit_def cc_def)
  have b: "unat (w :: u8) < 256" for w
    by (rule order_less_le_trans [OF unsigned_less]) simp
  show ?thesis
    using assms by (simp add: a read_ipv4_addr_def read_separator_def read_octet_show b dot)
qed

lemma length_show_ipv4: "length (show_ipv4 a) \<le> 15"
proof -
  obtain p q r t where a: "a = Ipv4 p q r t" by (cases a)
  have b: "length (show_dec (unat (w :: u8))) \<le> 3" for w
    unfolding show_dec_def
    by (rule show_dec_length) (rule order_less_le_trans [OF unsigned_less], simp)
  show ?thesis
    using b [of p] b [of q] b [of r] b [of t] by (simp add: a)
qed

lemma parse_show_ipv4: "parse_ipv4 (show_ipv4 a) = Some a"
  using read_ipv4_show [of "[]" a] length_show_ipv4 [of a] by (simp add: parse_ipv4_def)

end
