(* ===== verification/Host_Target.thy ===== *)
theory Host_Target
  imports Rust_Net
begin

text \<open>
  What an operator may write as a forwarding target (portunus-core): the strict RFC 1123
  host names of hostname.rs, the classification of a target host string of target.rs, the
  target lists of rule_target.rs, the protocol names of protocol.rs and the client display
  names of id.rs.
\<close>

section \<open>Host names (hostname.rs)\<close>

datatype Hostname = Hostname (hn_as_str: string)

datatype HostnameError =
    HnEmpty
  | TotalTooLong nat
  | LabelEmpty nat
  | LabelTooLong string nat
  | InvalidChar string rchar
  | HyphenBoundary string
  | AllNumeric string

definition rchar_alnum :: "rchar \<Rightarrow> bool" where
  "rchar_alnum ch = (case ch of [c] \<Rightarrow> is_ascii_alnum c | _ \<Rightarrow> False)"

definition rchar_digit :: "rchar \<Rightarrow> bool" where
  "rchar_digit ch = (case ch of [c] \<Rightarrow> is_ascii_digit c | _ \<Rightarrow> False)"

text \<open>The inner loop over the characters of one label, threading \<open>all_numeric\<close>.\<close>

fun check_chars :: "string \<Rightarrow> rchar list \<Rightarrow> bool \<Rightarrow> (HostnameError, bool) result" where
  "check_chars label [] all_numeric = Inr all_numeric"
| "check_chars label (ch # chs) all_numeric =
     (if \<not> rchar_alnum ch \<and> ch \<noteq> ''-'' then Inl (InvalidChar label ch)
      else check_chars label chs (if \<not> rchar_digit ch then False else all_numeric))"

text \<open>The loop over \<open>trimmed.split('.').enumerate()\<close>.\<close>

fun check_labels :: "nat \<Rightarrow> string list \<Rightarrow> bool \<Rightarrow> (HostnameError, bool) result" where
  "check_labels position [] all_numeric = Inr all_numeric"
| "check_labels position (label # rest) all_numeric =
     (if label = [] then Inl (LabelEmpty position)
      else if length label > 63 then Inl (LabelTooLong label (length label))
      else if hd label = CHR ''-'' \<or> last label = CHR ''-'' then Inl (HyphenBoundary label)
      else rbind (check_chars label (chars label) all_numeric)
             (\<lambda>an. check_labels (Suc position) rest an))"

definition strip_dot :: "string \<Rightarrow> string" where
  "strip_dot input = (case strip_suffix ''.'' input of Some s \<Rightarrow> s | None \<Rightarrow> input)"

definition hostname_new :: "string \<Rightarrow> (HostnameError, Hostname) result" where
  "hostname_new input =
     (let trimmed = strip_dot input in
      if trimmed = [] then Inl HnEmpty
      else if length trimmed > 253 then Inl (TotalTooLong (length trimmed))
      else rbind (check_labels 0 (split_on CHR ''.'' trimmed) True)
        (\<lambda>all_numeric.
           if all_numeric then Inl (AllNumeric trimmed)
           else Inr (Hostname (to_ascii_lowercase trimmed))))"

definition hostname_eq :: "Hostname \<Rightarrow> Hostname \<Rightarrow> bool" where
  "hostname_eq a b = eq_ignore_ascii_case (hn_as_str a) (hn_as_str b)"

section \<open>Targets (target.rs)\<close>

datatype Target = TgtIp IpAddr | TgtDns Hostname

datatype TargetError =
    UnbracketedIpv6 string
  | BracketedNotIpv6 string
  | TgtHostname HostnameError

definition bracket_inner :: "string \<Rightarrow> string option" where
  "bracket_inner input =
     (case strip_prefix ''['' input of None \<Rightarrow> None | Some s \<Rightarrow> strip_suffix '']'' s)"

definition target_parse :: "string \<Rightarrow> (TargetError, Target) result" where
  "target_parse input =
     (case parse_ipv4 input of
        Some v4 \<Rightarrow> Inr (TgtIp (IpV4 v4))
      | None \<Rightarrow>
          (case bracket_inner input of
             Some inner \<Rightarrow>
               (case parse_ipv6 inner of
                  Some v6 \<Rightarrow> Inr (TgtIp (IpV6 v6))
                | None \<Rightarrow> Inl (BracketedNotIpv6 input))
           | None \<Rightarrow>
               if CHR '':'' \<in> set input then Inl (UnbracketedIpv6 input)
               else rbind (map_err TgtHostname (hostname_new input)) (\<lambda>host. Inr (TgtDns host))))"

section \<open>Target lists (rule_target.rs)\<close>

definition MAX_TARGETS_PER_RULE :: nat where
  "MAX_TARGETS_PER_RULE = 8"

datatype ProxyProtocolVersion = V1 | V2

record RuleTarget =
  rt_host :: string
  rt_port :: u16
  rt_priority :: nat
  rt_proxy_protocol :: "ProxyProtocolVersion option"

datatype RuleTargetError =
    RtEmpty
  | RtTooMany nat
  | RtEmptyHost nat
  | RtInvalidHost nat string TargetError
  | RtInvalidPort nat u16
  | RtDuplicate nat nat string u16

fun check_targets :: "nat \<Rightarrow> RuleTarget list \<Rightarrow> (RuleTargetError, unit) result" where
  "check_targets index [] = Inr ()"
| "check_targets index (t # ts) =
     (if rt_host t = [] then Inl (RtEmptyHost index)
      else if rt_port t = 0 then Inl (RtInvalidPort index (rt_port t))
      else case target_parse (rt_host t) of
        Inl source \<Rightarrow> Inl (RtInvalidHost index (rt_host t) source)
      | Inr _ \<Rightarrow> check_targets (Suc index) ts)"

definition same_endpoint :: "RuleTarget \<Rightarrow> RuleTarget \<Rightarrow> bool" where
  "same_endpoint a b \<longleftrightarrow> rt_host a = rt_host b \<and> rt_port a = rt_port b"

text \<open>The two nested index loops: for each \<open>i\<close>, the first \<open>j > i\<close> with the same endpoint.\<close>

fun check_duplicates :: "nat \<Rightarrow> RuleTarget list \<Rightarrow> (RuleTargetError, unit) result" where
  "check_duplicates i [] = Inr ()"
| "check_duplicates i (t # ts) =
     (case find_index_from (Suc i) (same_endpoint t) ts of
        Some j \<Rightarrow> Inl (RtDuplicate i j (rt_host t) (rt_port t))
      | None \<Rightarrow> check_duplicates (Suc i) ts)"

definition targets_validate :: "RuleTarget list \<Rightarrow> (RuleTargetError, unit) result" where
  "targets_validate targets =
     (if targets = [] then Inl RtEmpty
      else if length targets > MAX_TARGETS_PER_RULE then Inl (RtTooMany (length targets))
      else rbind (check_targets 0 targets) (\<lambda>_. check_duplicates 0 targets))"

section \<open>Protocol names (protocol.rs) and client names (id.rs)\<close>

datatype Protocol = Tcp | Udp

fun protocol_as_str :: "Protocol \<Rightarrow> string" where
  "protocol_as_str Tcp = ''tcp''"
| "protocol_as_str Udp = ''udp''"

datatype ParseProtocolError = ParseProtocolError string

definition protocol_from_str :: "string \<Rightarrow> (ParseProtocolError, Protocol) result" where
  "protocol_from_str s =
     (if s = ''tcp'' then Inr Tcp else if s = ''udp'' then Inr Udp else Inl (ParseProtocolError s))"

definition CLIENT_NAME_MAX_BYTES :: nat where
  "CLIENT_NAME_MAX_BYTES = 255"

datatype ClientName = ClientName (cn_as_str: string)

datatype ClientNameError = CnEmpty | CnTooLong nat | CnControlChar

definition client_name_new :: "string \<Rightarrow> (ClientNameError, ClientName) result" where
  "client_name_new s =
     (if trim s = [] then Inl CnEmpty
      else if length s > CLIENT_NAME_MAX_BYTES then Inl (CnTooLong (length s))
      else if \<exists>ch \<in> set (chars s). is_control ch then Inl CnControlChar
      else Inr (ClientName s))"

section \<open>Specifications\<close>

text \<open>RFC 1123 host names, stated without reference to the loops above.\<close>

definition valid_label :: "string \<Rightarrow> bool" where
  "valid_label l \<longleftrightarrow> l \<noteq> [] \<and> length l \<le> 63 \<and> hd l \<noteq> CHR ''-'' \<and> last l \<noteq> CHR ''-'' \<and>
     (\<forall>c \<in> set l. is_ascii_alnum c \<or> c = CHR ''-'')"

definition valid_hostname :: "string \<Rightarrow> bool" where
  "valid_hostname s \<longleftrightarrow> s \<noteq> [] \<and> length s \<le> 253 \<and> (\<forall>l \<in> set (split_on CHR ''.'' s). valid_label l) \<and>
     (\<exists>c \<in> set s. c \<noteq> CHR ''.'' \<and> \<not> is_ascii_digit c)"

definition valid_target :: "RuleTarget \<Rightarrow> bool" where
  "valid_target t \<longleftrightarrow> rt_host t \<noteq> [] \<and> rt_port t \<noteq> 0 \<and> is_ok (target_parse (rt_host t))"

section \<open>Facts about host names\<close>

lemma alnum_not_cont: "is_ascii_alnum c \<Longrightarrow> \<not> is_cont c"
  by (auto simp: is_ascii_alnum_def is_ascii_digit_def is_ascii_upper_def is_ascii_lower_def is_cont_def)

lemma hyphen_not_cont: "\<not> is_cont CHR ''-''"
  by (simp add: is_cont_def cc_def)

lemma set_chars: "c \<in> set s \<longleftrightarrow> (\<exists>ch \<in> set (chars s). c \<in> set ch)"
  using concat_chars [of s] by (metis UN_iff set_concat)

lemma rchar_alnum_single: "rchar_alnum ch \<Longrightarrow> c \<in> set ch \<Longrightarrow> is_ascii_alnum c"
  by (cases ch rule: remdups_adj.cases) (simp_all add: rchar_alnum_def)

lemma check_chars_Inr:
  "check_chars label chs an = Inr b \<longleftrightarrow>
     (\<forall>ch \<in> set chs. rchar_alnum ch \<or> ch = ''-'') \<and> b = (an \<and> (\<forall>ch \<in> set chs. rchar_digit ch))"
  by (induction chs arbitrary: an) auto

lemma chars_label_ok:
  "(\<forall>ch \<in> set (chars l). rchar_alnum ch \<or> ch = ''-'') \<longleftrightarrow>
   (\<forall>c \<in> set l. is_ascii_alnum c \<or> c = CHR ''-'')"
proof
  assume A: "\<forall>ch \<in> set (chars l). rchar_alnum ch \<or> ch = ''-''"
  show "\<forall>c \<in> set l. is_ascii_alnum c \<or> c = CHR ''-''"
  proof
    fix c
    assume "c \<in> set l"
    then obtain ch where "ch \<in> set (chars l)" "c \<in> set ch"
      using set_chars [of c l] by auto
    moreover from this A have "rchar_alnum ch \<or> ch = ''-''" by simp
    ultimately show "is_ascii_alnum c \<or> c = CHR ''-''"
      by (elim disjE) (simp_all add: rchar_alnum_single)
  qed
next
  assume A: "\<forall>c \<in> set l. is_ascii_alnum c \<or> c = CHR ''-''"
  then have "chars l = map (\<lambda>c. [c]) l"
    by (intro chars_ascii) (auto dest: alnum_not_cont simp: hyphen_not_cont)
  with A show "\<forall>ch \<in> set (chars l). rchar_alnum ch \<or> ch = ''-''"
    by (auto simp: rchar_alnum_def)
qed

lemma chars_digits:
  assumes "\<forall>c \<in> set l. is_ascii_alnum c \<or> c = CHR ''-''"
  shows "(\<forall>ch \<in> set (chars l). rchar_digit ch) \<longleftrightarrow> (\<forall>c \<in> set l. is_ascii_digit c)"
proof -
  have "chars l = map (\<lambda>c. [c]) l"
    using assms by (intro chars_ascii) (auto dest: alnum_not_cont simp: hyphen_not_cont)
  then show ?thesis by (simp add: rchar_digit_def)
qed

lemma check_labels_Inr:
  "check_labels i ls an = Inr b \<longleftrightarrow>
     (\<forall>l \<in> set ls. valid_label l) \<and> b = (an \<and> (\<forall>l \<in> set ls. \<forall>c \<in> set l. is_ascii_digit c))"
proof (induction ls arbitrary: i an)
  case Nil
  then show ?case by auto
next
  case (Cons l ls)
  have split: "check_labels i (l # ls) an = Inr b \<longleftrightarrow>
    l \<noteq> [] \<and> length l \<le> 63 \<and> hd l \<noteq> CHR ''-'' \<and> last l \<noteq> CHR ''-'' \<and>
    (\<exists>a. check_chars l (chars l) an = Inr a \<and> check_labels (Suc i) ls a = Inr b)"
    by (auto simp: rbind_Inr_iff)
  show ?case
  proof (cases "\<forall>c \<in> set l. is_ascii_alnum c \<or> c = CHR ''-''")
    case True
    show ?thesis
      unfolding split check_chars_Inr Cons.IH chars_digits [OF True] chars_label_ok valid_label_def
      using True by auto
  next
    case False
    then show ?thesis
      unfolding split check_chars_Inr chars_label_ok by (auto simp: valid_label_def)
  qed
qed

lemma split_on_cover: "c \<in> set s \<Longrightarrow> c \<noteq> d \<Longrightarrow> \<exists>l \<in> set (split_on d s). c \<in> set l"
  by (induction s) (auto split: list.splits)

lemma split_on_all:
  "(\<forall>l \<in> set (split_on d s). \<forall>c \<in> set l. P c) \<longleftrightarrow> \<not> (\<exists>c \<in> set s. c \<noteq> d \<and> \<not> P c)"
  (is "?L \<longleftrightarrow> ?R")
proof
  assume L: ?L
  show ?R
  proof
    assume "\<exists>c \<in> set s. c \<noteq> d \<and> \<not> P c"
    then obtain c where c: "c \<in> set s" "c \<noteq> d" "\<not> P c" by blast
    from split_on_cover [OF c(1,2)] L c(3) show False by blast
  qed
next
  assume R: ?R
  show ?L
  proof (intro ballI)
    fix l c
    assume l: "l \<in> set (split_on d s)" and c: "c \<in> set l"
    have "c \<in> set s" "c \<noteq> d"
      using split_on_set [OF l] split_on_no_sep [OF l] c by auto
    with R show "P c" by blast
  qed
qed

lemma hostname_new_iff:
  "hostname_new input = Inr h \<longleftrightarrow>
     valid_hostname (strip_dot input) \<and> h = Hostname (to_ascii_lowercase (strip_dot input))"
proof -
  let ?t = "strip_dot input"
  have "hostname_new input = Inr h \<longleftrightarrow>
      ?t \<noteq> [] \<and> length ?t \<le> 253 \<and> check_labels 0 (split_on CHR ''.'' ?t) True = Inr False \<and>
      h = Hostname (to_ascii_lowercase ?t)"
    by (auto simp: hostname_new_def Let_def rbind_Inr_iff split: if_splits)
  then show ?thesis
    unfolding check_labels_Inr valid_hostname_def split_on_all by simp
qed

lemma valid_label_lower: "valid_label (to_ascii_lowercase l) \<longleftrightarrow> valid_label l"
proof -
  have h: "lower_char c = CHR ''-'' \<longleftrightarrow> c = CHR ''-''" for c
    by (rule lower_char_eq_sym) (simp_all add: is_ascii_upper_def is_ascii_lower_def cc_def)
  show ?thesis
    by (cases "l = []") (auto simp: valid_label_def to_ascii_lowercase_def hd_map last_map h)
qed

lemma valid_hostname_lower:
  assumes "valid_hostname s"
  shows "valid_hostname (to_ascii_lowercase s)"
proof -
  have d: "lower_char c = CHR ''.'' \<longleftrightarrow> c = CHR ''.''" for c
    by (rule lower_char_eq_sym) (simp_all add: is_ascii_upper_def is_ascii_lower_def cc_def)
  have sp: "split_on CHR ''.'' (to_ascii_lowercase s) = map to_ascii_lowercase (split_on CHR ''.'' s)"
    by (rule split_on_lower) (simp_all add: d is_ascii_lower_def cc_def)
  obtain c where c: "c \<in> set s" "c \<noteq> CHR ''.''" "\<not> is_ascii_digit c"
    using assms by (auto simp: valid_hostname_def)
  then have "lower_char c \<in> set (to_ascii_lowercase s)" "lower_char c \<noteq> CHR ''.''"
    "\<not> is_ascii_digit (lower_char c)"
    by (simp_all add: to_ascii_lowercase_def d)
  then have "\<exists>c \<in> set (to_ascii_lowercase s). c \<noteq> CHR ''.'' \<and> \<not> is_ascii_digit c" by blast
  moreover have "length (to_ascii_lowercase s) = length s" "to_ascii_lowercase s \<noteq> [] \<longleftrightarrow> s \<noteq> []"
    by (simp_all add: to_ascii_lowercase_def)
  ultimately show ?thesis
    using assms by (simp add: valid_hostname_def sp valid_label_lower)
qed

lemma split_on_snoc: "split_on d (r @ [d]) = split_on d r @ [[]]"
  by (induction r) (auto split: list.splits)

lemma valid_hostname_no_trailing_dot:
  assumes "valid_hostname s"
  shows "strip_suffix ''.'' s = None"
proof (rule ccontr)
  assume "strip_suffix ''.'' s \<noteq> None"
  then obtain r where r: "s = r @ ''.''"
    by (metis not_None_eq strip_suffix_Some)
  have "[] \<in> set (split_on CHR ''.'' (r @ ''.''))"
    by (simp add: split_on_snoc)
  with assms r show False
    by (auto simp: valid_hostname_def valid_label_def)
qed

lemma strip_dot_valid: "valid_hostname s \<Longrightarrow> strip_dot s = s"
  by (simp add: strip_dot_def valid_hostname_no_trailing_dot)

lemma ascii_lower_not_upper: "c \<in> set (to_ascii_lowercase s) \<Longrightarrow> \<not> is_ascii_upper c"
  by (auto simp: to_ascii_lowercase_def)

section \<open>Facts about target lists\<close>

lemma check_targets_ok: "check_targets i ts = Inr () \<longleftrightarrow> (\<forall>t \<in> set ts. valid_target t)"
  by (induction ts arbitrary: i) (auto simp: valid_target_def split: sum.splits)

lemma check_targets_is_ok: "is_ok (check_targets i ts) \<longleftrightarrow> (\<forall>t \<in> set ts. valid_target t)"
  using check_targets_ok [of i ts] by (cases "check_targets i ts") auto

lemma check_duplicates_ok:
  "check_duplicates i ts = Inr () \<longleftrightarrow> distinct (map (\<lambda>t. (rt_host t, rt_port t)) ts)"
proof (induction ts arbitrary: i)
  case Nil
  then show ?case by simp
next
  case (Cons t ts)
  have dup: "find_index_from (Suc i) (same_endpoint t) ts = None \<longleftrightarrow>
      (rt_host t, rt_port t) \<notin> (\<lambda>t. (rt_host t, rt_port t)) ` set ts"
    by (auto simp: find_index_from_None same_endpoint_def)
  show ?case
    using Cons dup by (cases "find_index_from (Suc i) (same_endpoint t) ts") auto
qed

lemma check_duplicates_error:
  "check_duplicates i ts = Inl e \<Longrightarrow>
     \<exists>a b. e = RtDuplicate (i + a) (i + b) (rt_host (ts ! a)) (rt_port (ts ! a)) \<and>
       a < b \<and> b < length ts \<and> same_endpoint (ts ! a) (ts ! b)"
proof (induction ts arbitrary: i)
  case Nil
  then show ?case by simp
next
  case (Cons t ts)
  show ?case
  proof (cases "find_index_from (Suc i) (same_endpoint t) ts")
    case None
    with Cons.prems have "check_duplicates (Suc i) ts = Inl e" by simp
    from Cons.IH [OF this] obtain a b where
      "e = RtDuplicate (Suc i + a) (Suc i + b) (rt_host (ts ! a)) (rt_port (ts ! a))"
      "a < b" "b < length ts" "same_endpoint (ts ! a) (ts ! b)" by blast
    then show ?thesis
      by (intro exI [of _ "Suc a"] exI [of _ "Suc b"]) simp
  next
    case (Some j)
    then obtain k where "k < length ts" "j = Suc i + k" "same_endpoint t (ts ! k)"
      using find_index_from_Some by blast
    with Some Cons.prems show ?thesis
      by (intro exI [of _ 0] exI [of _ "Suc k"]) simp
  qed
qed

section \<open>Properties\<close>

text \<open>\<open>Hostname::new\<close> accepts exactly the RFC 1123 host names
  (after one optional trailing dot is dropped): total length at most 253, every label of
  1 to 63 letters, digits and inner hyphens, and not all digits; the value it returns is the
  lower-cased name.\<close>

lemma hostname_new_correct:
  "hostname_new input = Inr h \<longleftrightarrow>
     valid_hostname (strip_dot input) \<and> h = Hostname (to_ascii_lowercase (strip_dot input))"
  by (rule hostname_new_iff)

text \<open>Printing an accepted host name and validating it again gives
  the same value, so a name that was persisted and reloaded is unchanged.\<close>

lemma hostname_round_trip:
  assumes "hostname_new input = Inr h"
  shows "hostname_new (hn_as_str h) = Inr h"
proof -
  let ?s = "to_ascii_lowercase (strip_dot input)"
  have "valid_hostname ?s" and h: "h = Hostname ?s"
    using assms valid_hostname_lower by (auto simp: hostname_new_iff)
  then have "valid_hostname (strip_dot ?s)" "strip_dot ?s = ?s"
    by (simp_all add: strip_dot_valid)
  then show ?thesis
    by (simp add: hostname_new_iff h)
qed

text \<open>A target string is taken as an IPv4 literal exactly when
  it parses as one, the printed form of every IPv4 address is taken back as that address,
  and a string is taken as a DNS name only when it is no IPv4 literal, carries no colon and
  is a valid host name.\<close>

lemma target_parse_classifies:
  "target_parse (show_ipv4 a) = Inr (TgtIp (IpV4 a)) \<and>
   (target_parse s = Inr (TgtIp (IpV4 a)) \<longleftrightarrow> parse_ipv4 s = Some a) \<and>
   (target_parse s = Inr (TgtDns h) \<longleftrightarrow>
     parse_ipv4 s = None \<and> bracket_inner s = None \<and> CHR '':'' \<notin> set s \<and>
     valid_hostname (strip_dot s) \<and> h = Hostname (to_ascii_lowercase (strip_dot s)))"
proof -
  have "target_parse s = Inr (TgtDns h) \<longleftrightarrow>
      parse_ipv4 s = None \<and> bracket_inner s = None \<and> CHR '':'' \<notin> set s \<and> hostname_new s = Inr h"
    by (auto simp: target_parse_def rbind_Inr_iff map_err_Inr_iff split: option.splits)
  moreover have "target_parse s = Inr (TgtIp (IpV4 a)) \<longleftrightarrow> parse_ipv4 s = Some a" for s
    by (auto simp: target_parse_def rbind_Inr_iff split: option.splits)
  ultimately show ?thesis
    using parse_show_ipv4 hostname_new_iff by simp
qed

text \<open>The target-list validator accepts exactly the lists of
  one to eight targets, each with a non-empty classifiable host and a non-zero port, with no
  two equal (host, port) pairs; and when it reports a duplicate, the two indices it names
  are in order, in range and do share the endpoint.\<close>

lemma targets_validate_correct:
  "(targets_validate ts = Inr () \<longleftrightarrow>
     1 \<le> length ts \<and> length ts \<le> 8 \<and> (\<forall>t \<in> set ts. valid_target t) \<and>
     distinct (map (\<lambda>t. (rt_host t, rt_port t)) ts)) \<and>
   (targets_validate ts = Inl (RtDuplicate a b host port) \<longrightarrow>
     a < b \<and> b < length ts \<and> same_endpoint (ts ! a) (ts ! b))"
proof
  show "targets_validate ts = Inr () \<longleftrightarrow>
     1 \<le> length ts \<and> length ts \<le> 8 \<and> (\<forall>t \<in> set ts. valid_target t) \<and>
     distinct (map (\<lambda>t. (rt_host t, rt_port t)) ts)"
    by (cases "ts = []") (auto simp: targets_validate_def MAX_TARGETS_PER_RULE_def
        check_targets_is_ok check_duplicates_ok Suc_le_eq
        simp del: check_targets.simps check_duplicates.simps)
  have no_dup: "check_targets i xs \<noteq> Inl (RtDuplicate a b host port)" for i xs
    by (induction xs arbitrary: i) (auto split: sum.splits)
  show "targets_validate ts = Inl (RtDuplicate a b host port) \<longrightarrow>
     a < b \<and> b < length ts \<and> same_endpoint (ts ! a) (ts ! b)"
  proof
    assume "targets_validate ts = Inl (RtDuplicate a b host port)"
    then have "check_duplicates 0 ts = Inl (RtDuplicate a b host port)"
      using no_dup by (auto simp: targets_validate_def rbind_Inl_iff split: if_splits)
    from check_duplicates_error [OF this]
    show "a < b \<and> b < length ts \<and> same_endpoint (ts ! a) (ts ! b)" by auto
  qed
qed

definition two_targets :: "RuleTarget list" where
  "two_targets =
     [\<lparr>rt_host = ''db'', rt_port = 22, rt_priority = 0, rt_proxy_protocol = None\<rparr>,
      \<lparr>rt_host = ''db'', rt_port = 22, rt_priority = 1, rt_proxy_protocol = Some V2\<rparr>]"

text \<open>A display name is accepted verbatim exactly when it has a
  character other than white space, at most 255 bytes and no control character.\<close>

lemma client_name_accepts:
  "client_name_new s = Inr n \<longleftrightarrow>
     n = ClientName s \<and> length s \<le> 255 \<and> trim s \<noteq> [] \<and> (\<forall>ch \<in> set (chars s). \<not> is_control ch)"
  by (auto simp: client_name_new_def CLIENT_NAME_MAX_BYTES_def)

lemma protocol_round_trip: "protocol_from_str (protocol_as_str p) = Inr p"
  by (cases p) (simp_all add: protocol_from_str_def)

end
