(* ===== verification/Rate_Limit.thy ===== *)
theory Rate_Limit
  imports Rust_Str
begin

text \<open>
  The rate-limit envelope of portunus-core (rate_limit.rs): four optional caps with their
  burst overrides, the fail-fast validator, the default burst and the reject reasons.
  Caps of type \<open>u64\<close> and \<open>u32\<close> are natural numbers; \<open>rl_typed\<close> states the ranges of
  the Rust types.
\<close>

section \<open>Definitions\<close>

definition BURST_RATE_RATIO_MAX_SECONDS :: nat where
  "BURST_RATE_RATIO_MAX_SECONDS = 60"

record RateLimit =
  bandwidth_in_bps :: "nat option"
  bandwidth_out_bps :: "nat option"
  new_connections_per_sec :: "nat option"
  concurrent_connections :: "nat option"
  bandwidth_in_burst :: "nat option"
  bandwidth_out_burst :: "nat option"
  new_connections_burst :: "nat option"

datatype RejectReason =
    ConnConcurrent
  | ConnRate
  | UdpFlowRate
  | OwnerConcurrent
  | OwnerConnRate
  | OwnerUdpFlowRate

fun as_metric_label :: "RejectReason \<Rightarrow> string" where
  "as_metric_label ConnConcurrent = ''conn_concurrent''"
| "as_metric_label ConnRate = ''conn_rate''"
| "as_metric_label UdpFlowRate = ''udp_flow_rate''"
| "as_metric_label OwnerConcurrent = ''owner_concurrent''"
| "as_metric_label OwnerConnRate = ''owner_conn_rate''"
| "as_metric_label OwnerUdpFlowRate = ''owner_udp_flow_rate''"

fun is_owner_scope :: "RejectReason \<Rightarrow> bool" where
  "is_owner_scope OwnerConcurrent = True"
| "is_owner_scope OwnerConnRate = True"
| "is_owner_scope OwnerUdpFlowRate = True"
| "is_owner_scope _ = False"

text \<open>\<open>BurstRange\<close> carries field, rate, burst, lo and hi.\<close>

datatype RateLimitError =
    CapZero string
  | BurstWithoutRate string
  | BurstRange string nat nat nat nat

definition check_nonzero_u64 :: "nat option \<Rightarrow> string \<Rightarrow> (RateLimitError, unit) result" where
  "check_nonzero_u64 v field = (if v = Some 0 then Inl (CapZero field) else Inr ())"

definition check_nonzero_u32 :: "nat option \<Rightarrow> string \<Rightarrow> (RateLimitError, unit) result" where
  "check_nonzero_u32 v field = (if v = Some 0 then Inl (CapZero field) else Inr ())"

definition burst_field_name_u64 :: "string \<Rightarrow> string" where
  "burst_field_name_u64 family =
     (if family = ''bandwidth_in'' then ''bandwidth_in_burst''
      else if family = ''bandwidth_out'' then ''bandwidth_out_burst''
      else ''burst'')"

definition burst_field_name_u32 :: "string \<Rightarrow> string" where
  "burst_field_name_u32 family =
     (if family = ''new_connections'' then ''new_connections_burst'' else ''burst'')"

definition check_burst_u64 ::
  "string \<Rightarrow> nat option \<Rightarrow> nat option \<Rightarrow> (RateLimitError, unit) result" where
  "check_burst_u64 family rate_opt burst_opt =
     (case burst_opt of
        None \<Rightarrow> Inr ()
      | Some burst \<Rightarrow>
          (case rate_opt of
             None \<Rightarrow> Inl (BurstWithoutRate (burst_field_name_u64 family))
           | Some rate \<Rightarrow>
               (let lo = rate div 100;
                    hi = sat_mul64 rate BURST_RATE_RATIO_MAX_SECONDS;
                    lo_effective = max lo 1
                in if burst < lo_effective \<or> burst > hi
                   then Inl (BurstRange (burst_field_name_u64 family) rate burst lo_effective hi)
                   else Inr ())))"

definition check_burst_u32 ::
  "string \<Rightarrow> nat option \<Rightarrow> nat option \<Rightarrow> (RateLimitError, unit) result" where
  "check_burst_u32 family rate_opt burst_opt =
     (case burst_opt of
        None \<Rightarrow> Inr ()
      | Some burst64 \<Rightarrow>
          (case rate_opt of
             None \<Rightarrow> Inl (BurstWithoutRate (burst_field_name_u32 family))
           | Some rate64 \<Rightarrow>
               (let lo = rate64 div 100;
                    hi = sat_mul64 rate64 BURST_RATE_RATIO_MAX_SECONDS;
                    lo_effective = max lo 1
                in if burst64 < lo_effective \<or> burst64 > hi
                   then Inl (BurstRange (burst_field_name_u32 family) rate64 burst64 lo_effective hi)
                   else Inr ())))"

definition rate_limit_validate :: "RateLimit \<Rightarrow> (RateLimitError, unit) result" where
  "rate_limit_validate rl =
     rbind (check_nonzero_u64 (bandwidth_in_bps rl) ''bandwidth_in_bps'') (\<lambda>_.
     rbind (check_nonzero_u64 (bandwidth_out_bps rl) ''bandwidth_out_bps'') (\<lambda>_.
     rbind (check_nonzero_u32 (new_connections_per_sec rl) ''new_connections_per_sec'') (\<lambda>_.
     rbind (check_nonzero_u32 (concurrent_connections rl) ''concurrent_connections'') (\<lambda>_.
     rbind (check_burst_u64 ''bandwidth_in'' (bandwidth_in_bps rl) (bandwidth_in_burst rl)) (\<lambda>_.
     rbind (check_burst_u64 ''bandwidth_out'' (bandwidth_out_bps rl) (bandwidth_out_burst rl)) (\<lambda>_.
     rbind (check_burst_u32 ''new_connections'' (new_connections_per_sec rl)
              (new_connections_burst rl)) (\<lambda>_.
     Inr ())))))))"

definition effective_burst_u64 :: "nat option \<Rightarrow> nat option \<Rightarrow> nat option" where
  "effective_burst_u64 rate burst =
     (case rate of None \<Rightarrow> None
      | Some r \<Rightarrow> Some (case burst of None \<Rightarrow> r | Some b \<Rightarrow> b))"

definition effective_burst_u32 :: "nat option \<Rightarrow> nat option \<Rightarrow> nat option" where
  "effective_burst_u32 rate burst =
     (case rate of None \<Rightarrow> None
      | Some r \<Rightarrow> Some (case burst of None \<Rightarrow> r | Some b \<Rightarrow> b))"

section \<open>Specification\<close>

definition opt_le :: "nat option \<Rightarrow> nat \<Rightarrow> bool" where
  "opt_le v m = (case v of None \<Rightarrow> True | Some x \<Rightarrow> x \<le> m)"

definition rl_typed :: "RateLimit \<Rightarrow> bool" where
  "rl_typed rl \<longleftrightarrow> opt_le (bandwidth_in_bps rl) u64_max \<and> opt_le (bandwidth_out_bps rl) u64_max \<and>
     opt_le (new_connections_per_sec rl) u32_max \<and> opt_le (concurrent_connections rl) u32_max \<and>
     opt_le (bandwidth_in_burst rl) u64_max \<and> opt_le (bandwidth_out_burst rl) u64_max \<and>
     opt_le (new_connections_burst rl) u32_max"

text \<open>A cap and its burst override agree with the documented envelope
  \<open>rate/100 \<le> burst \<le> 60 * rate\<close>.\<close>

definition burst_ok :: "nat option \<Rightarrow> nat option \<Rightarrow> bool" where
  "burst_ok rate burst =
     (case burst of None \<Rightarrow> True
      | Some b \<Rightarrow> (case rate of None \<Rightarrow> False | Some r \<Rightarrow> 1 \<le> b \<and> r div 100 \<le> b \<and> b \<le> 60 * r))"

section \<open>Lemmas\<close>

lemma check_nonzero_ok [simp]:
  "is_ok (check_nonzero_u64 v f) \<longleftrightarrow> v \<noteq> Some 0"
  "is_ok (check_nonzero_u32 v f) \<longleftrightarrow> v \<noteq> Some 0"
  by (simp_all add: check_nonzero_u64_def check_nonzero_u32_def)

lemma check_burst_ok:
  assumes "opt_le burst u64_max"
  shows "is_ok (check_burst_u64 fam rate burst) \<longleftrightarrow> burst_ok rate burst"
    and "is_ok (check_burst_u32 fam rate burst) \<longleftrightarrow> burst_ok rate burst"
  using assms
  by (auto simp: check_burst_u64_def check_burst_u32_def burst_ok_def opt_le_def Let_def
      sat_mul64_def BURST_RATE_RATIO_MAX_SECONDS_def split: option.splits)

lemma opt_le_u32_u64: "opt_le v u32_max \<Longrightarrow> opt_le v u64_max"
  by (auto simp: opt_le_def u32_max_def u64_max_def split: option.splits)

lemma is_ok_unit: "r = Inr () \<longleftrightarrow> is_ok r"
  by (cases r) auto

lemma rbind_Inr_unit: "rbind r Inr = r"
  by (cases r) auto

lemma is_ok_rbind_const: "is_ok (rbind r (\<lambda>_. s)) \<longleftrightarrow> is_ok r \<and> is_ok s"
  by (cases r) auto

lemma rate_limit_validate_iff:
  assumes "rl_typed rl"
  shows "rate_limit_validate rl = Inr () \<longleftrightarrow>
     bandwidth_in_bps rl \<noteq> Some 0 \<and> bandwidth_out_bps rl \<noteq> Some 0 \<and>
     new_connections_per_sec rl \<noteq> Some 0 \<and> concurrent_connections rl \<noteq> Some 0 \<and>
     burst_ok (bandwidth_in_bps rl) (bandwidth_in_burst rl) \<and>
     burst_ok (bandwidth_out_bps rl) (bandwidth_out_burst rl) \<and>
     burst_ok (new_connections_per_sec rl) (new_connections_burst rl)"
  using assms
  by (simp add: rate_limit_validate_def rl_typed_def rbind_Inr_unit is_ok_unit is_ok_rbind_const
      check_burst_ok
      opt_le_u32_u64)

lemma effective_burst_bounds:
  assumes "burst_ok rate burst" and "rate \<noteq> Some 0"
  shows "case effective_burst_u64 rate burst of
           None \<Rightarrow> rate = None
         | Some b \<Rightarrow> (\<exists>r. rate = Some r \<and> 1 \<le> b \<and> r div 100 \<le> b \<and> b \<le> 60 * r)"
  using assms by (auto simp: effective_burst_u64_def burst_ok_def split: option.splits)

section \<open>Properties\<close>

text \<open>The envelope validator accepts exactly the envelopes
  in which no cap is zero and every burst override has its companion rate and lies in
  \<open>[max 1 (rate/100), 60 * rate]\<close>; in an accepted envelope the burst handed to the ingress
  bucket is positive and within sixty seconds' worth of the rate.\<close>

lemma rate_limit_validate_correct:
  assumes "rl_typed rl"
  shows "(rate_limit_validate rl = Inr () \<longleftrightarrow>
     bandwidth_in_bps rl \<noteq> Some 0 \<and> bandwidth_out_bps rl \<noteq> Some 0 \<and>
     new_connections_per_sec rl \<noteq> Some 0 \<and> concurrent_connections rl \<noteq> Some 0 \<and>
     burst_ok (bandwidth_in_bps rl) (bandwidth_in_burst rl) \<and>
     burst_ok (bandwidth_out_bps rl) (bandwidth_out_burst rl) \<and>
     burst_ok (new_connections_per_sec rl) (new_connections_burst rl)) \<and>
   (rate_limit_validate rl = Inr () \<longrightarrow>
     (case effective_burst_u64 (bandwidth_in_bps rl) (bandwidth_in_burst rl) of
        None \<Rightarrow> bandwidth_in_bps rl = None
      | Some b \<Rightarrow> \<exists>r. bandwidth_in_bps rl = Some r \<and> 1 \<le> b \<and> r div 100 \<le> b \<and> b \<le> 60 * r))"
  using rate_limit_validate_iff [OF assms] effective_burst_bounds by blast

definition sample_limit :: RateLimit where
  "sample_limit = \<lparr>bandwidth_in_bps = Some 1000, bandwidth_out_bps = None,
     new_connections_per_sec = Some 5, concurrent_connections = Some 2,
     bandwidth_in_burst = Some 4000, bandwidth_out_burst = None, new_connections_burst = None\<rparr>"

end
