(* ===== verification/Token_Bucket.thy ===== *)
theory Token_Bucket
  imports Prelude "HOL-Library.While_Combinator"
begin

text \<open>
  The lazy-refill token bucket of rate_limit/bucket.rs. \<open>acquire\<close> is one uncontended call;
  \<open>tb_step\<close> is the interleaving of any number of callers at the granularity of the atomic
  operations of the source (loads, compare-exchanges that may fail spuriously). Instants are
  natural numbers of nanoseconds.
\<close>

section \<open>One caller\<close>

record TokenBucket =
  rate_per_sec :: nat
  burst :: nat
  tokens :: nat
  last_refill_micros :: nat
  epoch :: nat

datatype Acquire = Granted | Throttled nat

text \<open>The deficit of \<open>Throttled\<close> is in microseconds.\<close>

definition tb_new :: "nat \<Rightarrow> nat \<Rightarrow> nat \<Rightarrow> TokenBucket" where
  "tb_new rate b now =
     \<lparr>rate_per_sec = rate, burst = b, tokens = b, last_refill_micros = 0, epoch = now\<rparr>"

definition tb_with_carryover :: "nat \<Rightarrow> nat \<Rightarrow> TokenBucket \<Rightarrow> nat \<Rightarrow> TokenBucket" where
  "tb_with_carryover rate b prior now =
     \<lparr>rate_per_sec = rate, burst = b, tokens = min (tokens prior) b,
      last_refill_micros = 0, epoch = now\<rparr>"

definition now_micros :: "TokenBucket \<Rightarrow> nat \<Rightarrow> nat" where
  "now_micros tb now = try_u64 ((now - epoch tb) div 1000)"

definition refill_amount :: "nat \<Rightarrow> nat \<Rightarrow> nat" where
  "refill_amount rate elapsed_micros = try_u64 (elapsed_micros * rate div 1000000)"

definition tb_refill :: "TokenBucket \<Rightarrow> nat \<Rightarrow> TokenBucket" where
  "tb_refill tb now_us =
     (let seen = last_refill_micros tb in
      if now_us \<le> seen then tb
      else let added = refill_amount (rate_per_sec tb) (now_us - seen) in
        if added = 0 then tb
        else tb\<lparr>last_refill_micros := now_us,
                tokens := min (sat_add64 (tokens tb) added) (burst tb)\<rparr>)"

definition deficit_micros :: "nat \<Rightarrow> nat \<Rightarrow> nat" where
  "deficit_micros rate needed = div_ceil (sat_mul64 needed 1000000) (max rate 1)"

definition tb_debit :: "TokenBucket \<Rightarrow> nat \<Rightarrow> TokenBucket \<times> Acquire" where
  "tb_debit tb n =
     (let current = tokens tb in
      if n \<le> current then (tb\<lparr>tokens := current - n\<rparr>, Granted)
      else (tb, Throttled (deficit_micros (rate_per_sec tb) (n - current))))"

definition acquire :: "TokenBucket \<Rightarrow> nat \<Rightarrow> nat \<Rightarrow> TokenBucket \<times> Acquire" where
  "acquire tb n now =
     (if n = 0 then (tb, Granted) else tb_debit (tb_refill tb (now_micros tb now)) n)"

section \<open>Interleaved callers\<close>

text \<open>Program points of a caller inside \<open>acquire n\<close>: before the CAS on the timestamp,
  inside the minting loop, at the head of the debit loop, and before the debit CAS.\<close>

datatype tb_pc =
    Idle
  | Entered nat nat
  | Publish nat nat nat nat
  | Mint nat nat nat
  | Debit nat
  | DebitCas nat nat

record tb_world =
  w_rate :: nat
  w_burst :: nat
  w_tokens :: nat
  w_last :: nat
  w_clock :: nat
  w_granted :: nat
  w_pcs :: "tb_pc list"

text \<open>\<open>w_granted\<close> counts the tokens handed out so far; it is not part of the program.\<close>

inductive tb_step :: "tb_world \<Rightarrow> tb_world \<Rightarrow> bool" where
  tick: "tb_step w (w\<lparr>w_clock := w_clock w + d\<rparr>)"
| enter: "\<lbrakk>i < length (w_pcs w); w_pcs w ! i = Idle; 0 < n; now \<le> w_clock w\<rbrakk>
    \<Longrightarrow> tb_step w (w\<lparr>w_pcs := (w_pcs w)[i := Entered n now]\<rparr>)"
| refill_early: "\<lbrakk>i < length (w_pcs w); w_pcs w ! i = Entered n now; now \<le> w_last w\<rbrakk>
    \<Longrightarrow> tb_step w (w\<lparr>w_pcs := (w_pcs w)[i := Debit n]\<rparr>)"
| refill_fraction: "\<lbrakk>i < length (w_pcs w); w_pcs w ! i = Entered n now; w_last w < now;
      refill_amount (w_rate w) (now - w_last w) = 0\<rbrakk>
    \<Longrightarrow> tb_step w (w\<lparr>w_pcs := (w_pcs w)[i := Debit n]\<rparr>)"
| refill_loaded: "\<lbrakk>i < length (w_pcs w); w_pcs w ! i = Entered n now; w_last w < now;
      refill_amount (w_rate w) (now - w_last w) = added; added \<noteq> 0\<rbrakk>
    \<Longrightarrow> tb_step w (w\<lparr>w_pcs := (w_pcs w)[i := Publish n now (w_last w) added]\<rparr>)"
| publish_ok: "\<lbrakk>i < length (w_pcs w); w_pcs w ! i = Publish n now seen added; w_last w = seen\<rbrakk>
    \<Longrightarrow> tb_step w (w\<lparr>w_last := now, w_pcs := (w_pcs w)[i := Mint n added (w_tokens w)]\<rparr>)"
| publish_lost: "\<lbrakk>i < length (w_pcs w); w_pcs w ! i = Publish n now seen added; w_last w \<noteq> seen\<rbrakk>
    \<Longrightarrow> tb_step w (w\<lparr>w_pcs := (w_pcs w)[i := Debit n]\<rparr>)"
| mint_full: "\<lbrakk>i < length (w_pcs w); w_pcs w ! i = Mint n added current;
      min (sat_add64 current added) (w_burst w) = current\<rbrakk>
    \<Longrightarrow> tb_step w (w\<lparr>w_pcs := (w_pcs w)[i := Debit n]\<rparr>)"
| mint_cas: "\<lbrakk>i < length (w_pcs w); w_pcs w ! i = Mint n added current;
      min (sat_add64 current added) (w_burst w) \<noteq> current; w_tokens w = current\<rbrakk>
    \<Longrightarrow> tb_step w (w\<lparr>w_tokens := min (sat_add64 current added) (w_burst w),
                      w_pcs := (w_pcs w)[i := Debit n]\<rparr>)"
| mint_retry: "\<lbrakk>i < length (w_pcs w); w_pcs w ! i = Mint n added current;
      min (sat_add64 current added) (w_burst w) \<noteq> current\<rbrakk>
    \<Longrightarrow> tb_step w (w\<lparr>w_pcs := (w_pcs w)[i := Mint n added (w_tokens w)]\<rparr>)"
| debit_load: "\<lbrakk>i < length (w_pcs w); w_pcs w ! i = Debit n; n \<le> w_tokens w\<rbrakk>
    \<Longrightarrow> tb_step w (w\<lparr>w_pcs := (w_pcs w)[i := DebitCas n (w_tokens w)]\<rparr>)"
| debit_starved: "\<lbrakk>i < length (w_pcs w); w_pcs w ! i = Debit n; w_tokens w < n\<rbrakk>
    \<Longrightarrow> tb_step w (w\<lparr>w_pcs := (w_pcs w)[i := Idle]\<rparr>)"
| debit_cas: "\<lbrakk>i < length (w_pcs w); w_pcs w ! i = DebitCas n current; w_tokens w = current\<rbrakk>
    \<Longrightarrow> tb_step w (w\<lparr>w_tokens := current - n, w_granted := w_granted w + n,
                      w_pcs := (w_pcs w)[i := Idle]\<rparr>)"
| debit_retry: "\<lbrakk>i < length (w_pcs w); w_pcs w ! i = DebitCas n current\<rbrakk>
    \<Longrightarrow> tb_step w (w\<lparr>w_pcs := (w_pcs w)[i := Debit n]\<rparr>)"

definition tb_world_init :: "nat \<Rightarrow> nat \<Rightarrow> nat \<Rightarrow> tb_world" where
  "tb_world_init rate b callers =
     \<lparr>w_rate = rate, w_burst = b, w_tokens = b, w_last = 0, w_clock = 0, w_granted = 0,
      w_pcs = replicate callers Idle\<rparr>"

section \<open>Invariants of one caller\<close>

definition tb_inv :: "TokenBucket \<Rightarrow> bool" where
  "tb_inv tb \<longleftrightarrow> tokens tb \<le> burst tb"

lemma tb_inv_new [simp]: "tb_inv (tb_new r b now)"
  by (simp add: tb_inv_def tb_new_def)

lemma tb_inv_carryover [simp]: "tb_inv (tb_with_carryover r b prior now)"
  by (simp add: tb_inv_def tb_with_carryover_def)

lemma tb_inv_refill: "tb_inv tb \<Longrightarrow> tb_inv (tb_refill tb t)"
  by (simp add: tb_inv_def tb_refill_def Let_def)

lemma tb_refill_frame [simp]:
  "rate_per_sec (tb_refill tb t) = rate_per_sec tb"
  "burst (tb_refill tb t) = burst tb"
  "epoch (tb_refill tb t) = epoch tb"
  by (simp_all add: tb_refill_def Let_def)

lemma tb_debit_frame [simp]:
  "rate_per_sec (fst (tb_debit tb n)) = rate_per_sec tb"
  "burst (fst (tb_debit tb n)) = burst tb"
  "epoch (fst (tb_debit tb n)) = epoch tb"
  "last_refill_micros (fst (tb_debit tb n)) = last_refill_micros tb"
  by (simp_all add: tb_debit_def Let_def)

lemma tb_inv_debit: "tb_inv tb \<Longrightarrow> tb_inv (fst (tb_debit tb n))"
  by (auto simp: tb_inv_def tb_debit_def Let_def)

lemma acquire_frame [simp]:
  "rate_per_sec (fst (acquire tb n now)) = rate_per_sec tb"
  "burst (fst (acquire tb n now)) = burst tb"
  "epoch (fst (acquire tb n now)) = epoch tb"
  by (simp_all add: acquire_def)

lemma tb_inv_acquire: "tb_inv tb \<Longrightarrow> tb_inv (fst (acquire tb n now))"
  by (simp add: acquire_def tb_inv_debit tb_inv_refill)

lemma tb_refill_tokens:
  assumes "tb_inv tb" and "burst tb \<le> u64_max"
  shows "tokens (tb_refill tb t) =
    (if last_refill_micros tb < t
     then min (tokens tb + refill_amount (rate_per_sec tb) (t - last_refill_micros tb)) (burst tb)
     else tokens tb)"
  using assms by (auto simp: tb_refill_def Let_def tb_inv_def sat_add64_def)

lemma tb_refill_last:
  "last_refill_micros (tb_refill tb t) =
    (if last_refill_micros tb < t \<and> refill_amount (rate_per_sec tb) (t - last_refill_micros tb) \<noteq> 0
     then t else last_refill_micros tb)"
  by (auto simp: tb_refill_def Let_def)

lemma acquire_granted:
  "snd (acquire tb n now) = Granted \<longleftrightarrow> n \<le> tokens (tb_refill tb (now_micros tb now))"
  by (auto simp: acquire_def tb_debit_def Let_def)

lemma refill_covers_deficit:
  assumes "deficit_micros rate needed \<le> elapsed" and "0 < rate" and "needed * 1000000 \<le> u64_max"
  shows "needed \<le> refill_amount rate elapsed"
proof -
  have "needed * 1000000 \<le> div_ceil (needed * 1000000) rate * rate"
    using assms(2) by (rule div_ceil_mult_ge)
  also have "\<dots> \<le> elapsed * rate"
    using assms by (simp add: deficit_micros_def sat_mul64_def)
  finally have "needed \<le> elapsed * rate div 1000000"
    by (simp add: less_eq_div_iff_mult_less_eq)
  moreover have "needed \<le> u64_max" using assms(3) by simp
  ultimately show ?thesis by (simp add: refill_amount_def try_u64_def)
qed

section \<open>The interleaving keeps the budget\<close>

fun pending :: "tb_pc \<Rightarrow> nat" where
  "pending (Mint n added current) = added"
| "pending _ = 0"

fun pc_ok :: "tb_world \<Rightarrow> tb_pc \<Rightarrow> bool" where
  "pc_ok w (Entered n now) \<longleftrightarrow> now \<le> w_clock w"
| "pc_ok w (Publish n now seen added) \<longleftrightarrow> now \<le> w_clock w \<and> seen < now \<and>
     added \<le> w_rate w * (now - seen) div 1000000"
| "pc_ok w (DebitCas n current) \<longleftrightarrow> n \<le> current"
| "pc_ok w _ \<longleftrightarrow> True"

definition minted :: "tb_world \<Rightarrow> nat" where
  "minted w = w_granted w + w_tokens w + sum_list (map pending (w_pcs w))"

definition budget_inv :: "tb_world \<Rightarrow> bool" where
  "budget_inv w \<longleftrightarrow> w_last w \<le> w_clock w \<and> w_tokens w \<le> w_burst w \<and>
     minted w \<le> w_burst w + w_rate w * w_last w div 1000000 \<and> (\<forall>pc \<in> set (w_pcs w). pc_ok w pc)"

lemma div_add_le: "(a :: nat) div d + b div d \<le> (a + b) div d"
  by (metis add_leE div_add1_eq le_add1)

lemma pcs_update_ok:
  assumes "\<forall>pc \<in> set (w_pcs w). pc_ok w' pc" and "pc_ok w' y"
  shows "\<forall>pc \<in> set ((w_pcs w)[i := y]). pc_ok w' pc"
  using assms set_update_subset_insert [of "w_pcs w" i y] by auto

text \<open>How each step moves the account: a lost or finished mint only lowers it, a published
  interval raises it by at most what the interval is worth.\<close>

lemma pc_ok_mem: "budget_inv w \<Longrightarrow> i < length (w_pcs w) \<Longrightarrow> pc_ok w (w_pcs w ! i)"
  by (simp add: budget_inv_def)

lemma pc_ok_cong:
  "w_clock w' = w_clock w \<Longrightarrow> w_rate w' = w_rate w \<Longrightarrow> pc_ok w' pc = pc_ok w pc"
  by (cases pc) simp_all

lemma pc_ok_later:
  "pc_ok w pc \<Longrightarrow> w_clock w \<le> w_clock w' \<Longrightarrow> w_rate w' = w_rate w \<Longrightarrow> pc_ok w' pc"
  by (cases pc) simp_all

lemma minted_update:
  "i < length (w_pcs w) \<Longrightarrow>
   sum_list (map pending ((w_pcs w)[i := y])) = sum_list (map pending (w_pcs w)) + pending y - pending (w_pcs w ! i)"
  using sum_list_update_nat [of i "w_pcs w" pending y] by simp

lemma pending_le: "i < length (w_pcs w) \<Longrightarrow> pending (w_pcs w ! i) \<le> sum_list (map pending (w_pcs w))"
  by (rule member_le_sum_list) simp_all

lemma published_worth:
  fixes rate :: nat
  assumes "seen < now" and "added \<le> rate * (now - seen) div 1000000"
  shows "rate * seen div 1000000 + added \<le> rate * now div 1000000"
proof -
  have "rate * seen div 1000000 + rate * (now - seen) div 1000000 \<le> (rate * seen + rate * (now - seen)) div 1000000"
    by (rule div_add_le)
  moreover have "rate * seen + rate * (now - seen) = rate * now"
    using assms(1) by (simp add: diff_mult_distrib2)
  ultimately show ?thesis using assms(2) by linarith
qed

lemma budget_inv_pc_move:
  assumes inv: "budget_inv w" and i: "i < length (w_pcs w)"
    and y: "pc_ok w y" "pending y \<le> pending (w_pcs w ! i)"
  shows "budget_inv (w\<lparr>w_pcs := (w_pcs w)[i := y]\<rparr>)"
proof -
  let ?w = "w\<lparr>w_pcs := (w_pcs w)[i := y]\<rparr>"
  have "minted ?w \<le> minted w"
    using i y(2) pending_le [of i w] by (simp add: minted_def minted_update)
  moreover have "\<forall>pc \<in> set ((w_pcs w)[i := y]). pc_ok ?w pc"
    using inv y(1) by (intro pcs_update_ok) (auto simp: budget_inv_def pc_ok_cong [of ?w w])
  ultimately show ?thesis
    using inv by (simp add: budget_inv_def)
qed

lemma budget_inv_publish:
  assumes inv: "budget_inv w" and i: "i < length (w_pcs w)"
    and pc: "w_pcs w ! i = Publish n now (w_last w) added"
  shows "budget_inv (w\<lparr>w_last := now, w_pcs := (w_pcs w)[i := Mint n added c]\<rparr>)"
proof -
  let ?w = "w\<lparr>w_last := now, w_pcs := (w_pcs w)[i := Mint n added c]\<rparr>"
  have ok: "now \<le> w_clock w" "w_last w < now" "added \<le> w_rate w * (now - w_last w) div 1000000"
    using pc_ok_mem [OF inv i] pc by simp_all
  have "minted ?w = minted w + added"
    using i pc by (simp add: minted_def minted_update)
  moreover have "w_rate w * w_last w div 1000000 + added \<le> w_rate w * now div 1000000"
    using ok by (intro published_worth)
  ultimately have "minted ?w \<le> w_burst w + w_rate w * now div 1000000"
    using inv by (simp add: budget_inv_def)
  moreover have "\<forall>pc \<in> set ((w_pcs w)[i := Mint n added c]). pc_ok ?w pc"
    using inv by (intro pcs_update_ok) (auto simp: budget_inv_def pc_ok_cong [of ?w w])
  ultimately show ?thesis
    using inv ok by (simp add: budget_inv_def)
qed

lemma budget_inv_mint:
  assumes inv: "budget_inv w" and i: "i < length (w_pcs w)"
    and pc: "w_pcs w ! i = Mint n added (w_tokens w)"
  shows "budget_inv (w\<lparr>w_tokens := min (sat_add64 (w_tokens w) added) (w_burst w),
    w_pcs := (w_pcs w)[i := Debit n]\<rparr>)" (is "budget_inv ?w")
proof -
  have "minted ?w \<le> minted w"
    using i pc pending_le [OF i] by (simp add: minted_def minted_update sat_add64_def)
  moreover have "\<forall>pc \<in> set ((w_pcs w)[i := Debit n]). pc_ok ?w pc"
    using inv by (intro pcs_update_ok) (auto simp: budget_inv_def pc_ok_cong [of ?w w])
  ultimately show ?thesis
    using inv by (simp add: budget_inv_def)
qed

lemma budget_inv_debit:
  assumes inv: "budget_inv w" and i: "i < length (w_pcs w)"
    and pc: "w_pcs w ! i = DebitCas n (w_tokens w)"
  shows "budget_inv (w\<lparr>w_tokens := w_tokens w - n, w_granted := w_granted w + n,
    w_pcs := (w_pcs w)[i := Idle]\<rparr>)" (is "budget_inv ?w")
proof -
  have "n \<le> w_tokens w" using pc_ok_mem [OF inv i] pc by simp
  then have "minted ?w = minted w"
    using i pc by (simp add: minted_def minted_update)
  moreover have "\<forall>pc \<in> set ((w_pcs w)[i := Idle]). pc_ok ?w pc"
    using inv by (intro pcs_update_ok) (auto simp: budget_inv_def pc_ok_cong [of ?w w])
  ultimately show ?thesis
    using inv by (auto simp: budget_inv_def)
qed

lemma refill_amount_le: "refill_amount rate e \<le> rate * e div 1000000"
  by (simp add: refill_amount_def try_u64_def mult.commute)

lemma tb_step_frame: "tb_step w w' \<Longrightarrow> w_rate w' = w_rate w \<and> w_burst w' = w_burst w"
  by (induction rule: tb_step.induct) simp_all

lemma budget_inv_step:
  assumes "tb_step w w'" and "budget_inv w"
  shows "budget_inv w'"
  using assms
proof (induction rule: tb_step.induct)
  case (tick w d)
  then show ?case
    using pc_ok_later [of w _ "w\<lparr>w_clock := w_clock w + d\<rparr>"]
    by (auto simp: budget_inv_def minted_def)
next
  case (refill_loaded i w n now added)
  moreover have "now \<le> w_clock w"
    using pc_ok_mem [OF refill_loaded.prems refill_loaded.hyps(1)] refill_loaded.hyps(2) by simp
  ultimately show ?case
    using refill_amount_le by (intro budget_inv_pc_move) auto
next
  case (publish_ok i w n now seen added)
  then show ?case by (intro budget_inv_publish) simp_all
next
  case (mint_cas i w n added current)
  then show ?case using budget_inv_mint [of w i n added] by simp
next
  case (debit_cas i w n current)
  then show ?case using budget_inv_debit [of w i n] by simp
qed (simp_all add: budget_inv_pc_move)

lemma budget_inv_init: "budget_inv (tb_world_init r b k)"
  by (simp add: budget_inv_def tb_world_init_def minted_def)

lemma budget_inv_reach:
  assumes "tb_step\<^sup>*\<^sup>* (tb_world_init r b k) w"
  shows "budget_inv w \<and> w_rate w = r \<and> w_burst w = b"
  using assms
proof (induction rule: rtranclp_induct)
  case base
  show ?case using budget_inv_init by (simp add: tb_world_init_def)
next
  case (step y z)
  then show ?case using budget_inv_step [OF step.hyps(2)] tb_step_frame [OF step.hyps(2)] by simp
qed

section \<open>An uncontended call is a run of the interleaving\<close>

definition world_of :: "TokenBucket \<Rightarrow> nat \<Rightarrow> nat \<Rightarrow> tb_pc \<Rightarrow> tb_world" where
  "world_of tb clk g pc =
     \<lparr>w_rate = rate_per_sec tb, w_burst = burst tb, w_tokens = tokens tb,
      w_last = last_refill_micros tb, w_clock = clk, w_granted = g, w_pcs = [pc]\<rparr>"

lemma world_of_sel [simp]:
  "w_rate (world_of tb clk g pc) = rate_per_sec tb" "w_burst (world_of tb clk g pc) = burst tb"
  "w_tokens (world_of tb clk g pc) = tokens tb" "w_last (world_of tb clk g pc) = last_refill_micros tb"
  "w_clock (world_of tb clk g pc) = clk" "w_granted (world_of tb clk g pc) = g"
  "w_pcs (world_of tb clk g pc) = [pc]"
  by (simp_all add: world_of_def)

lemma world_of_upd [simp]:
  "(world_of tb clk g pc)\<lparr>w_pcs := [pc']\<rparr> = world_of tb clk g pc'"
  "(world_of tb clk g pc)\<lparr>w_last := l, w_pcs := [pc']\<rparr> = world_of (tb\<lparr>last_refill_micros := l\<rparr>) clk g pc'"
  "(world_of tb clk g pc)\<lparr>w_tokens := t, w_pcs := [pc']\<rparr> = world_of (tb\<lparr>tokens := t\<rparr>) clk g pc'"
  "(world_of tb clk g pc)\<lparr>w_tokens := t, w_granted := g', w_pcs := [pc']\<rparr> =
     world_of (tb\<lparr>tokens := t\<rparr>) clk g' pc'"
  by (simp_all add: world_of_def)

lemma run_mint:
  "tb_step\<^sup>*\<^sup>* (world_of tb clk g (Mint n added (tokens tb)))
     (world_of (tb\<lparr>tokens := min (sat_add64 (tokens tb) added) (burst tb)\<rparr>) clk g (Debit n))"
proof (cases "min (sat_add64 (tokens tb) added) (burst tb) = tokens tb")
  case True
  have "tb_step (world_of tb clk g (Mint n added (tokens tb))) (world_of tb clk g (Debit n))"
    using tb_step.mint_full [of 0 "world_of tb clk g (Mint n added (tokens tb))"] True by simp
  then show ?thesis using True by simp
next
  case False
  then have "tb_step (world_of tb clk g (Mint n added (tokens tb)))
     (world_of (tb\<lparr>tokens := min (sat_add64 (tokens tb) added) (burst tb)\<rparr>) clk g (Debit n))"
    using tb_step.mint_cas [of 0 "world_of tb clk g (Mint n added (tokens tb))"] by simp
  then show ?thesis by simp
qed

lemma run_refill:
  "tb_step\<^sup>*\<^sup>* (world_of tb clk g (Entered n now)) (world_of (tb_refill tb now) clk g (Debit n))"
proof -
  let ?w = "world_of tb clk g (Entered n now)"
  let ?l = "last_refill_micros tb"
  let ?a = "refill_amount (rate_per_sec tb) (now - ?l)"
  consider "now \<le> ?l" | "?l < now" "?a = 0" | "?l < now" "?a \<noteq> 0" by linarith
  then show ?thesis
  proof cases
    case 1
    then have "tb_step ?w (world_of tb clk g (Debit n))"
      using tb_step.refill_early [of 0 ?w] by simp
    then show ?thesis using 1 by (simp add: tb_refill_def)
  next
    case 2
    then have "tb_step ?w (world_of tb clk g (Debit n))"
      using tb_step.refill_fraction [of 0 ?w] by simp
    then show ?thesis using 2 by (simp add: tb_refill_def)
  next
    case 3
    let ?tb = "tb\<lparr>last_refill_micros := now\<rparr>"
    have "tb_step ?w (world_of tb clk g (Publish n now ?l ?a))"
      using tb_step.refill_loaded [of 0 ?w n now ?a] 3 by simp
    moreover have "tb_step (world_of tb clk g (Publish n now ?l ?a)) (world_of ?tb clk g (Mint n ?a (tokens ?tb)))"
      using tb_step.publish_ok [of 0 "world_of tb clk g (Publish n now ?l ?a)"] by simp
    moreover have "tb_refill tb now = ?tb\<lparr>tokens := min (sat_add64 (tokens ?tb) ?a) (burst ?tb)\<rparr>"
      using 3 by (simp add: tb_refill_def Let_def)
    ultimately show ?thesis
      using run_mint [of ?tb clk g n ?a] by (simp add: converse_rtranclp_into_rtranclp)
  qed
qed

lemma run_debit:
  "tb_step\<^sup>*\<^sup>* (world_of tb clk g (Debit n))
     (world_of (fst (tb_debit tb n)) clk (g + (if snd (tb_debit tb n) = Granted then n else 0)) Idle)"
proof (cases "n \<le> tokens tb")
  case True
  then have "tb_step (world_of tb clk g (Debit n)) (world_of tb clk g (DebitCas n (tokens tb)))"
    using tb_step.debit_load [of 0 "world_of tb clk g (Debit n)"] by simp
  moreover have "tb_step (world_of tb clk g (DebitCas n (tokens tb)))
      (world_of (tb\<lparr>tokens := tokens tb - n\<rparr>) clk (g + n) Idle)"
    using tb_step.debit_cas [of 0 "world_of tb clk g (DebitCas n (tokens tb))"] by simp
  ultimately show ?thesis
    using True by (simp add: tb_debit_def converse_rtranclp_into_rtranclp)
next
  case False
  then have "tb_step (world_of tb clk g (Debit n)) (world_of tb clk g Idle)"
    using tb_step.debit_starved [of 0 "world_of tb clk g (Debit n)"] by simp
  then show ?thesis
    using False by (simp add: tb_debit_def Let_def)
qed

section \<open>Retrying after the deficit\<close>

lemma acquire_retry:
  assumes inv: "tb_inv tb" "0 < rate_per_sec tb" "burst tb \<le> u64_max" "n * 1000000 \<le> u64_max"
    and thr: "acquire tb n now = (tb', Throttled d)"
    and mono: "last_refill_micros tb \<le> now_micros tb now"
    and fits: "n \<le> burst tb"
    and later: "now_micros tb now + d \<le> now_micros tb now'"
  shows "snd (acquire tb' n now') = Granted"
proof -
  let ?r = "tb_refill tb (now_micros tb now)"
  have r: "tb_inv ?r" using inv(1) by (rule tb_inv_refill)
  have tb': "tb' = ?r" and lt: "tokens ?r < n"
    and d: "d = deficit_micros (rate_per_sec tb) (n - tokens ?r)"
    using thr by (auto simp: acquire_def tb_debit_def Let_def split: if_splits)
  have m: "now_micros tb' now' = now_micros tb now'"
    by (simp add: tb' now_micros_def)
  have "last_refill_micros ?r \<le> now_micros tb now"
    using mono by (simp add: tb_refill_last)
  then have cover: "n - tokens ?r \<le>
      refill_amount (rate_per_sec tb) (now_micros tb now' - last_refill_micros ?r)"
    using later d inv by (intro refill_covers_deficit) auto
  with lt have "last_refill_micros ?r < now_micros tb now'"
    by (cases "last_refill_micros ?r < now_micros tb now'") (simp_all add: refill_amount_def try_u64_def)
  then have "n \<le> tokens (tb_refill ?r (now_micros tb now'))"
    using cover lt fits r inv(3) by (simp add: tb_refill_tokens)
  then show ?thesis
    using m by (simp add: acquire_granted tb')
qed

section \<open>Sequences of calls\<close>

fun acquire_all :: "TokenBucket \<Rightarrow> (nat \<times> nat) list \<Rightarrow> TokenBucket" where
  "acquire_all tb [] = tb"
| "acquire_all tb ((n, now) # rest) = acquire_all (fst (acquire tb n now)) rest"

lemma acquire_all_inv:
  "tb_inv tb \<Longrightarrow> tb_inv (acquire_all tb cs) \<and> burst (acquire_all tb cs) = burst tb"
proof (induction tb cs rule: acquire_all.induct)
  case (1 tb)
  then show ?case by simp
next
  case (2 tb n now rest)
  then show ?case using tb_inv_acquire [of tb n now] by simp
qed

section \<open>Properties\<close>

text \<open>C1 (bucket_budget_concurrent): however any number of callers interleave their atomic
  steps, and however often a compare-exchange fails spuriously, the tokens a bucket has
  handed out by time \<open>w_clock\<close> (in microseconds) never exceed one burst plus the rate times
  the elapsed time, and the pool never exceeds the burst.\<close>

theorem bucket_budget_concurrent:
  assumes "tb_step\<^sup>*\<^sup>* (tb_world_init rate b callers) w"
  shows "w_granted w \<le> b + rate * w_clock w div 1000000 \<and> w_tokens w \<le> b"
proof -
  have inv: "budget_inv w" and r: "w_rate w = rate" and b: "w_burst w = b"
    using budget_inv_reach [OF assms] by simp_all
  have "rate * w_last w div 1000000 \<le> rate * w_clock w div 1000000"
    using inv by (intro div_le_mono mult_le_mono2) (simp add: budget_inv_def)
  then show ?thesis
    using inv r b by (auto simp: budget_inv_def minted_def)
qed

lemma sample_run:
  "tb_step\<^sup>*\<^sup>* (tb_world_init 10 5 1) (world_of ((tb_new 10 5 0)\<lparr>tokens := 2\<rparr>) 0 3 Idle)"
proof -
  let ?tb = "tb_new 10 5 0"
  have i: "tb_world_init 10 5 1 = world_of ?tb 0 0 Idle"
    by (simp add: tb_world_init_def world_of_def tb_new_def)
  have "tb_step (world_of ?tb 0 0 Idle) (world_of ?tb 0 0 (Entered 3 0))"
    using tb_step.enter [of 0 "world_of ?tb 0 0 Idle" 3 0] by simp
  then have "tb_step\<^sup>*\<^sup>* (world_of ?tb 0 0 Idle) (world_of (tb_refill ?tb 0) 0 0 (Debit 3))"
    using run_refill [of ?tb 0 0 3 0] by (simp add: converse_rtranclp_into_rtranclp)
  from rtranclp_trans [OF this run_debit] show ?thesis
    unfolding i by (simp add: tb_refill_def tb_debit_def tb_new_def)
qed

theorem bucket_budget_concurrent_witness:
  "(3 :: nat) \<le> 5 + 10 * 0 div 1000000 \<and> (2 :: nat) \<le> 5"
  using bucket_budget_concurrent [OF sample_run] by simp

text \<open>One uncontended call of \<open>acquire\<close> is a run of the
  interleaving semantics that ends in exactly the bucket the call returns and has handed out
  exactly the tokens it reports.\<close>

lemma acquire_refines_steps:
  assumes "0 < n" and "now_micros tb now \<le> clk"
  shows "tb_step\<^sup>*\<^sup>* (world_of tb clk g Idle)
    (world_of (fst (acquire tb n now)) clk
       (g + (if snd (acquire tb n now) = Granted then n else 0)) Idle)"
proof -
  let ?t = "now_micros tb now"
  have "tb_step (world_of tb clk g Idle) (world_of tb clk g (Entered n ?t))"
    using tb_step.enter [of 0 "world_of tb clk g Idle" n ?t] assms by simp
  then have "tb_step\<^sup>*\<^sup>* (world_of tb clk g Idle) (world_of (tb_refill tb ?t) clk g (Debit n))"
    using run_refill by (rule converse_rtranclp_into_rtranclp)
  from rtranclp_trans [OF this run_debit] show ?thesis
    using assms(1) by (simp add: acquire_def)
qed

text \<open>C27 (acquire_after_deficit): a throttled request of at most one burst succeeds on a
  retry made once the reported deficit has elapsed, so a single sleep is enough (the clock does not run
  backwards past the last refill, and the request is small enough for the deficit arithmetic
  not to saturate).\<close>

theorem acquire_after_deficit:
  assumes "tb_inv tb" "0 < rate_per_sec tb" "burst tb \<le> u64_max" "n * 1000000 \<le> u64_max"
    and "acquire tb n now = (tb', Throttled d)"
    and "last_refill_micros tb \<le> now_micros tb now"
    and "n \<le> burst tb"
    and "now_micros tb now + d \<le> now_micros tb now'"
  shows "snd (acquire tb' n now') = Granted"
  using assms by (rule acquire_retry)

theorem acquire_after_deficit_witness:
  "snd (acquire (fst (acquire ((tb_new 10 5 0)\<lparr>tokens := 2\<rparr>) 4 0)) 4 200000000) = Granted"
  by (rule acquire_after_deficit [of "(tb_new 10 5 0)\<lparr>tokens := 2\<rparr>" 4 0 _ 200000])
    (simp_all add: tb_inv_def tb_new_def u64_max_def acquire_def tb_refill_def tb_debit_def
      now_micros_def try_u64_def deficit_micros_def div_ceil_def sat_mul64_def)

text \<open>A request larger than the burst is never granted, no
  matter which calls came before it and how long the caller waits.\<close>

lemma acquire_over_burst_starves:
  assumes "tb_inv tb" and "burst tb < n"
  shows "\<exists>d. snd (acquire (acquire_all tb calls) n now) = Throttled d"
proof -
  let ?tb = "acquire_all tb calls"
  have "tb_inv (tb_refill ?tb (now_micros ?tb now))" "burst ?tb = burst tb"
    using acquire_all_inv [OF assms(1), of calls] by (simp_all add: tb_inv_refill)
  then have "\<not> n \<le> tokens (tb_refill ?tb (now_micros ?tb now))"
    using assms(2) by (simp add: tb_inv_def)
  then show ?thesis
    using acquire_granted [of ?tb n now] by (cases "snd (acquire ?tb n now)") auto
qed

end
