(* ===== verification/Rate_Scope.thy ===== *)
theory Rate_Scope
  imports Rate_Limit Token_Bucket "HOL-Library.Multiset"
begin

text \<open>
  The data-plane limiters of rate_limit/scope.rs. A limiter lives behind an \<open>Arc\<close> and its
  live-connection gauge behind another one that hot reloads share, so both are kept in an
  explicit store: \<open>sl_limiters\<close> and \<open>sl_gauges\<close> are arenas indexed by reference, and the two
  registries map rule ids and owner ids to limiter references. An admission guard is the
  reference of the limiter it was admitted by. Every operation that reads the clock takes
  \<open>now\<close> (nanoseconds).
\<close>

section \<open>Limiters\<close>

datatype BandwidthDirection = DirIn | DirOut

datatype CapScope = ScopeRule | ScopeOwner

record RuleRateLimiter =
  lim_bandwidth_in :: "TokenBucket option"
  lim_bandwidth_out :: "TokenBucket option"
  lim_new_connections :: "TokenBucket option"
  lim_concurrent_max :: "nat option"
  lim_active_connections :: nat

record rl_store =
  sl_limiters :: "RuleRateLimiter list"
  sl_gauges :: "nat list"
  sl_rules :: "nat \<rightharpoonup> nat"
  sl_owners :: "string \<rightharpoonup> nat"

datatype ConnectionAcquire = ConnGranted nat | ConnRejected RejectReason

datatype BandwidthAcquire = BwGranted | BwThrottled nat

definition fresh_bucket_u64 :: "nat option \<Rightarrow> nat option \<Rightarrow> nat \<Rightarrow> TokenBucket option" where
  "fresh_bucket_u64 rate_opt burst_opt now =
     map_option (\<lambda>rate.
       let b = (case effective_burst_u64 (Some rate) burst_opt of None \<Rightarrow> rate | Some b \<Rightarrow> b)
       in tb_new rate b now) rate_opt"

definition fresh_bucket_u32 :: "nat option \<Rightarrow> nat option \<Rightarrow> nat \<Rightarrow> TokenBucket option" where
  "fresh_bucket_u32 rate_opt burst_opt now =
     map_option (\<lambda>rate.
       let b = (case effective_burst_u32 (Some rate) burst_opt of None \<Rightarrow> rate | Some b \<Rightarrow> b)
       in tb_new rate b now) rate_opt"

definition from_envelope :: "RateLimit \<Rightarrow> nat \<Rightarrow> nat \<Rightarrow> RuleRateLimiter" where
  "from_envelope rl gauge now =
     \<lparr>lim_bandwidth_in = fresh_bucket_u64 (bandwidth_in_bps rl) (bandwidth_in_burst rl) now,
      lim_bandwidth_out = fresh_bucket_u64 (bandwidth_out_bps rl) (bandwidth_out_burst rl) now,
      lim_new_connections = fresh_bucket_u32 (new_connections_per_sec rl) (new_connections_burst rl) now,
      lim_concurrent_max = concurrent_connections rl,
      lim_active_connections = gauge\<rparr>"

definition carry_bucket_u64 ::
  "nat option \<Rightarrow> nat option \<Rightarrow> TokenBucket option \<Rightarrow> nat \<Rightarrow> TokenBucket option" where
  "carry_bucket_u64 rate_opt burst_opt prior now =
     map_option (\<lambda>rate.
       let b = (case effective_burst_u64 (Some rate) burst_opt of None \<Rightarrow> rate | Some b \<Rightarrow> b)
       in case prior of
            Some p \<Rightarrow> tb_with_carryover rate b p now
          | None \<Rightarrow> tb_new rate b now) rate_opt"

definition carry_bucket_u32 ::
  "nat option \<Rightarrow> nat option \<Rightarrow> TokenBucket option \<Rightarrow> nat \<Rightarrow> TokenBucket option" where
  "carry_bucket_u32 rate_opt burst_opt prior now =
     map_option (\<lambda>rate.
       let b = (case effective_burst_u32 (Some rate) burst_opt of None \<Rightarrow> rate | Some b \<Rightarrow> b)
       in case prior of
            Some p \<Rightarrow> tb_with_carryover rate b p now
          | None \<Rightarrow> tb_new rate b now) rate_opt"

definition lim_with_carryover :: "RuleRateLimiter \<Rightarrow> RateLimit \<Rightarrow> nat \<Rightarrow> RuleRateLimiter" where
  "lim_with_carryover prior rl now =
     \<lparr>lim_bandwidth_in =
        carry_bucket_u64 (bandwidth_in_bps rl) (bandwidth_in_burst rl) (lim_bandwidth_in prior) now,
      lim_bandwidth_out =
        carry_bucket_u64 (bandwidth_out_bps rl) (bandwidth_out_burst rl) (lim_bandwidth_out prior) now,
      lim_new_connections =
        carry_bucket_u32 (new_connections_per_sec rl) (new_connections_burst rl)
          (lim_new_connections prior) now,
      lim_concurrent_max = concurrent_connections rl,
      lim_active_connections = lim_active_connections prior\<rparr>"

definition limiter_at :: "rl_store \<Rightarrow> nat \<Rightarrow> RuleRateLimiter" where
  "limiter_at st l = sl_limiters st ! l"

definition gauge_of :: "rl_store \<Rightarrow> nat \<Rightarrow> nat" where
  "gauge_of st l = lim_active_connections (limiter_at st l)"

definition active_connections :: "rl_store \<Rightarrow> nat \<Rightarrow> nat" where
  "active_connections st l = sl_gauges st ! gauge_of st l"

definition gauge_add :: "rl_store \<Rightarrow> nat \<Rightarrow> rl_store" where
  "gauge_add st g = st\<lparr>sl_gauges := (sl_gauges st)[g := wrap64 (sl_gauges st ! g + 1)]\<rparr>"

definition gauge_sub :: "rl_store \<Rightarrow> nat \<Rightarrow> rl_store" where
  "gauge_sub st g = st\<lparr>sl_gauges := (sl_gauges st)[g := wrap_sub64 (sl_gauges st ! g) 1]\<rparr>"

definition guard_drop :: "rl_store \<Rightarrow> nat \<Rightarrow> rl_store" where
  "guard_drop st l = gauge_sub st (gauge_of st l)"

fun rate_reject_reason :: "CapScope \<Rightarrow> bool \<Rightarrow> RejectReason" where
  "rate_reject_reason ScopeRule False = ConnRate"
| "rate_reject_reason ScopeRule True = UdpFlowRate"
| "rate_reject_reason ScopeOwner False = OwnerConnRate"
| "rate_reject_reason ScopeOwner True = OwnerUdpFlowRate"

fun concurrent_reject_reason :: "CapScope \<Rightarrow> RejectReason" where
  "concurrent_reject_reason ScopeRule = ConnConcurrent"
| "concurrent_reject_reason ScopeOwner = OwnerConcurrent"

text \<open>The connection-rate gate: debit one token if there is a bucket.\<close>

definition rate_gate :: "rl_store \<Rightarrow> nat \<Rightarrow> nat \<Rightarrow> rl_store \<times> bool" where
  "rate_gate st l now =
     (let lim = limiter_at st l in
      case lim_new_connections lim of
        None \<Rightarrow> (st, True)
      | Some bucket \<Rightarrow>
          (let (b, r) = acquire bucket 1 now in
           (st\<lparr>sl_limiters := (sl_limiters st)[l := lim\<lparr>lim_new_connections := Some b\<rparr>]\<rparr>,
            r = Granted)))"

text \<open>The concurrent ceiling: \<open>fetch_add\<close>, then compare.\<close>

definition concurrent_gate :: "rl_store \<Rightarrow> nat \<Rightarrow> CapScope \<Rightarrow> rl_store \<times> ConnectionAcquire" where
  "concurrent_gate st l scope =
     (case lim_concurrent_max (limiter_at st l) of
        Some cap \<Rightarrow>
          (let prev = active_connections st l;
               st' = gauge_add st (gauge_of st l)
           in if prev \<ge> cap
              then (gauge_sub st' (gauge_of st l), ConnRejected (concurrent_reject_reason scope))
              else (st', ConnGranted l))
      | None \<Rightarrow> (gauge_add st (gauge_of st l), ConnGranted l))"

definition try_acquire ::
  "rl_store \<Rightarrow> nat \<Rightarrow> CapScope \<Rightarrow> bool \<Rightarrow> nat \<Rightarrow> rl_store \<times> ConnectionAcquire" where
  "try_acquire st l scope is_udp_first_packet now =
     (let (st', pass) = rate_gate st l now in
      if \<not> pass then (st', ConnRejected (rate_reject_reason scope is_udp_first_packet))
      else concurrent_gate st' l scope)"

definition try_acquire_connection ::
  "rl_store \<Rightarrow> nat \<Rightarrow> bool \<Rightarrow> nat \<Rightarrow> rl_store \<times> ConnectionAcquire" where
  "try_acquire_connection st l is_udp_first_packet now =
     try_acquire st l ScopeRule is_udp_first_packet now"

definition is_no_op :: "RuleRateLimiter \<Rightarrow> bool" where
  "is_no_op lim \<longleftrightarrow> lim_bandwidth_in lim = None \<and> lim_bandwidth_out lim = None \<and>
     lim_new_connections lim = None \<and> lim_concurrent_max lim = None"

definition has_bandwidth_cap :: "RuleRateLimiter \<Rightarrow> bool" where
  "has_bandwidth_cap lim \<longleftrightarrow> lim_bandwidth_in lim \<noteq> None \<or> lim_bandwidth_out lim \<noteq> None"

fun bandwidth_bucket :: "RuleRateLimiter \<Rightarrow> BandwidthDirection \<Rightarrow> TokenBucket option" where
  "bandwidth_bucket lim DirIn = lim_bandwidth_in lim"
| "bandwidth_bucket lim DirOut = lim_bandwidth_out lim"

fun set_bandwidth_bucket :: "RuleRateLimiter \<Rightarrow> BandwidthDirection \<Rightarrow> TokenBucket \<Rightarrow> RuleRateLimiter" where
  "set_bandwidth_bucket lim DirIn b = lim\<lparr>lim_bandwidth_in := Some b\<rparr>"
| "set_bandwidth_bucket lim DirOut b = lim\<lparr>lim_bandwidth_out := Some b\<rparr>"

definition bandwidth_rate_per_sec :: "RuleRateLimiter \<Rightarrow> BandwidthDirection \<Rightarrow> nat option" where
  "bandwidth_rate_per_sec lim direction = map_option rate_per_sec (bandwidth_bucket lim direction)"

definition acquire_bandwidth ::
  "rl_store \<Rightarrow> nat \<Rightarrow> BandwidthDirection \<Rightarrow> nat \<Rightarrow> nat \<Rightarrow> rl_store \<times> BandwidthAcquire" where
  "acquire_bandwidth st l direction n now =
     (case bandwidth_bucket (limiter_at st l) direction of
        None \<Rightarrow> (st, BwGranted)
      | Some b \<Rightarrow>
          (let (b', r) = acquire b n now;
               st' = st\<lparr>sl_limiters := (sl_limiters st)[l := set_bandwidth_bucket (limiter_at st l) direction b']\<rparr>
           in case r of Granted \<Rightarrow> (st', BwGranted) | Throttled d \<Rightarrow> (st', BwThrottled d)))"

section \<open>Registries\<close>

definition store_empty :: rl_store where
  "store_empty = \<lparr>sl_limiters = [], sl_gauges = [], sl_rules = Map.empty, sl_owners = Map.empty\<rparr>"

text \<open>\<open>Arc::new(RuleRateLimiter::from_envelope(..))\<close> and
  \<open>Arc::new(RuleRateLimiter::with_carryover(..))\<close>.\<close>

definition alloc_fresh :: "rl_store \<Rightarrow> RateLimit \<Rightarrow> nat \<Rightarrow> rl_store \<times> nat" where
  "alloc_fresh st rl now =
     (st\<lparr>sl_limiters := sl_limiters st @ [from_envelope rl (length (sl_gauges st)) now],
         sl_gauges := sl_gauges st @ [0]\<rparr>, length (sl_limiters st))"

definition alloc_carry :: "rl_store \<Rightarrow> nat \<Rightarrow> RateLimit \<Rightarrow> nat \<Rightarrow> rl_store \<times> nat" where
  "alloc_carry st prior rl now =
     (st\<lparr>sl_limiters := sl_limiters st @ [lim_with_carryover (limiter_at st prior) rl now]\<rparr>,
      length (sl_limiters st))"

definition rule_install :: "rl_store \<Rightarrow> nat \<Rightarrow> RateLimit option \<Rightarrow> nat \<Rightarrow> rl_store" where
  "rule_install st rule_id rl now =
     (case rl of
        Some envelope \<Rightarrow>
          (let (st', l) = alloc_fresh st envelope now in st'\<lparr>sl_rules := (sl_rules st')(rule_id \<mapsto> l)\<rparr>)
      | None \<Rightarrow> st\<lparr>sl_rules := (sl_rules st)(rule_id := None)\<rparr>)"

definition rule_update :: "rl_store \<Rightarrow> nat \<Rightarrow> RateLimit option \<Rightarrow> nat \<Rightarrow> rl_store" where
  "rule_update st rule_id rl now =
     (case (sl_rules st rule_id, rl) of
        (Some prior, Some envelope) \<Rightarrow>
          (let (st', l) = alloc_carry st prior envelope now in st'\<lparr>sl_rules := (sl_rules st')(rule_id \<mapsto> l)\<rparr>)
      | (None, Some envelope) \<Rightarrow>
          (let (st', l) = alloc_fresh st envelope now in st'\<lparr>sl_rules := (sl_rules st')(rule_id \<mapsto> l)\<rparr>)
      | (_, None) \<Rightarrow> st\<lparr>sl_rules := (sl_rules st)(rule_id := None)\<rparr>)"

definition rule_remove :: "rl_store \<Rightarrow> nat \<Rightarrow> rl_store" where
  "rule_remove st rule_id = st\<lparr>sl_rules := (sl_rules st)(rule_id := None)\<rparr>"

definition rule_get :: "rl_store \<Rightarrow> nat \<Rightarrow> nat option" where
  "rule_get st rule_id = sl_rules st rule_id"

definition owner_install :: "rl_store \<Rightarrow> string \<Rightarrow> RateLimit option \<Rightarrow> nat \<Rightarrow> rl_store" where
  "owner_install st owner_id rl now =
     (case rl of
        Some envelope \<Rightarrow>
          (let (st', l) = alloc_fresh st envelope now in st'\<lparr>sl_owners := (sl_owners st')(owner_id \<mapsto> l)\<rparr>)
      | None \<Rightarrow> st\<lparr>sl_owners := (sl_owners st)(owner_id := None)\<rparr>)"

definition owner_update :: "rl_store \<Rightarrow> string \<Rightarrow> RateLimit option \<Rightarrow> nat \<Rightarrow> rl_store" where
  "owner_update st owner_id rl now =
     (case (sl_owners st owner_id, rl) of
        (Some prior, Some envelope) \<Rightarrow>
          (let (st', l) = alloc_carry st prior envelope now in st'\<lparr>sl_owners := (sl_owners st')(owner_id \<mapsto> l)\<rparr>)
      | (None, Some envelope) \<Rightarrow>
          (let (st', l) = alloc_fresh st envelope now in st'\<lparr>sl_owners := (sl_owners st')(owner_id \<mapsto> l)\<rparr>)
      | (_, None) \<Rightarrow> st\<lparr>sl_owners := (sl_owners st)(owner_id := None)\<rparr>)"

definition owner_remove :: "rl_store \<Rightarrow> string \<Rightarrow> rl_store" where
  "owner_remove st owner_id = st\<lparr>sl_owners := (sl_owners st)(owner_id := None)\<rparr>"

definition owner_get :: "rl_store \<Rightarrow> string \<Rightarrow> nat option" where
  "owner_get st owner_id = sl_owners st owner_id"

section \<open>Handles, layered admission and the UDP shaper\<close>

text \<open>A handle is the id it was made for; every use re-reads the registry.\<close>

definition owner_try_acquire ::
  "rl_store \<Rightarrow> string \<Rightarrow> bool \<Rightarrow> nat \<Rightarrow> rl_store \<times> ConnectionAcquire option" where
  "owner_try_acquire st owner_id udp now =
     (case owner_get st owner_id of
        None \<Rightarrow> (st, None)
      | Some l \<Rightarrow> (let (st', r) = try_acquire st l ScopeOwner udp now in (st', Some r)))"

definition rule_try_acquire ::
  "rl_store \<Rightarrow> nat \<Rightarrow> bool \<Rightarrow> nat \<Rightarrow> rl_store \<times> ConnectionAcquire option" where
  "rule_try_acquire st rule_id udp now =
     (case rule_get st rule_id of
        None \<Rightarrow> (st, None)
      | Some l \<Rightarrow> (let (st', r) = try_acquire st l ScopeRule udp now in (st', Some r)))"

definition owner_has_bandwidth_cap :: "rl_store \<Rightarrow> string \<Rightarrow> bool" where
  "owner_has_bandwidth_cap st owner_id =
     (case owner_get st owner_id of None \<Rightarrow> False | Some l \<Rightarrow> has_bandwidth_cap (limiter_at st l))"

definition rule_has_bandwidth_cap :: "rl_store \<Rightarrow> nat \<Rightarrow> bool" where
  "rule_has_bandwidth_cap st rule_id =
     (case rule_get st rule_id of None \<Rightarrow> False | Some l \<Rightarrow> has_bandwidth_cap (limiter_at st l))"

definition owner_acquire_bandwidth ::
  "rl_store \<Rightarrow> string \<Rightarrow> BandwidthDirection \<Rightarrow> nat \<Rightarrow> nat \<Rightarrow> rl_store \<times> BandwidthAcquire option" where
  "owner_acquire_bandwidth st owner_id direction bytes now =
     (case owner_get st owner_id of
        None \<Rightarrow> (st, None)
      | Some l \<Rightarrow> (let (st', r) = acquire_bandwidth st l direction bytes now in (st', Some r)))"

definition rule_acquire_bandwidth ::
  "rl_store \<Rightarrow> nat \<Rightarrow> BandwidthDirection \<Rightarrow> nat \<Rightarrow> nat \<Rightarrow> rl_store \<times> BandwidthAcquire option" where
  "rule_acquire_bandwidth st rule_id direction bytes now =
     (case rule_get st rule_id of
        None \<Rightarrow> (st, None)
      | Some l \<Rightarrow> (let (st', r) = acquire_bandwidth st l direction bytes now in (st', Some r)))"

definition owner_bandwidth_rate :: "rl_store \<Rightarrow> string \<Rightarrow> BandwidthDirection \<Rightarrow> nat option" where
  "owner_bandwidth_rate st owner_id direction =
     (case owner_get st owner_id of
        None \<Rightarrow> None | Some l \<Rightarrow> bandwidth_rate_per_sec (limiter_at st l) direction)"

definition rule_bandwidth_rate :: "rl_store \<Rightarrow> nat \<Rightarrow> BandwidthDirection \<Rightarrow> nat option" where
  "rule_bandwidth_rate st rule_id direction =
     (case rule_get st rule_id of
        None \<Rightarrow> None | Some l \<Rightarrow> bandwidth_rate_per_sec (limiter_at st l) direction)"

definition owner_active_connections :: "rl_store \<Rightarrow> string \<Rightarrow> nat" where
  "owner_active_connections st owner_id =
     (case owner_get st owner_id of None \<Rightarrow> 0 | Some l \<Rightarrow> active_connections st l)"

definition rule_active_connections :: "rl_store \<Rightarrow> nat \<Rightarrow> nat" where
  "rule_active_connections st rule_id =
     (case rule_get st rule_id of None \<Rightarrow> 0 | Some l \<Rightarrow> active_connections st l)"

datatype LayeredAcquire =
    LayerGranted "nat option" "nat option"
  | OwnerRejected RejectReason
  | RuleRejected RejectReason

definition rule_layer ::
  "rl_store \<Rightarrow> nat option \<Rightarrow> nat option \<Rightarrow> bool \<Rightarrow> nat \<Rightarrow> rl_store \<times> LayeredAcquire" where
  "rule_layer st owner_guard rule udp now =
     (case rule of
        None \<Rightarrow> (st, LayerGranted owner_guard None)
      | Some rid \<Rightarrow>
          (case rule_try_acquire st rid udp now of
             (st', None) \<Rightarrow> (st', LayerGranted owner_guard None)
           | (st', Some (ConnGranted g)) \<Rightarrow> (st', LayerGranted owner_guard (Some g))
           | (st', Some (ConnRejected reason)) \<Rightarrow>
               ((case owner_guard of None \<Rightarrow> st' | Some g \<Rightarrow> guard_drop st' g), RuleRejected reason)))"

definition try_acquire_layered ::
  "rl_store \<Rightarrow> string option \<Rightarrow> nat option \<Rightarrow> bool \<Rightarrow> nat \<Rightarrow> rl_store \<times> LayeredAcquire" where
  "try_acquire_layered st owner rule udp now =
     (case owner of
        None \<Rightarrow> rule_layer st None rule udp now
      | Some oid \<Rightarrow>
          (case owner_try_acquire st oid udp now of
             (st', None) \<Rightarrow> rule_layer st' None rule udp now
           | (st', Some (ConnGranted g)) \<Rightarrow> rule_layer st' (Some g) rule udp now
           | (st', Some (ConnRejected reason)) \<Rightarrow> (st', OwnerRejected reason)))"

record UdpBandwidthShaper =
  sh_owner :: "nat option"
  sh_rule :: "nat option"
  sh_direction :: BandwidthDirection
  sh_has_cap :: bool

definition caps_direction :: "rl_store \<Rightarrow> nat option \<Rightarrow> BandwidthDirection \<Rightarrow> bool" where
  "caps_direction st l direction =
     (case l of None \<Rightarrow> False | Some r \<Rightarrow> bandwidth_rate_per_sec (limiter_at st r) direction \<noteq> None)"

definition shaper_new ::
  "rl_store \<Rightarrow> nat option \<Rightarrow> nat option \<Rightarrow> BandwidthDirection \<Rightarrow> UdpBandwidthShaper" where
  "shaper_new st owner rule direction =
     \<lparr>sh_owner = owner, sh_rule = rule, sh_direction = direction,
      sh_has_cap = (caps_direction st owner direction \<or> caps_direction st rule direction)\<rparr>"

definition opt_acquire_bandwidth ::
  "rl_store \<Rightarrow> nat option \<Rightarrow> BandwidthDirection \<Rightarrow> nat \<Rightarrow> nat \<Rightarrow> rl_store \<times> BandwidthAcquire" where
  "opt_acquire_bandwidth st l direction n now =
     (case l of None \<Rightarrow> (st, BwGranted) | Some r \<Rightarrow> acquire_bandwidth st r direction n now)"

definition shaper_admits :: "rl_store \<Rightarrow> UdpBandwidthShaper \<Rightarrow> nat \<Rightarrow> nat \<Rightarrow> rl_store \<times> bool" where
  "shaper_admits st sh n now =
     (if \<not> sh_has_cap sh then (st, True)
      else case opt_acquire_bandwidth st (sh_owner sh) (sh_direction sh) n now of
        (st', BwThrottled d) \<Rightarrow> (st', False)
      | (st', BwGranted) \<Rightarrow>
          (case opt_acquire_bandwidth st' (sh_rule sh) (sh_direction sh) n now of
             (st'', BwThrottled d) \<Rightarrow> (st'', False)
           | (st'', BwGranted) \<Rightarrow> (st'', True)))"

section \<open>The store invariant\<close>

definition store_wf :: "rl_store \<Rightarrow> bool" where
  "store_wf st \<longleftrightarrow>
     (\<forall>l < length (sl_limiters st). gauge_of st l < length (sl_gauges st)) \<and>
     ran (sl_rules st) \<subseteq> {..<length (sl_limiters st)} \<and>
     ran (sl_owners st) \<subseteq> {..<length (sl_limiters st)} \<and>
     (\<forall>g \<in> set (sl_gauges st). g \<le> u64_max)"

text \<open>\<open>same_shape\<close>: only bucket contents and gauge values may differ.\<close>

definition same_shape :: "rl_store \<Rightarrow> rl_store \<Rightarrow> bool" where
  "same_shape st st' \<longleftrightarrow>
     map lim_active_connections (sl_limiters st') = map lim_active_connections (sl_limiters st) \<and>
     map lim_concurrent_max (sl_limiters st') = map lim_concurrent_max (sl_limiters st) \<and>
     length (sl_gauges st') = length (sl_gauges st) \<and>
     sl_rules st' = sl_rules st \<and> sl_owners st' = sl_owners st"

named_theorems rl_defs \<open>definitions of the store operations\<close>

lemmas [rl_defs] = gauge_add_def gauge_sub_def guard_drop_def limiter_at_def gauge_of_def
  active_connections_def

lemma same_shape_refl [simp]: "same_shape st st"
  by (simp add: same_shape_def)

lemma same_shape_trans: "same_shape a b \<Longrightarrow> same_shape b c \<Longrightarrow> same_shape a c"
  by (simp add: same_shape_def)

lemma same_shape_length: "same_shape st st' \<Longrightarrow> length (sl_limiters st') = length (sl_limiters st)"
  by (metis same_shape_def length_map)

lemma same_shape_gauge_of:
  "same_shape st st' \<Longrightarrow> l < length (sl_limiters st) \<Longrightarrow> gauge_of st' l = gauge_of st l"
  by (metis gauge_of_def limiter_at_def nth_map same_shape_def same_shape_length)

lemma same_shape_cap:
  assumes "same_shape st st'" and "l < length (sl_limiters st)"
  shows "lim_concurrent_max (limiter_at st' l) = lim_concurrent_max (limiter_at st l)"
  using assms by (metis limiter_at_def nth_map same_shape_def same_shape_length)

lemma same_shape_wf:
  assumes "same_shape st st'" and "store_wf st" and "\<forall>g \<in> set (sl_gauges st'). g \<le> u64_max"
  shows "store_wf st'"
proof -
  have "length (sl_limiters st') = length (sl_limiters st)"
    using assms(1) by (rule same_shape_length)
  moreover have "sl_rules st' = sl_rules st" "sl_owners st' = sl_owners st"
    "length (sl_gauges st') = length (sl_gauges st)"
    using assms(1) by (simp_all add: same_shape_def)
  ultimately show ?thesis
    using assms same_shape_gauge_of [OF assms(1)] by (simp add: store_wf_def)
qed

lemma map_update_same: "f y = f (xs ! i) \<Longrightarrow> map f (xs[i := y]) = map f xs"
  by (cases "i < length xs") (simp_all add: map_update list_update_same_conv list_update_beyond)

lemma same_shape_gauge_upd [simp]: "same_shape st (st\<lparr>sl_gauges := (sl_gauges st)[g := v]\<rparr>)"
  by (simp add: same_shape_def)

lemma same_shape_limiter_upd:
  "lim_active_connections lim = lim_active_connections (sl_limiters st ! l) \<Longrightarrow>
   lim_concurrent_max lim = lim_concurrent_max (sl_limiters st ! l) \<Longrightarrow>
   same_shape st (st\<lparr>sl_limiters := (sl_limiters st)[l := lim]\<rparr>)"
  by (simp add: same_shape_def map_update_same)

lemma rate_gate_shape:
  "same_shape st (fst (rate_gate st l now))" "sl_gauges (fst (rate_gate st l now)) = sl_gauges st"
  by (auto simp: rate_gate_def Let_def limiter_at_def same_shape_limiter_upd
      split: option.splits prod.splits)

lemma wrap64_le [simp]: "wrap64 n \<le> u64_max"
  by (simp add: wrap64_def less_Suc_eq_le [symmetric])

lemma wrap_sub64_le [simp]: "wrap_sub64 a b \<le> u64_max"
  by (simp add: wrap_sub64_def less_Suc_eq_le [symmetric])

lemma wrap_sub64_one: "wrap_sub64 a 1 = (a + u64_max) mod Suc u64_max"
proof -
  have "1 mod Suc u64_max = 1" by (simp add: u64_max_def)
  then show ?thesis by (simp add: wrap_sub64_def)
qed

lemma wrap_sub64_wrap64: "wrap_sub64 (wrap64 (Suc n)) 1 = wrap64 n"
proof -
  have "wrap_sub64 (wrap64 (Suc n)) 1 = (Suc n mod Suc u64_max + u64_max) mod Suc u64_max"
    by (simp only: wrap_sub64_one wrap64_def Suc_eq_plus1)
  also have "\<dots> = (Suc n + u64_max) mod Suc u64_max"
    by (rule mod_add_left_eq)
  also have "Suc n + u64_max = n + Suc u64_max"
    by simp
  also have "\<dots> mod Suc u64_max = wrap64 n"
    by (simp only: mod_add_self2 wrap64_def Suc_eq_plus1)
  finally show ?thesis .
qed

lemma wrap64_Suc: "wrap64 (Suc (wrap64 n)) = wrap64 (Suc n)"
  by (simp add: wrap64_def mod_Suc_eq)

lemma gauge_add_sub:
  "g < length (sl_gauges st) \<Longrightarrow> sl_gauges st ! g \<le> u64_max \<Longrightarrow> gauge_sub (gauge_add st g) g = st"
  using wrap_sub64_wrap64 [of "sl_gauges st ! g"]
  by (cases st) (simp add: gauge_sub_def gauge_add_def list_update_same_conv)

lemma gauge_upd_shape: "same_shape st (gauge_add st g)" "same_shape st (gauge_sub st g)"
  by (simp_all add: gauge_add_def gauge_sub_def)

lemma gauge_upd_wf:
  assumes "store_wf st"
  shows "store_wf (gauge_add st g)" and "store_wf (gauge_sub st g)"
proof -
  have le: "\<forall>x \<in> set ((sl_gauges st)[g := v]). x \<le> u64_max" if "v \<le> u64_max" for v
    using assms that set_update_subset_insert [of "sl_gauges st" g v] by (auto simp: store_wf_def)
  show "store_wf (gauge_add st g)"
    by (rule same_shape_wf [OF gauge_upd_shape(1) assms]) (use le [OF wrap64_le] in \<open>simp add: gauge_add_def\<close>)
  show "store_wf (gauge_sub st g)"
    by (rule same_shape_wf [OF gauge_upd_shape(2) assms]) (use le [OF wrap_sub64_le] in \<open>simp add: gauge_sub_def\<close>)
qed

text \<open>What one admission attempt does to the gauges: a rejection leaves every gauge as it
  was, an admission raises the limiter's own gauge by one.\<close>

lemma concurrent_gate_effect:
  assumes "store_wf st" and "l < length (sl_limiters st)" and "concurrent_gate st l scope = (st', r)"
  shows "(\<exists>reason. r = ConnRejected reason \<and> reason = concurrent_reject_reason scope \<and> st' = st) \<or>
     (r = ConnGranted l \<and> st' = gauge_add st (gauge_of st l) \<and>
      (\<forall>cap. lim_concurrent_max (limiter_at st l) = Some cap \<longrightarrow> active_connections st l < cap))"
proof -
  have "gauge_of st l < length (sl_gauges st)" "sl_gauges st ! gauge_of st l \<le> u64_max"
    using assms(1,2) by (auto simp: store_wf_def)
  from gauge_add_sub [OF this] show ?thesis
    using assms(3) by (auto simp: concurrent_gate_def Let_def split: option.splits if_splits)
qed

lemma try_acquire_effect:
  assumes wf: "store_wf st" and l: "l < length (sl_limiters st)"
    and ta: "try_acquire st l scope udp now = (st', r)"
  shows "same_shape st st' \<and> store_wf st' \<and>
    ((\<exists>reason. r = ConnRejected reason \<and>
        reason \<in> {rate_reject_reason scope udp, concurrent_reject_reason scope} \<and>
        sl_gauges st' = sl_gauges st) \<or>
     (r = ConnGranted l \<and>
      sl_gauges st' = (sl_gauges st)[gauge_of st l := wrap64 (Suc (active_connections st l))] \<and>
      (\<forall>cap. lim_concurrent_max (limiter_at st l) = Some cap \<longrightarrow> active_connections st l < cap)))"
proof -
  obtain st1 pass where g: "rate_gate st l now = (st1, pass)" by fastforce
  have sh: "same_shape st st1" and ga: "sl_gauges st1 = sl_gauges st"
    using rate_gate_shape [of st l now] g by simp_all
  have wf1: "store_wf st1" and l1: "l < length (sl_limiters st1)"
    using same_shape_wf [OF sh wf] wf l same_shape_length [OF sh] by (simp_all add: ga store_wf_def)
  have eqs: "gauge_of st1 l = gauge_of st l" "active_connections st1 l = active_connections st l"
    "lim_concurrent_max (limiter_at st1 l) = lim_concurrent_max (limiter_at st l)"
    using same_shape_gauge_of [OF sh l] same_shape_cap [OF sh l] ga
    by (simp_all add: active_connections_def)
  show ?thesis
  proof (cases pass)
    case False
    then show ?thesis using ta g sh wf1 ga by (auto simp: try_acquire_def)
  next
    case True
    then have c: "concurrent_gate st1 l scope = (st', r)"
      using ta g by (simp add: try_acquire_def)
    note add = gauge_upd_wf(1) [OF wf1] gauge_upd_shape(1)
    from concurrent_gate_effect [OF wf1 l1 c] show ?thesis
    proof
      assume "\<exists>reason. r = ConnRejected reason \<and> reason = concurrent_reject_reason scope \<and> st' = st1"
      then show ?thesis using sh wf1 ga by auto
    next
      assume "r = ConnGranted l \<and> st' = gauge_add st1 (gauge_of st1 l) \<and>
        (\<forall>cap. lim_concurrent_max (limiter_at st1 l) = Some cap \<longrightarrow> active_connections st1 l < cap)"
      then show ?thesis
        using same_shape_trans [OF sh add(2)] add(1) eqs ga
        by (auto simp: gauge_add_def active_connections_def)
    qed
  qed
qed

section \<open>Accounting of live guards\<close>

text \<open>The environment of the store: each live connection holds the guards the layered gate
  gave it and drops both when it closes.\<close>

record rl_world =
  rw_store :: rl_store
  rw_conns :: "(nat option \<times> nat option) list"

datatype rl_event =
    Admit "string option" "nat option" bool nat
  | Close nat
  | InstallRule nat "RateLimit option" nat
  | UpdateRule nat "RateLimit option" nat
  | RemoveRule nat
  | InstallOwner string "RateLimit option" nat
  | UpdateOwner string "RateLimit option" nat
  | RemoveOwner string
  | Shape "nat option" "nat option" BandwidthDirection nat nat

definition drop_opt :: "rl_store \<Rightarrow> nat option \<Rightarrow> rl_store" where
  "drop_opt st g = (case g of None \<Rightarrow> st | Some l \<Rightarrow> guard_drop st l)"

fun rl_event_step :: "rl_world \<Rightarrow> rl_event \<Rightarrow> rl_world" where
  "rl_event_step w (Admit owner rule udp now) =
     (case try_acquire_layered (rw_store w) owner rule udp now of
        (st, LayerGranted og rg) \<Rightarrow> \<lparr>rw_store = st, rw_conns = (og, rg) # rw_conns w\<rparr>
      | (st, _) \<Rightarrow> w\<lparr>rw_store := st\<rparr>)"
| "rl_event_step w (Close i) =
     (if i < length (rw_conns w)
      then (let (og, rg) = rw_conns w ! i in
            \<lparr>rw_store = drop_opt (drop_opt (rw_store w) og) rg,
             rw_conns = take i (rw_conns w) @ drop (Suc i) (rw_conns w)\<rparr>)
      else w)"
| "rl_event_step w (InstallRule k rl now) = w\<lparr>rw_store := rule_install (rw_store w) k rl now\<rparr>"
| "rl_event_step w (UpdateRule k rl now) = w\<lparr>rw_store := rule_update (rw_store w) k rl now\<rparr>"
| "rl_event_step w (RemoveRule k) = w\<lparr>rw_store := rule_remove (rw_store w) k\<rparr>"
| "rl_event_step w (InstallOwner k rl now) = w\<lparr>rw_store := owner_install (rw_store w) k rl now\<rparr>"
| "rl_event_step w (UpdateOwner k rl now) = w\<lparr>rw_store := owner_update (rw_store w) k rl now\<rparr>"
| "rl_event_step w (RemoveOwner k) = w\<lparr>rw_store := owner_remove (rw_store w) k\<rparr>"
| "rl_event_step w (Shape ol rl dir n now) =
     (case shaper_admits (rw_store w) (shaper_new (rw_store w) ol rl dir) n now of
        (st, _) \<Rightarrow> w\<lparr>rw_store := st\<rparr>)"

definition opt_list :: "'a option \<Rightarrow> 'a list" where
  "opt_list v = (case v of None \<Rightarrow> [] | Some x \<Rightarrow> [x])"

definition guards_of :: "nat option \<times> nat option \<Rightarrow> nat list" where
  "guards_of c = opt_list (fst c) @ opt_list (snd c)"

definition guards :: "rl_world \<Rightarrow> nat list" where
  "guards w = concat (map guards_of (rw_conns w))"

text \<open>\<open>live st gs g\<close>: how many of the guards \<open>gs\<close> count on gauge \<open>g\<close>.\<close>

definition live :: "rl_store \<Rightarrow> nat list \<Rightarrow> nat \<Rightarrow> nat" where
  "live st gs g = length (filter (\<lambda>l. gauge_of st l = g) gs)"

definition counts :: "rl_store \<Rightarrow> nat list \<Rightarrow> bool" where
  "counts st gs \<longleftrightarrow> store_wf st \<and> (\<forall>l \<in> set gs. l < length (sl_limiters st)) \<and>
     (\<forall>g < length (sl_gauges st). sl_gauges st ! g = wrap64 (live st gs g))"

lemma live_append [simp]: "live st (xs @ ys) g = live st xs g + live st ys g"
  by (simp add: live_def)

lemma live_Cons [simp]: "live st (l # ls) g = (if gauge_of st l = g then Suc (live st ls g) else live st ls g)"
  by (simp add: live_def)

lemma live_Nil [simp]: "live st [] g = 0"
  by (simp add: live_def)

lemma live_cong:
  "\<forall>l \<in> set gs. gauge_of st' l = gauge_of st l \<Longrightarrow> live st' gs g = live st gs g"
  by (auto simp: live_def intro!: arg_cong [of _ _ length] filter_cong)

lemma counts_same_gauges:
  assumes "counts st gs" and "same_shape st st'" and "sl_gauges st' = sl_gauges st"
  shows "counts st' gs"
proof -
  have wf: "store_wf st" and le: "\<forall>g \<in> set (sl_gauges st'). g \<le> u64_max"
    using assms(1,3) by (simp_all add: counts_def store_wf_def)
  have "store_wf st'"
    using same_shape_wf [OF assms(2) wf le] .
  moreover have "live st' gs g = live st gs g" for g
    using assms(1) same_shape_gauge_of [OF assms(2)] by (intro live_cong) (auto simp: counts_def)
  ultimately show ?thesis
    using assms same_shape_length [OF assms(2)] by (simp add: counts_def)
qed

lemma counts_grant:
  assumes c: "counts st gs" and sh: "same_shape st st'" and wf: "store_wf st'"
    and l: "l < length (sl_limiters st)"
    and g: "sl_gauges st' = (sl_gauges st)[gauge_of st l := wrap64 (Suc (active_connections st l))]"
  shows "counts st' (l # gs)"
proof -
  have eq: "live st' (l # gs) k = live st (l # gs) k" for k
    using c l same_shape_gauge_of [OF sh] by (intro live_cong) (auto simp: counts_def)
  have "gauge_of st l < length (sl_gauges st)"
    using c l by (simp add: counts_def store_wf_def)
  then have "sl_gauges st' ! k = wrap64 (live st (l # gs) k)" if "k < length (sl_gauges st)" for k
    using c that by (cases "k = gauge_of st l") (auto simp: g counts_def active_connections_def wrap64_Suc)
  then show ?thesis
    using c l wf same_shape_length [OF sh] by (simp add: counts_def eq g del: live_Cons)
qed

lemma counts_drop:
  assumes c: "counts st (xs @ l # ys)"
  shows "counts (guard_drop st l) (xs @ ys) \<and> same_shape st (guard_drop st l)"
proof -
  let ?st = "guard_drop st l" and ?g = "gauge_of st l"
  have sh: "same_shape st ?st" by (simp add: guard_drop_def gauge_sub_def)
  have len: "length (sl_gauges ?st) = length (sl_gauges st)" by (simp add: guard_drop_def gauge_sub_def)
  have g: "?g < length (sl_gauges st)"
    using c by (simp add: counts_def store_wf_def)
  have wf: "store_wf ?st" using c gauge_upd_wf(2) by (simp add: counts_def guard_drop_def)
  have eq: "live ?st (xs @ ys) k = live st (xs @ ys) k" for k
    using c same_shape_gauge_of [OF sh] by (intro live_cong) (auto simp: counts_def)
  have "sl_gauges ?st ! k = wrap64 (live st (xs @ ys) k)" if "k < length (sl_gauges st)" for k
    using c that g wrap_sub64_wrap64 [of "live st (xs @ ys) k"]
    by (cases "k = ?g") (auto simp: guard_drop_def gauge_sub_def counts_def)
  then show ?thesis
    using c sh wf same_shape_length [OF sh] len by (simp add: counts_def eq del: live_append)
qed

lemma counts_perm:
  assumes "counts st gs" and "mset gs' = mset gs"
  shows "counts st gs'"
proof -
  have "live st gs' g = live st gs g" for g
    using assms(2) unfolding live_def by (metis mset_filter size_mset)
  moreover have "set gs' = set gs"
    using assms(2) by (rule mset_eq_setD)
  ultimately show ?thesis using assms(1) by (simp add: counts_def)
qed

lemma counts_gauges_eq:
  assumes "counts st gs" and "counts st' gs" and "same_shape st st'"
  shows "sl_gauges st' = sl_gauges st"
proof (rule nth_equalityI)
  show "length (sl_gauges st') = length (sl_gauges st)"
    using assms(3) by (simp add: same_shape_def)
  fix i
  assume "i < length (sl_gauges st')"
  moreover have "live st' gs i = live st gs i"
    using assms(1) same_shape_gauge_of [OF assms(3)] by (intro live_cong) (auto simp: counts_def)
  ultimately show "sl_gauges st' ! i = sl_gauges st ! i"
    using assms by (simp add: counts_def same_shape_def)
qed

text \<open>One limiter of either registry, with the guards it may add.\<close>

lemma try_acquire_counts:
  assumes c: "counts st gs" and l: "l < length (sl_limiters st)"
    and ta: "try_acquire st l scope udp now = (st', r)"
  shows "same_shape st st' \<and>
    (case r of
       ConnGranted g \<Rightarrow> g = l \<and> counts st' (l # gs) \<and>
         (\<forall>cap. lim_concurrent_max (limiter_at st l) = Some cap \<longrightarrow> active_connections st l < cap)
     | ConnRejected reason \<Rightarrow> counts st' gs \<and>
         reason \<in> {rate_reject_reason scope udp, concurrent_reject_reason scope})"
proof -
  have wf: "store_wf st" using c by (simp add: counts_def)
  show ?thesis
    using try_acquire_effect [OF wf l ta] counts_grant [OF c _ _ l] counts_same_gauges [OF c]
    by (cases r) auto
qed

lemma counts_ref:
  "counts st gs \<Longrightarrow> sl_rules st k = Some l \<Longrightarrow> l < length (sl_limiters st)"
  "counts st gs \<Longrightarrow> sl_owners st k' = Some l \<Longrightarrow> l < length (sl_limiters st)"
  by (auto simp: counts_def store_wf_def ran_def)

lemma rule_reason_scope:
  "reason \<in> {rate_reject_reason ScopeRule udp, concurrent_reject_reason ScopeRule} \<Longrightarrow> \<not> is_owner_scope reason"
  "reason \<in> {rate_reject_reason ScopeOwner udp, concurrent_reject_reason ScopeOwner} \<Longrightarrow> is_owner_scope reason"
  by (cases udp; auto)+

lemma rule_layer_counts:
  assumes c: "counts st (opt_list og @ gs)" and rl: "rule_layer st og rule udp now = (st', r)"
  shows "same_shape st st' \<and>
    (case r of
       LayerGranted og' rg \<Rightarrow> og' = og \<and> counts st' (guards_of (og, rg) @ gs) \<and>
         (\<forall>l. rg = Some l \<longrightarrow> (\<exists>k. sl_rules st k = Some l) \<and>
            (\<forall>cap. lim_concurrent_max (limiter_at st l) = Some cap \<longrightarrow> active_connections st l < cap))
     | RuleRejected reason \<Rightarrow> counts st' gs \<and> \<not> is_owner_scope reason
     | OwnerRejected _ \<Rightarrow> False)"
proof (cases "\<exists>k l. rule = Some k \<and> sl_rules st k = Some l")
  case False
  then show ?thesis
    using rl c by (auto simp: rule_layer_def rule_try_acquire_def rule_get_def guards_of_def opt_list_def
        split: option.splits)
next
  case True
  then obtain k l where k: "rule = Some k" "sl_rules st k = Some l" by blast
  obtain st1 a where ta: "try_acquire st l ScopeRule udp now = (st1, a)" by fastforce
  note eff = try_acquire_counts [OF c counts_ref(1) [OF c k(2)] ta]
  show ?thesis
  proof (cases a)
    case (ConnGranted g)
    with eff have e: "g = l" "counts st1 (l # opt_list og @ gs)" "same_shape st st1"
      "\<forall>cap. lim_concurrent_max (limiter_at st l) = Some cap \<longrightarrow> active_connections st l < cap"
      by simp_all
    have r: "r = LayerGranted og (Some l)" "st' = st1"
      using rl k ta ConnGranted e(1) by (simp_all add: rule_layer_def rule_try_acquire_def rule_get_def)
    have "counts st1 (guards_of (og, Some l) @ gs)"
      using e(2) by (rule counts_perm) (simp add: guards_of_def opt_list_def)
    then show ?thesis using r e k by auto
  next
    case (ConnRejected reason)
    with eff have e: "counts st1 (opt_list og @ gs)" "same_shape st st1"
      "reason \<in> {rate_reject_reason ScopeRule udp, concurrent_reject_reason ScopeRule}"
      by simp_all
    have r: "r = RuleRejected reason" "st' = drop_opt st1 og"
      using rl k ta ConnRejected
      by (simp_all add: rule_layer_def rule_try_acquire_def rule_get_def drop_opt_def)
    have "counts (drop_opt st1 og) gs \<and> same_shape st (drop_opt st1 og)"
    proof (cases og)
      case None
      then show ?thesis using e by (simp add: drop_opt_def opt_list_def)
    next
      case (Some x)
      then have "counts st1 ([] @ x # gs)" using e(1) by (simp add: opt_list_def)
      from counts_drop [OF this] show ?thesis
        using same_shape_trans [OF e(2)] Some by (simp add: drop_opt_def)
    qed
    then show ?thesis using r rule_reason_scope(1) [OF e(3)] by simp
  qed
qed

lemma layered_counts:
  assumes c: "counts st gs" and la: "try_acquire_layered st owner rule udp now = (st', r)"
  shows "same_shape st st' \<and>
    (case r of
       LayerGranted og rg \<Rightarrow> counts st' (guards_of (og, rg) @ gs)
     | RuleRejected reason \<Rightarrow> counts st' gs \<and> \<not> is_owner_scope reason
     | OwnerRejected reason \<Rightarrow> counts st' gs \<and> is_owner_scope reason)"
proof (cases "\<exists>k l. owner = Some k \<and> sl_owners st k = Some l")
  case False
  then have rl: "rule_layer st None rule udp now = (st', r)"
    using la by (auto simp: try_acquire_layered_def owner_try_acquire_def owner_get_def split: option.splits)
  have c': "counts st (opt_list None @ gs)" using c by (simp add: opt_list_def)
  show ?thesis
    using rule_layer_counts [OF c' rl] by (cases r) auto
next
  case True
  then obtain k l where k: "owner = Some k" "sl_owners st k = Some l" by blast
  obtain st1 a where ta: "try_acquire st l ScopeOwner udp now = (st1, a)" by fastforce
  note eff = try_acquire_counts [OF c counts_ref(2) [OF c k(2)] ta]
  show ?thesis
  proof (cases a)
    case (ConnGranted g)
    then have rl: "rule_layer st1 (Some l) rule udp now = (st', r)"
      and c1: "counts st1 (opt_list (Some l) @ gs)" and sh: "same_shape st st1"
      using la k ta eff
      by (auto simp: try_acquire_layered_def owner_try_acquire_def owner_get_def opt_list_def)
    show ?thesis
      using rule_layer_counts [OF c1 rl] same_shape_trans [OF sh] by (cases r) auto
  next
    case (ConnRejected reason)
    then show ?thesis
      using la k ta eff rule_reason_scope(2) [of reason udp]
      by (auto simp: try_acquire_layered_def owner_try_acquire_def owner_get_def)
  qed
qed

section \<open>Registry operations\<close>

text \<open>Allocation keeps every existing limiter and gauge.\<close>

lemma alloc_fresh_sel [simp]:
  "sl_limiters (fst (alloc_fresh st rl now)) = sl_limiters st @ [from_envelope rl (length (sl_gauges st)) now]"
  "sl_gauges (fst (alloc_fresh st rl now)) = sl_gauges st @ [0]"
  "sl_rules (fst (alloc_fresh st rl now)) = sl_rules st"
  "sl_owners (fst (alloc_fresh st rl now)) = sl_owners st"
  "snd (alloc_fresh st rl now) = length (sl_limiters st)"
  by (simp_all add: alloc_fresh_def)

lemma alloc_carry_sel [simp]:
  "sl_limiters (fst (alloc_carry st p rl now)) = sl_limiters st @ [lim_with_carryover (limiter_at st p) rl now]"
  "sl_gauges (fst (alloc_carry st p rl now)) = sl_gauges st"
  "sl_rules (fst (alloc_carry st p rl now)) = sl_rules st"
  "sl_owners (fst (alloc_carry st p rl now)) = sl_owners st"
  "snd (alloc_carry st p rl now) = length (sl_limiters st)"
  by (simp_all add: alloc_carry_def)

definition grows :: "rl_store \<Rightarrow> rl_store \<Rightarrow> bool" where
  "grows st st' \<longleftrightarrow> (\<exists>ls. sl_limiters st' = sl_limiters st @ ls) \<and>
     (sl_gauges st' = sl_gauges st \<or> sl_gauges st' = sl_gauges st @ [0])"

lemma grows_limiter: "grows st st' \<Longrightarrow> l < length (sl_limiters st) \<Longrightarrow> limiter_at st' l = limiter_at st l"
  by (auto simp: grows_def limiter_at_def nth_append)

lemma grows_gauge_of: "grows st st' \<Longrightarrow> l < length (sl_limiters st) \<Longrightarrow> gauge_of st' l = gauge_of st l"
  by (simp add: gauge_of_def grows_limiter)

lemma grows_counts:
  assumes c: "counts st gs" and g: "grows st st'" and wf: "store_wf st'"
  shows "counts st' gs"
proof -
  have lt: "\<forall>l \<in> set gs. l < length (sl_limiters st)" "\<forall>l \<in> set gs. gauge_of st l < length (sl_gauges st)"
    using c by (auto simp: counts_def store_wf_def)
  have lv: "live st' gs k = live st gs k" for k
    using lt grows_gauge_of [OF g] by (intro live_cong) auto
  have "live st gs (length (sl_gauges st)) = 0"
    using lt(2) by (auto simp: live_def filter_empty_conv)
  then have "sl_gauges st' ! k = wrap64 (live st gs k)" if "k < length (sl_gauges st')" for k
    using c g that by (auto simp: grows_def counts_def nth_append less_Suc_eq wrap64_def)
  moreover have "length (sl_limiters st) \<le> length (sl_limiters st')"
    using g by (auto simp: grows_def)
  ultimately show ?thesis
    using lt(1) wf by (auto simp: counts_def lv)
qed

lemma from_envelope_gauge [simp]: "lim_active_connections (from_envelope rl g now) = g"
  by (simp add: from_envelope_def)

lemma with_carryover_gauge [simp]:
  "lim_active_connections (lim_with_carryover prior rl now) = lim_active_connections prior"
  by (simp add: lim_with_carryover_def)

text \<open>The four ways a registry entry is written: a fresh limiter or a successor, for a rule or
  for an owner.\<close>

definition put_rule :: "rl_store \<times> nat \<Rightarrow> nat \<Rightarrow> rl_store" where
  "put_rule a k = (fst a)\<lparr>sl_rules := (sl_rules (fst a))(k \<mapsto> snd a)\<rparr>"

definition put_owner :: "rl_store \<times> nat \<Rightarrow> string \<Rightarrow> rl_store" where
  "put_owner a k = (fst a)\<lparr>sl_owners := (sl_owners (fst a))(k \<mapsto> snd a)\<rparr>"

lemma registry_unfold:
  "rule_install st k rl now =
     (case rl of None \<Rightarrow> rule_remove st k | Some e \<Rightarrow> put_rule (alloc_fresh st e now) k)"
  "rule_update st k rl now =
     (case rl of None \<Rightarrow> rule_remove st k
      | Some e \<Rightarrow> put_rule (case sl_rules st k of None \<Rightarrow> alloc_fresh st e now
                            | Some p \<Rightarrow> alloc_carry st p e now) k)"
  "owner_install st ok rl now =
     (case rl of None \<Rightarrow> owner_remove st ok | Some e \<Rightarrow> put_owner (alloc_fresh st e now) ok)"
  "owner_update st ok rl now =
     (case rl of None \<Rightarrow> owner_remove st ok
      | Some e \<Rightarrow> put_owner (case sl_owners st ok of None \<Rightarrow> alloc_fresh st e now
                             | Some p \<Rightarrow> alloc_carry st p e now) ok)"
  by (simp_all add: rule_install_def rule_update_def owner_install_def owner_update_def
      rule_remove_def owner_remove_def put_rule_def put_owner_def split_beta split: option.splits)

lemma alloc_grows:
  "grows st (put_rule (alloc_fresh st e now) k)" "grows st (put_rule (alloc_carry st p e now) k)"
  "grows st (put_owner (alloc_fresh st e now) ok)" "grows st (put_owner (alloc_carry st p e now) ok)"
  by (simp_all add: grows_def put_rule_def put_owner_def)

lemma ran_lt_Suc: "ran m \<subseteq> {..<n} \<Longrightarrow> ran m \<subseteq> {..<Suc n}"
  by auto

lemma ran_upd_lt: "ran m \<subseteq> {..<n} \<Longrightarrow> ran (m(x \<mapsto> n)) \<subseteq> {..<Suc n}"
  by (auto simp: ran_def less_Suc_eq split: if_splits)

lemma alloc_wf:
  assumes wf: "store_wf st"
  shows "store_wf (put_rule (alloc_fresh st e now) k)" "store_wf (put_owner (alloc_fresh st e now) ok)"
    and "p < length (sl_limiters st) \<Longrightarrow> store_wf (put_rule (alloc_carry st p e now) k)"
    and "p < length (sl_limiters st) \<Longrightarrow> store_wf (put_owner (alloc_carry st p e now) ok)"
proof -
  note w = wf [unfolded store_wf_def gauge_of_def limiter_at_def]
  have r: "ran ((sl_rules st)(k \<mapsto> length (sl_limiters st))) \<subseteq> {..<Suc (length (sl_limiters st))}"
    "ran ((sl_owners st)(ok \<mapsto> length (sl_limiters st))) \<subseteq> {..<Suc (length (sl_limiters st))}"
    "ran (sl_rules st) \<subseteq> {..<Suc (length (sl_limiters st))}"
    "ran (sl_owners st) \<subseteq> {..<Suc (length (sl_limiters st))}"
    using w by (simp_all add: ran_upd_lt ran_lt_Suc)
  note defs = store_wf_def put_rule_def put_owner_def gauge_of_def limiter_at_def nth_append less_Suc_eq
  show "store_wf (put_rule (alloc_fresh st e now) k)" "store_wf (put_owner (alloc_fresh st e now) ok)"
    using w r by (simp_all add: defs)
  show "p < length (sl_limiters st) \<Longrightarrow> store_wf (put_rule (alloc_carry st p e now) k)"
    "p < length (sl_limiters st) \<Longrightarrow> store_wf (put_owner (alloc_carry st p e now) ok)"
    using w r by (simp_all add: defs)
qed

lemma remove_wf:
  assumes "store_wf st"
  shows "store_wf (rule_remove st k)" "store_wf (owner_remove st ok)"
  using assms by (auto simp: store_wf_def rule_remove_def owner_remove_def gauge_of_def limiter_at_def
      ran_def split: if_splits)

lemma remove_grows: "grows st (rule_remove st k)" "grows st (owner_remove st ok)"
  by (simp_all add: grows_def rule_remove_def owner_remove_def)

lemma wf_ref:
  "store_wf st \<Longrightarrow> sl_rules st k = Some l \<Longrightarrow> l < length (sl_limiters st)"
  "store_wf st \<Longrightarrow> sl_owners st ok = Some l \<Longrightarrow> l < length (sl_limiters st)"
  by (auto simp: store_wf_def ran_def)

lemma registry_wf:
  assumes "store_wf st"
  shows "store_wf (rule_install st k rl now)" "store_wf (rule_update st k rl now)"
    "store_wf (owner_install st ok rl now)" "store_wf (owner_update st ok rl now)"
  unfolding registry_unfold
  using assms by (auto simp: alloc_wf remove_wf wf_ref split: option.splits)

lemma registry_grows:
  "grows st (rule_install st k rl now)" "grows st (rule_update st k rl now)"
  "grows st (owner_install st ok rl now)" "grows st (owner_update st ok rl now)"
  unfolding registry_unfold by (simp_all add: alloc_grows remove_grows split: option.splits)

section \<open>The world invariant\<close>

definition disjoint_gauges :: "rl_store \<Rightarrow> bool" where
  "disjoint_gauges st \<longleftrightarrow>
     (\<forall>k l ok ol. sl_rules st k = Some l \<longrightarrow> sl_owners st ok = Some ol \<longrightarrow> gauge_of st l \<noteq> gauge_of st ol)"

definition world_inv :: "rl_world \<Rightarrow> bool" where
  "world_inv w \<longleftrightarrow> counts (rw_store w) (guards w) \<and> disjoint_gauges (rw_store w)"

lemma disjoint_same_shape:
  assumes "disjoint_gauges st" and "same_shape st st'" and "store_wf st"
  shows "disjoint_gauges st'"
proof -
  have "sl_rules st' = sl_rules st" "sl_owners st' = sl_owners st"
    using assms(2) by (simp_all add: same_shape_def)
  then show ?thesis
    using assms(1) wf_ref [OF assms(3)] same_shape_gauge_of [OF assms(2)]
    by (simp add: disjoint_gauges_def)
qed

lemma gauge_of_put:
  "gauge_of (put_rule a k) l = gauge_of (fst a) l" "gauge_of (put_owner a ok) l = gauge_of (fst a) l"
  by (simp_all add: gauge_of_def limiter_at_def put_rule_def put_owner_def)

lemma gauge_of_alloc:
  "l < length (sl_limiters st) \<Longrightarrow> gauge_of (fst (alloc_fresh st e now)) l = gauge_of st l"
  "l < length (sl_limiters st) \<Longrightarrow> gauge_of (fst (alloc_carry st p e now)) l = gauge_of st l"
  "gauge_of (fst (alloc_fresh st e now)) (length (sl_limiters st)) = length (sl_gauges st)"
  "gauge_of (fst (alloc_carry st p e now)) (length (sl_limiters st)) = gauge_of st p"
  by (simp_all add: gauge_of_def limiter_at_def nth_append)

lemma disjoint_alloc:
  assumes d: "disjoint_gauges st" and wf: "store_wf st"
  shows "disjoint_gauges (put_rule (alloc_fresh st e now) k)"
    and "disjoint_gauges (put_owner (alloc_fresh st e now) ok)"
    and "sl_rules st k = Some p \<Longrightarrow> disjoint_gauges (put_rule (alloc_carry st p e now) k)"
    and "sl_owners st ok = Some p \<Longrightarrow> disjoint_gauges (put_owner (alloc_carry st p e now) ok)"
proof -
  have lt: "gauge_of st l < length (sl_gauges st)" if "l < length (sl_limiters st)" for l
    using wf that by (simp add: store_wf_def)
  have ne: "gauge_of st l \<noteq> length (sl_gauges st)" if "l < length (sl_limiters st)" for l
    using lt [OF that] by simp
  note ref = wf_ref [OF wf]
  note old = d [unfolded disjoint_gauges_def, rule_format]
  note defs = disjoint_gauges_def gauge_of_put gauge_of_alloc
  have neo: "length (sl_gauges st) \<noteq> gauge_of st ol" if "sl_owners st ok = Some ol" for ok ol
    using ne ref(2) [OF that] by metis
  show "disjoint_gauges (put_rule (alloc_fresh st e now) k)"
    unfolding defs using old
    by (auto simp: put_rule_def gauge_of_alloc ref neo split: if_splits)
  show "disjoint_gauges (put_owner (alloc_fresh st e now) ok)"
    unfolding defs using old ref ne
    by (auto simp: put_owner_def gauge_of_alloc ref split: if_splits)
  show "sl_rules st k = Some p \<Longrightarrow> disjoint_gauges (put_rule (alloc_carry st p e now) k)"
    unfolding defs using old ref
    by (auto simp: put_rule_def gauge_of_alloc ref split: if_splits)
  show "sl_owners st ok = Some p \<Longrightarrow> disjoint_gauges (put_owner (alloc_carry st p e now) ok)"
    unfolding defs using old ref
    by (auto simp: put_owner_def gauge_of_alloc ref split: if_splits)
qed

lemma disjoint_remove:
  "disjoint_gauges st \<Longrightarrow> disjoint_gauges (rule_remove st k)"
  "disjoint_gauges st \<Longrightarrow> disjoint_gauges (owner_remove st ok)"
  by (simp_all add: disjoint_gauges_def rule_remove_def owner_remove_def gauge_of_def limiter_at_def)

lemma registry_disjoint:
  assumes "disjoint_gauges st" and "store_wf st"
  shows "disjoint_gauges (rule_install st k rl now)" "disjoint_gauges (rule_update st k rl now)"
    "disjoint_gauges (owner_install st ok rl now)" "disjoint_gauges (owner_update st ok rl now)"
  unfolding registry_unfold
  using assms by (auto simp: disjoint_alloc disjoint_remove split: option.splits)

lemma world_inv_registry:
  assumes "world_inv w"
    and "grows (rw_store w) st'" and "store_wf st'" and "disjoint_gauges st'"
  shows "world_inv (w\<lparr>rw_store := st'\<rparr>)"
  using assms grows_counts by (auto simp: world_inv_def guards_def)

lemma acquire_bandwidth_shape:
  "same_shape st (fst (acquire_bandwidth st l dir n now))"
  "sl_gauges (fst (acquire_bandwidth st l dir n now)) = sl_gauges st"
proof -
  have "same_shape st (st\<lparr>sl_limiters := (sl_limiters st)[l := set_bandwidth_bucket (limiter_at st l) dir b]\<rparr>)" for b
    by (cases dir) (simp_all add: same_shape_limiter_upd limiter_at_def)
  then show "same_shape st (fst (acquire_bandwidth st l dir n now))"
    "sl_gauges (fst (acquire_bandwidth st l dir n now)) = sl_gauges st"
    by (auto simp: acquire_bandwidth_def Let_def split: option.splits prod.splits Acquire.splits)
qed

lemma shaper_shape:
  "same_shape st (fst (shaper_admits st sh n now)) \<and> sl_gauges (fst (shaper_admits st sh n now)) = sl_gauges st"
proof -
  have o: "same_shape st' (fst (opt_acquire_bandwidth st' l dir n now)) \<and>
      sl_gauges (fst (opt_acquire_bandwidth st' l dir n now)) = sl_gauges st'" for st' l dir
    using acquire_bandwidth_shape by (cases l) (simp_all add: opt_acquire_bandwidth_def)
  obtain st1 r1 where 1: "opt_acquire_bandwidth st (sh_owner sh) (sh_direction sh) n now = (st1, r1)"
    by fastforce
  obtain st2 r2 where 2: "opt_acquire_bandwidth st1 (sh_rule sh) (sh_direction sh) n now = (st2, r2)"
    by fastforce
  have "same_shape st st1" "sl_gauges st1 = sl_gauges st"
    using o [of st "sh_owner sh" "sh_direction sh"] 1 by simp_all
  moreover have "same_shape st1 st2" "sl_gauges st2 = sl_gauges st1"
    using o [of st1 "sh_rule sh" "sh_direction sh"] 2 by simp_all
  ultimately show ?thesis
    using same_shape_trans
    by (auto simp: shaper_admits_def 1 2 split: BandwidthAcquire.splits)
qed

lemma guards_close:
  assumes "i < length cs"
  shows "mset (concat (map guards_of cs)) =
    mset (guards_of (cs ! i) @ concat (map guards_of (take i cs @ drop (Suc i) cs)))"
proof -
  have "mset (concat (map guards_of cs)) =
      mset (concat (map guards_of (take i cs @ cs ! i # drop (Suc i) cs)))"
    using assms by (simp add: id_take_nth_drop [symmetric])
  then show ?thesis by simp
qed

lemma drop_opt_counts:
  assumes "counts st (opt_list g @ gs)"
  shows "counts (drop_opt st g) gs \<and> same_shape st (drop_opt st g)"
  using assms counts_drop [of st "[]" _ gs] by (cases g) (auto simp: drop_opt_def opt_list_def)

lemma world_inv_step:
  assumes inv: "world_inv w"
  shows "world_inv (rl_event_step w ev)"
proof -
  let ?st = "rw_store w"
  have c: "counts ?st (guards w)" and wf: "store_wf ?st" and d: "disjoint_gauges ?st"
    using inv by (simp_all add: world_inv_def counts_def)
  note reg = world_inv_registry [OF inv]
  show ?thesis
  proof (cases ev)
    case (Admit owner rule udp now)
    obtain st' r where la: "try_acquire_layered ?st owner rule udp now = (st', r)" by fastforce
    have sh: "same_shape ?st st'" using layered_counts [OF c la] by simp
    then have "disjoint_gauges st'" using disjoint_same_shape [OF d] wf by blast
    then show ?thesis
      using layered_counts [OF c la] by (cases r) (simp_all add: Admit la world_inv_def guards_def)
  next
    case (Close i)
    show ?thesis
    proof (cases "i < length (rw_conns w)")
      case True
      obtain og rg where p: "rw_conns w ! i = (og, rg)" by fastforce
      let ?gs = "concat (map guards_of (take i (rw_conns w) @ drop (Suc i) (rw_conns w)))"
      have "counts ?st (opt_list og @ opt_list rg @ ?gs)"
        using c by (rule counts_perm) (simp add: guards_def guards_close [OF True] p guards_of_def)
      from drop_opt_counts [OF this]
      have 1: "counts (drop_opt ?st og) (opt_list rg @ ?gs)" "same_shape ?st (drop_opt ?st og)" by simp_all
      from drop_opt_counts [OF 1(1)] same_shape_trans [OF 1(2)]
      have "counts (drop_opt (drop_opt ?st og) rg) ?gs" "same_shape ?st (drop_opt (drop_opt ?st og) rg)"
        by blast+
      then show ?thesis
        using True p disjoint_same_shape [OF d _ wf] by (simp add: Close world_inv_def guards_def)
    qed (use inv Close in simp)
  next
    case (Shape ol rl dir n now)
    obtain st' b where sh: "shaper_admits ?st (shaper_new ?st ol rl dir) n now = (st', b)" by fastforce
    have "same_shape ?st st'" "sl_gauges st' = sl_gauges ?st"
      using shaper_shape [of ?st "shaper_new ?st ol rl dir" n now] sh by simp_all
    then show ?thesis
      using counts_same_gauges [OF c] disjoint_same_shape [OF d _ wf] sh
      by (simp add: Shape world_inv_def guards_def)
  qed (simp_all add: reg registry_grows registry_wf [OF wf] registry_disjoint [OF d wf]
      remove_grows remove_wf [OF wf] disjoint_remove [OF d])
qed

definition world_init :: rl_world where
  "world_init = \<lparr>rw_store = store_empty, rw_conns = []\<rparr>"

lemma world_inv_reach: "world_inv (foldl rl_event_step world_init evs)"
proof (induction evs rule: rev_induct)
  case Nil
  show ?case
    by (simp add: world_inv_def world_init_def store_empty_def guards_def counts_def store_wf_def
        disjoint_gauges_def)
next
  case (snoc ev evs)
  then show ?case using world_inv_step by simp
qed

section \<open>Caps hold after every admission\<close>

lemma active_is_live:
  assumes "counts st gs" and "l < length (sl_limiters st)" and "length gs \<le> u64_max"
  shows "active_connections st l = live st gs (gauge_of st l)"
proof -
  have "live st gs (gauge_of st l) \<le> u64_max"
    using assms(3) by (simp add: live_def order_trans [OF length_filter_le])
  then show ?thesis
    using assms(1,2) by (simp add: counts_def store_wf_def active_connections_def)
qed

lemma live_shape:
  assumes "counts st gs" and "same_shape st st'"
  shows "live st' gs g = live st gs g"
  using assms same_shape_gauge_of [OF assms(2)] by (intro live_cong) (auto simp: counts_def)

definition caps_hold :: "rl_store \<Rightarrow> nat list \<Rightarrow> nat \<Rightarrow> bool" where
  "caps_hold st gs l \<longleftrightarrow>
     (\<forall>cap. lim_concurrent_max (limiter_at st l) = Some cap \<longrightarrow> live st gs (gauge_of st l) \<le> cap)"

lemma rule_layer_caps:
  assumes c: "counts st (opt_list og @ gs)" and le: "length (opt_list og @ gs) \<le> u64_max"
    and rl: "rule_layer st og rule udp now = (st', LayerGranted og' (Some l))"
  shows "caps_hold st' (guards_of (og, Some l) @ gs) l"
proof -
  have e: "same_shape st st'" "counts st' (guards_of (og, Some l) @ gs)" "\<exists>k. sl_rules st k = Some l"
    "\<forall>cap. lim_concurrent_max (limiter_at st l) = Some cap \<longrightarrow> active_connections st l < cap"
    using rule_layer_counts [OF c rl] by simp_all
  have l: "l < length (sl_limiters st)" using e(3) counts_ref(1) [OF c] by blast
  have "live st' (guards_of (og, Some l) @ gs) (gauge_of st' l) = Suc (live st (opt_list og @ gs) (gauge_of st l))"
    using live_shape [OF c e(1)] same_shape_gauge_of [OF e(1) l]
    by (simp add: guards_of_def opt_list_def split: option.splits)
  then show ?thesis
    using e(4) active_is_live [OF c l le] same_shape_cap [OF e(1) l] by (auto simp: caps_hold_def Suc_le_eq)
qed

lemma layered_caps:
  assumes c: "counts st gs" and d: "disjoint_gauges st" and le: "length gs < u64_max"
    and la: "try_acquire_layered st owner rule udp now = (st', LayerGranted og rg)"
    and l: "l \<in> set (guards_of (og, rg))"
  shows "caps_hold st' (guards_of (og, rg) @ gs) l"
proof (cases "\<exists>k l. owner = Some k \<and> sl_owners st k = Some l")
  case False
  then have rl: "rule_layer st None rule udp now = (st', LayerGranted og rg)"
    using la by (auto simp: try_acquire_layered_def owner_try_acquire_def owner_get_def split: option.splits)
  have c': "counts st (opt_list None @ gs)" "length (opt_list None @ gs) \<le> u64_max"
    using c le by (simp_all add: opt_list_def)
  have "og = None" using rule_layer_counts [OF c'(1) rl] by simp
  with l have "rg = Some l" by (auto simp: guards_of_def opt_list_def split: option.splits)
  with rule_layer_caps [OF c'] rl \<open>og = None\<close> show ?thesis by blast
next
  case True
  then obtain k lo where k: "owner = Some k" "sl_owners st k = Some lo" by blast
  obtain st1 a where ta: "try_acquire st lo ScopeOwner udp now = (st1, a)" by fastforce
  have lo: "lo < length (sl_limiters st)" using counts_ref(2) [OF c k(2)] .
  note eff = try_acquire_counts [OF c lo ta]
  have a: "a = ConnGranted lo"
    using la k ta eff by (cases a) (simp_all add: try_acquire_layered_def owner_try_acquire_def owner_get_def)
  then have rl: "rule_layer st1 (Some lo) rule udp now = (st', LayerGranted og rg)"
    and c1: "counts st1 (opt_list (Some lo) @ gs)" and sh1: "same_shape st st1"
    and cap: "\<forall>cap. lim_concurrent_max (limiter_at st lo) = Some cap \<longrightarrow> active_connections st lo < cap"
    using la k ta eff
    by (simp_all add: try_acquire_layered_def owner_try_acquire_def owner_get_def opt_list_def)
  have e: "og = Some lo" "same_shape st1 st'" "counts st' (guards_of (Some lo, rg) @ gs)"
    "\<forall>r. rg = Some r \<longrightarrow> (\<exists>k. sl_rules st1 k = Some r)"
    using rule_layer_counts [OF c1 rl] by auto
  have sh: "same_shape st st'" using same_shape_trans [OF sh1 e(2)] .
  have len: "length (opt_list (Some lo) @ gs) \<le> u64_max" using le by (simp add: opt_list_def)
  show ?thesis
  proof (cases "rg = Some l")
    case True
    with rule_layer_caps [OF c1 len] rl e(1) show ?thesis by blast
  next
    case False
    with l e(1) have l_lo: "l = lo" by (auto simp: guards_of_def opt_list_def split: option.splits)
    have ng: "gauge_of st' r \<noteq> gauge_of st' lo" if r: "rg = Some r" for r
    proof -
      obtain kr where "sl_rules st kr = Some r"
        using e(4) r sh1 by (auto simp: same_shape_def)
      then show ?thesis
        using d k(2) same_shape_gauge_of [OF sh] lo counts_ref(1) [OF c] by (simp add: disjoint_gauges_def)
    qed
    have "live st' (guards_of (og, rg) @ gs) (gauge_of st' lo) = Suc (live st' gs (gauge_of st' lo))"
      using ng e(1) by (cases rg) (simp_all add: guards_of_def opt_list_def)
    then show ?thesis
      using cap active_is_live [OF c lo] le live_shape [OF c sh] same_shape_gauge_of [OF sh lo]
        same_shape_cap [OF sh lo] by (auto simp: caps_hold_def l_lo Suc_le_eq)
  qed
qed

section \<open>The registries satisfy the registry contract\<close>

text \<open>What a lookup shows of a limiter: its rates, bursts and ceiling. An entry is written by
  \<open>install\<close> or by \<open>update\<close> (the flag), with an envelope, at a time.\<close>

type_synonym caps = "(nat \<times> nat) option \<times> (nat \<times> nat) option \<times> (nat \<times> nat) option \<times> nat option"

definition bucket_caps :: "TokenBucket option \<Rightarrow> (nat \<times> nat) option" where
  "bucket_caps b = map_option (\<lambda>b. (rate_per_sec b, burst b)) b"

definition limiter_caps :: "RuleRateLimiter \<Rightarrow> caps" where
  "limiter_caps lim = (bucket_caps (lim_bandwidth_in lim), bucket_caps (lim_bandwidth_out lim),
     bucket_caps (lim_new_connections lim), lim_concurrent_max lim)"

definition eff_pair :: "nat option \<Rightarrow> nat option \<Rightarrow> (nat \<times> nat) option" where
  "eff_pair rate b_opt = map_option (\<lambda>r. (r, case b_opt of None \<Rightarrow> r | Some b \<Rightarrow> b)) rate"

definition envelope_caps :: "bool \<times> RateLimit \<times> nat \<Rightarrow> caps" where
  "envelope_caps e = (case e of (_, rl, _) \<Rightarrow>
     (eff_pair (bandwidth_in_bps rl) (bandwidth_in_burst rl),
      eff_pair (bandwidth_out_bps rl) (bandwidth_out_burst rl),
      eff_pair (new_connections_per_sec rl) (new_connections_burst rl), concurrent_connections rl))"

definition rule_caps :: "rl_store \<Rightarrow> nat \<Rightarrow> caps option" where
  "rule_caps st k = map_option (\<lambda>l. limiter_caps (limiter_at st l)) (rule_get st k)"

definition owner_caps :: "rl_store \<Rightarrow> string \<Rightarrow> caps option" where
  "owner_caps st k = map_option (\<lambda>l. limiter_caps (limiter_at st l)) (owner_get st k)"

definition rule_put :: "rl_store \<Rightarrow> nat \<Rightarrow> bool \<times> RateLimit \<times> nat \<Rightarrow> rl_store" where
  "rule_put st k e = (case e of (upd, rl, now) \<Rightarrow>
     if upd then rule_update st k (Some rl) now else rule_install st k (Some rl) now)"

definition owner_put :: "rl_store \<Rightarrow> string \<Rightarrow> bool \<times> RateLimit \<times> nat \<Rightarrow> rl_store" where
  "owner_put st k e = (case e of (upd, rl, now) \<Rightarrow>
     if upd then owner_update st k (Some rl) now else owner_install st k (Some rl) now)"

lemma fresh_caps: "limiter_caps (from_envelope rl g now) = envelope_caps (u, rl, t)"
  by (simp add: limiter_caps_def from_envelope_def envelope_caps_def bucket_caps_def eff_pair_def
      fresh_bucket_u64_def fresh_bucket_u32_def effective_burst_u64_def effective_burst_u32_def
      tb_new_def option.map_comp comp_def Let_def)

lemma carry_bucket_caps:
  "bucket_caps (carry_bucket_u64 r b p now) = eff_pair r b"
  "bucket_caps (carry_bucket_u32 r b p now) = eff_pair r b"
proof -
  have "bucket_caps (map_option (\<lambda>rate. case p of Some q \<Rightarrow> tb_with_carryover rate (f rate) q now
      | None \<Rightarrow> tb_new rate (f rate) now) r) = map_option (\<lambda>rate. (rate, f rate)) r" for f
    by (cases r; cases p) (simp_all add: bucket_caps_def tb_new_def tb_with_carryover_def)
  then show "bucket_caps (carry_bucket_u64 r b p now) = eff_pair r b"
    "bucket_caps (carry_bucket_u32 r b p now) = eff_pair r b"
    by (simp_all add: carry_bucket_u64_def carry_bucket_u32_def Let_def eff_pair_def
        effective_burst_u64_def effective_burst_u32_def)
qed

lemma carry_caps: "limiter_caps (lim_with_carryover prior rl now) = envelope_caps (u, rl, t)"
  by (simp add: limiter_caps_def lim_with_carryover_def envelope_caps_def carry_bucket_caps)

lemma put_caps:
  assumes wf: "store_wf st"
  shows "rule_caps (rule_put st k e) k' = (if k' = k then Some (envelope_caps e) else rule_caps st k')"
    and "owner_caps (owner_put st ok e) ok' = (if ok' = ok then Some (envelope_caps e) else owner_caps st ok')"
proof -
  obtain u rl t where e: "e = (u, rl, t)" by (cases e)
  note ref = wf_ref [OF wf]
  note defs = rule_caps_def owner_caps_def rule_get_def owner_get_def limiter_at_def put_rule_def put_owner_def
  have old: "map_option (\<lambda>l. limiter_caps ((sl_limiters st @ [x]) ! l)) v =
      map_option (\<lambda>l. limiter_caps (sl_limiters st ! l)) v" if "\<forall>l. v = Some l \<longrightarrow> l < length (sl_limiters st)" for v x
    using that by (cases v) (simp_all add: nth_append)
  show "rule_caps (rule_put st k e) k' = (if k' = k then Some (envelope_caps e) else rule_caps st k')"
    using ref by (auto simp: rule_put_def e registry_unfold defs old fresh_caps [of _ _ _ u t]
        carry_caps [of _ _ _ u t] split: option.splits)
  show "owner_caps (owner_put st ok e) ok' = (if ok' = ok then Some (envelope_caps e) else owner_caps st ok')"
    using ref by (auto simp: owner_put_def e registry_unfold defs old fresh_caps [of _ _ _ u t]
        carry_caps [of _ _ _ u t] split: option.splits)
qed

interpretation rule_reg: keyed_registry store_empty store_wf rule_caps rule_put rule_remove envelope_caps
proof
  show "store_wf store_empty" by (simp add: store_wf_def store_empty_def)
  show "store_wf m \<Longrightarrow> store_wf (rule_put m k e)" for m k e
    by (simp add: rule_put_def registry_wf split: prod.splits)
  show "rule_caps store_empty k = None" for k
    by (simp add: rule_caps_def rule_get_def store_empty_def)
  show "rule_caps (rule_remove m k) k' = (if k' = k then None else rule_caps m k')" for m k k'
    by (simp add: rule_caps_def rule_get_def rule_remove_def limiter_at_def)
qed (simp_all add: remove_wf put_caps)

interpretation owner_reg: keyed_registry store_empty store_wf owner_caps owner_put owner_remove envelope_caps
proof
  show "store_wf store_empty" by (simp add: store_wf_def store_empty_def)
  show "store_wf m \<Longrightarrow> store_wf (owner_put m k e)" for m k e
    by (simp add: owner_put_def registry_wf split: prod.splits)
  show "owner_caps store_empty k = None" for k
    by (simp add: owner_caps_def owner_get_def store_empty_def)
  show "owner_caps (owner_remove m k) k' = (if k' = k then None else owner_caps m k')" for m k k'
    by (simp add: owner_caps_def owner_get_def owner_remove_def limiter_at_def)
qed (simp_all add: remove_wf put_caps)

section \<open>The ceiling under interleaved callers\<close>

text \<open>Callers of the concurrent ceiling at the granularity of the atomics: \<open>fetch_add\<close>, then
  the comparison with the value it returned (and \<open>fetch_sub\<close> on a rejection), then the drop
  of the guard.\<close>

datatype gate_pc = GIdle | Added nat | Holding

record gate_world =
  gw_cap :: nat
  gw_gauge :: nat
  gw_pcs :: "gate_pc list"

inductive gate_step :: "gate_world \<Rightarrow> gate_world \<Rightarrow> bool" where
  gate_add: "\<lbrakk>i < length (gw_pcs w); gw_pcs w ! i = GIdle\<rbrakk>
    \<Longrightarrow> gate_step w (w\<lparr>gw_gauge := wrap64 (gw_gauge w + 1), gw_pcs := (gw_pcs w)[i := Added (gw_gauge w)]\<rparr>)"
| gate_reject: "\<lbrakk>i < length (gw_pcs w); gw_pcs w ! i = Added prev; gw_cap w \<le> prev\<rbrakk>
    \<Longrightarrow> gate_step w (w\<lparr>gw_gauge := wrap_sub64 (gw_gauge w) 1, gw_pcs := (gw_pcs w)[i := GIdle]\<rparr>)"
| gate_admit: "\<lbrakk>i < length (gw_pcs w); gw_pcs w ! i = Added prev; prev < gw_cap w\<rbrakk>
    \<Longrightarrow> gate_step w (w\<lparr>gw_pcs := (gw_pcs w)[i := Holding]\<rparr>)"
| gate_close: "\<lbrakk>i < length (gw_pcs w); gw_pcs w ! i = Holding\<rbrakk>
    \<Longrightarrow> gate_step w (w\<lparr>gw_gauge := wrap_sub64 (gw_gauge w) 1, gw_pcs := (gw_pcs w)[i := GIdle]\<rparr>)"

definition gate_init :: "nat \<Rightarrow> nat \<Rightarrow> gate_world" where
  "gate_init cap callers = \<lparr>gw_cap = cap, gw_gauge = 0, gw_pcs = replicate callers GIdle\<rparr>"

fun wins :: "nat \<Rightarrow> gate_pc \<Rightarrow> nat" where
  "wins cap GIdle = 0"
| "wins cap (Added prev) = (if prev < cap then 1 else 0)"
| "wins cap Holding = 1"

fun busy :: "gate_pc \<Rightarrow> nat" where
  "busy GIdle = 0"
| "busy _ = 1"

definition gate_inv :: "gate_world \<Rightarrow> bool" where
  "gate_inv w \<longleftrightarrow> length (gw_pcs w) \<le> u64_max \<and> gw_gauge w = sum_list (map busy (gw_pcs w)) \<and>
     sum_list (map (wins (gw_cap w)) (gw_pcs w)) \<le> gw_cap w"

lemma wins_le_busy: "wins cap pc \<le> busy pc"
  by (cases pc) simp_all

lemma busy_le_1: "busy pc \<le> 1"
  by (cases pc) simp_all

lemma busy_sum_le: "sum_list (map busy pcs) \<le> length pcs"
proof (induction pcs)
  case (Cons pc pcs)
  then show ?case using busy_le_1 [of pc] by simp
qed simp

lemma busy_sum_lt:
  assumes "i < length pcs" and "pcs ! i = GIdle"
  shows "sum_list (map busy pcs) < length pcs"
  using sum_list_update_nat [of i pcs busy Holding] busy_sum_le [of "pcs[i := Holding]"] assms by simp

lemma gate_inv_step:
  assumes "gate_step w w'" and "gate_inv w"
  shows "gate_inv w'"
  using assms
proof (induction rule: gate_step.induct)
  case (gate_add i w)
  note up = sum_list_update_nat [OF gate_add.hyps(1)]
  have "sum_list (map (wins (gw_cap w)) (gw_pcs w)) \<le> sum_list (map busy (gw_pcs w))"
    by (intro sum_list_mono wins_le_busy)
  moreover have "Suc (gw_gauge w) \<le> u64_max"
    using gate_add busy_sum_lt by (fastforce simp: gate_inv_def)
  ultimately show ?case
    using gate_add up [of busy "Added (gw_gauge w)"] up [of "wins (gw_cap w)" "Added (gw_gauge w)"]
    by (auto simp: gate_inv_def)
next
  case (gate_reject i w prev)
  note up = sum_list_update_nat [OF gate_reject.hyps(1)]
  have "gw_gauge w \<le> u64_max"
    using gate_reject.prems busy_sum_le [of "gw_pcs w"] by (auto simp: gate_inv_def)
  then show ?case
    using gate_reject up [of busy GIdle] up [of "wins (gw_cap w)" GIdle]
    by (auto simp: gate_inv_def wrap_sub64_id)
next
  case (gate_admit i w prev)
  note up = sum_list_update_nat [OF gate_admit.hyps(1)]
  show ?case
    using gate_admit up [of busy Holding] up [of "wins (gw_cap w)" Holding] by (auto simp: gate_inv_def)
next
  case (gate_close i w)
  note up = sum_list_update_nat [OF gate_close.hyps(1)]
  have "gw_gauge w \<le> u64_max"
    using gate_close.prems busy_sum_le [of "gw_pcs w"] by (auto simp: gate_inv_def)
  then show ?case
    using gate_close up [of busy GIdle] up [of "wins (gw_cap w)" GIdle]
    by (auto simp: gate_inv_def wrap_sub64_id)
qed

lemma gate_step_cap: "gate_step w w' \<Longrightarrow> gw_cap w' = gw_cap w"
  by (induction rule: gate_step.induct) simp_all

lemma gate_inv_reach:
  assumes "gate_step\<^sup>*\<^sup>* (gate_init cap callers) w" and "callers \<le> u64_max"
  shows "gate_inv w \<and> gw_cap w = cap"
  using assms(1)
proof (induction rule: rtranclp_induct)
  case base
  show ?case using assms(2) by (simp add: gate_init_def gate_inv_def sum_list_replicate)
next
  case (step y z)
  then show ?case using gate_inv_step [OF step.hyps(2)] gate_step_cap [OF step.hyps(2)] by simp
qed

section \<open>Properties\<close>

text \<open>C5 (gauges_count_live_guards): after every sequence of admissions, closings, shaped
  datagrams, installs, hot reloads and removals on both registries, every live-connection
  gauge equals (modulo the 64-bit wrap) the number of live guards that count on it. In
  particular a hot reload neither loses nor duplicates a live connection.\<close>

theorem gauges_count_live_guards:
  "let w = foldl rl_event_step world_init evs in counts (rw_store w) (guards w)"
  using world_inv_reach by (simp add: world_inv_def)

text \<open>C7 (layered_caps_respected): in every reachable state, when the layered gate admits a
  connection, the ceiling of the owner's limiter and the ceiling of the rule's limiter both
  hold for the live guards including the new ones.\<close>

theorem layered_caps_respected:
  assumes "w = foldl rl_event_step world_init evs"
    and "length (guards w) < u64_max"
    and "try_acquire_layered (rw_store w) owner rule udp now = (st', LayerGranted og rg)"
    and "l \<in> set (guards_of (og, rg))"
    and "lim_concurrent_max (limiter_at st' l) = Some cap"
  shows "live st' (guards_of (og, rg) @ guards w) (gauge_of st' l) \<le> cap"
proof -
  have "counts (rw_store w) (guards w)" "disjoint_gauges (rw_store w)"
    using world_inv_reach [of evs] assms(1) by (simp_all add: world_inv_def)
  from layered_caps [OF this assms(2-4)] show ?thesis
    using assms(5) by (simp add: caps_hold_def)
qed

definition one_conn :: RateLimit where
  "one_conn = \<lparr>bandwidth_in_bps = None, bandwidth_out_bps = None, new_connections_per_sec = None,
     concurrent_connections = Some 1, bandwidth_in_burst = None, bandwidth_out_burst = None,
     new_connections_burst = None\<rparr>"

definition one_conn_world :: rl_world where
  "one_conn_world = foldl rl_event_step world_init [InstallRule 7 (Some one_conn) 0]"

lemmas one_conn_eval = one_conn_world_def world_init_def store_empty_def one_conn_def rule_install_def
  alloc_fresh_def from_envelope_def fresh_bucket_u64_def fresh_bucket_u32_def try_acquire_layered_def
  rule_layer_def rule_try_acquire_def rule_get_def try_acquire_def rate_gate_def concurrent_gate_def
  active_connections_def gauge_add_def gauge_of_def limiter_at_def guards_def wrap64_def u64_max_def
  guards_of_def opt_list_def

theorem layered_caps_respected_witness:
  "live (fst (try_acquire_layered (rw_store one_conn_world) None (Some 7) False 5))
     (guards_of (None, Some 0) @ guards one_conn_world) 0 \<le> 1"
proof -
  let ?la = "try_acquire_layered (rw_store one_conn_world) None (Some 7) False 5"
  have la: "?la = (fst ?la, LayerGranted None (Some 0))"
    by (simp add: one_conn_eval)
  have g: "gauge_of (fst ?la) 0 = 0" "lim_concurrent_max (limiter_at (fst ?la) 0) = Some 1"
    "length (guards one_conn_world) < u64_max" "0 \<in> set (guards_of (None, Some (0 :: nat)))"
    by (simp_all add: one_conn_eval)
  from layered_caps_respected [OF one_conn_world_def g(3) la g(4) g(2)] show ?thesis
    by (simp only: g(1))
qed

text \<open>In every reachable state, a rejection by either layer
  leaves every gauge exactly as it was (the owner slot claimed before a rule-side rejection
  is given back), and the reported reason belongs to the layer that refused.\<close>

lemma layered_rejection_releases:
  assumes "try_acquire_layered (rw_store (foldl rl_event_step world_init evs)) owner rule udp now = (st', r)"
  shows "case r of
     LayerGranted og rg \<Rightarrow> True
   | OwnerRejected reason \<Rightarrow>
       sl_gauges st' = sl_gauges (rw_store (foldl rl_event_step world_init evs)) \<and> is_owner_scope reason
   | RuleRejected reason \<Rightarrow>
       sl_gauges st' = sl_gauges (rw_store (foldl rl_event_step world_init evs)) \<and> \<not> is_owner_scope reason"
proof -
  have c: "counts (rw_store (foldl rl_event_step world_init evs)) (guards (foldl rl_event_step world_init evs))"
    using world_inv_reach by (simp add: world_inv_def)
  show ?thesis
    using layered_counts [OF c assms] counts_gauges_eq [OF c] by (cases r) auto
qed

definition busy_events :: "rl_event list" where
  "busy_events = [InstallOwner ''alice'' (Some (one_conn\<lparr>concurrent_connections := Some 9\<rparr>)) 0,
     InstallRule 7 (Some one_conn) 0, Admit None (Some 7) False 0]"

text \<open>When the concurrent ceiling refuses a
  connection, the connection-rate token has already been spent, although the documentation
  of the rejected outcome says that no state was mutated.\<close>

lemma concurrent_rejection_spends_token:
  assumes "l < length (sl_limiters st)"
    and "lim_new_connections (limiter_at st l) = Some b"
    and "try_acquire st l scope udp now = (st', ConnRejected (concurrent_reject_reason scope))"
  shows "\<exists>b'. lim_new_connections (limiter_at st' l) = Some b' \<and>
     tokens b' + 1 = tokens (tb_refill b (now_micros b now))"
proof -
  have ne: "rate_reject_reason scope udp \<noteq> concurrent_reject_reason scope"
    by (cases scope; cases udp) simp_all
  obtain b' r where a: "acquire b 1 now = (b', r)" by fastforce
  let ?st1 = "st\<lparr>sl_limiters := (sl_limiters st)[l := (limiter_at st l)\<lparr>lim_new_connections := Some b'\<rparr>]\<rparr>"
  have g: "rate_gate st l now = (?st1, r = Granted)"
    using assms(2) a by (simp add: rate_gate_def Let_def)
  have r: "r = Granted" and c: "concurrent_gate ?st1 l scope = (st', ConnRejected (concurrent_reject_reason scope))"
    using assms(3) ne by (auto simp: try_acquire_def g split: if_splits)
  have "sl_limiters st' = sl_limiters ?st1"
    using c by (auto simp: concurrent_gate_def Let_def gauge_add_def gauge_sub_def split: option.splits if_splits)
  then have "lim_new_connections (limiter_at st' l) = Some b'"
    using assms(1) by (simp add: limiter_at_def)
  moreover have "tokens b' + 1 = tokens (tb_refill b (now_micros b now))"
    using a r by (auto simp: acquire_def tb_debit_def Let_def split: if_splits)
  ultimately show ?thesis by blast
qed

definition full_store :: rl_store where
  "full_store = \<lparr>sl_limiters = [\<lparr>lim_bandwidth_in = None, lim_bandwidth_out = None,
       lim_new_connections = Some (tb_new 5 5 0), lim_concurrent_max = Some 1, lim_active_connections = 0\<rparr>],
     sl_gauges = [1], sl_rules = [7 \<mapsto> 0], sl_owners = Map.empty\<rparr>"

text \<open>In both registries the caps in force for a key are those
  of the last install, hot reload or removal of that key, whatever was done to other keys
  before or after it; operations on one registry entry never change another.\<close>

lemma registry_last_write_wins:
  assumes "\<forall>y \<in> set ys. reg_key y \<noteq> reg_key x" and "\<forall>y \<in> set ys'. reg_key y \<noteq> reg_key x'"
  shows "rule_caps (foldl (reg_apply rule_put rule_remove) store_empty (xs @ x # ys)) (reg_key x) =
      reg_effect envelope_caps x \<and>
    owner_caps (foldl (reg_apply owner_put owner_remove) store_empty (xs' @ x' # ys')) (reg_key x') =
      reg_effect envelope_caps x'"
  using rule_reg.last_write_wins [OF rule_reg.invar_empty assms(1)]
    owner_reg.last_write_wins [OF owner_reg.invar_empty assms(2)] by blast

text \<open>Hot-reloading a rule that has a limiter gives it the new
  ceiling, keeps the very same gauge (so live connections keep counting) and carries the
  token pool over, cut to the new burst: no free burst, and never more than the new burst.\<close>

lemma reload_carries_state:
  assumes "store_wf st" and "sl_rules st k = Some p"
  shows "\<exists>l. rule_get (rule_update st k (Some rl) now) k = Some l \<and>
     gauge_of (rule_update st k (Some rl) now) l = gauge_of st p \<and>
     active_connections (rule_update st k (Some rl) now) l = active_connections st p \<and>
     lim_concurrent_max (limiter_at (rule_update st k (Some rl) now) l) = concurrent_connections rl \<and>
     (\<forall>b r. lim_bandwidth_in (limiter_at st p) = Some b \<longrightarrow> bandwidth_in_bps rl = Some r \<longrightarrow>
        (\<exists>b'. lim_bandwidth_in (limiter_at (rule_update st k (Some rl) now) l) = Some b' \<and>
              rate_per_sec b' = r \<and> tokens b' = min (tokens b) (burst b')))"
proof -
  let ?st = "put_rule (alloc_carry st p rl now) k"
  have st: "rule_update st k (Some rl) now = ?st"
    using assms(2) by (simp add: registry_unfold)
  have lim: "limiter_at ?st (length (sl_limiters st)) = lim_with_carryover (limiter_at st p) rl now"
    "sl_gauges ?st = sl_gauges st" "rule_get ?st k = Some (length (sl_limiters st))"
    by (simp_all add: put_rule_def limiter_at_def rule_get_def)
  then show ?thesis
    unfolding st by (intro exI [of _ "length (sl_limiters st)"])
      (auto simp: gauge_of_def active_connections_def lim_with_carryover_def carry_bucket_u64_def
        tb_with_carryover_def Let_def)
qed

text \<open>C8 (ceiling_never_overshoots): with any number of callers interleaving \<open>fetch_add\<close>,
  comparison, \<open>fetch_sub\<close> and guard drops, the guards held at any moment never exceed the
  ceiling: fetch-then-compare is a hard cap, not only a soft one.\<close>

theorem ceiling_never_overshoots:
  assumes "gate_step\<^sup>*\<^sup>* (gate_init cap callers) w" and "callers \<le> u64_max"
  shows "length (filter (\<lambda>pc. pc = Holding) (gw_pcs w)) \<le> cap"
proof -
  have "length (filter (\<lambda>pc. pc = Holding) pcs) \<le> sum_list (map (wins cap) pcs)" for pcs
    by (induction pcs) (auto simp: le_SucI)
  then show ?thesis
    using gate_inv_reach [OF assms] by (auto simp: gate_inv_def intro: order_trans)
qed

theorem ceiling_never_overshoots_witness:
  "length (filter (\<lambda>pc. pc = Holding) [Holding, Added 1]) \<le> 1"
proof -
  let ?w = "\<lambda>g a b. \<lparr>gw_cap = 1, gw_gauge = g, gw_pcs = [a, b]\<rparr>"
  have i: "gate_init 1 2 = ?w 0 GIdle GIdle"
    by (simp add: gate_init_def numeral_2_eq_2)
  have "gate_step (?w 0 GIdle GIdle) (?w 1 (Added 0) GIdle)"
    using gate_add [of 0 "?w 0 GIdle GIdle"] by (simp add: wrap64_def u64_max_def)
  moreover have "gate_step (?w 1 (Added 0) GIdle) (?w 2 (Added 0) (Added 1))"
    using gate_add [of 1 "?w 1 (Added 0) GIdle"] by (simp add: wrap64_def u64_max_def numeral_2_eq_2)
  moreover have "gate_step (?w 2 (Added 0) (Added 1)) (?w 2 Holding (Added 1))"
    using gate_admit [of 0 "?w 2 (Added 0) (Added 1)" 0] by simp
  ultimately have "gate_step\<^sup>*\<^sup>* (gate_init 1 2) (?w 2 Holding (Added 1))"
    unfolding i by (meson converse_rtranclp_into_rtranclp rtranclp.rtrancl_refl)
  from ceiling_never_overshoots [OF this] show ?thesis
    by (simp add: u64_max_def)
qed

end
