(* ===== verification/Rate_Stats.thy ===== *)
theory Rate_Stats
  imports Rate_Scope
begin

text \<open>
  Cumulative rate-limit counters (rate_limit/stats.rs), their sparse snapshot, and the
  per-owner registry of accumulators (OwnerRateLimitStatsRegistry in scope.rs). Counters are
  \<open>u64\<close> with the wrap-around of \<open>fetch_add\<close>. Accumulators are shared by \<open>Arc\<close>, so the
  registry maps an owner to an index into an arena of accumulators.
\<close>

section \<open>Definitions\<close>

datatype RateLimitRejectReason =
    SnapUnspecified
  | SnapConnConcurrent
  | SnapConnRate
  | SnapUdpFlowRate
  | SnapOwnerConcurrent
  | SnapOwnerConnRate
  | SnapOwnerUdpFlowRate

record RateLimitStatsSnapshot =
  snap_reject_total :: "(RateLimitRejectReason \<times> nat) list"
  snap_throttle_micros_in :: nat
  snap_throttle_micros_out :: nat
  snap_active_connections :: nat

definition REJECT_REASON_COUNT :: nat where
  "REJECT_REASON_COUNT = 6"

fun reason_index :: "RejectReason \<Rightarrow> nat" where
  "reason_index ConnConcurrent = 0"
| "reason_index ConnRate = 1"
| "reason_index UdpFlowRate = 2"
| "reason_index OwnerConcurrent = 3"
| "reason_index OwnerConnRate = 4"
| "reason_index OwnerUdpFlowRate = 5"

text \<open>\<open>None\<close> is the \<open>unreachable!\<close> branch.\<close>

definition reason_from_index :: "nat \<Rightarrow> RejectReason option" where
  "reason_from_index idx =
     (if idx = 0 then Some ConnConcurrent
      else if idx = 1 then Some ConnRate
      else if idx = 2 then Some UdpFlowRate
      else if idx = 3 then Some OwnerConcurrent
      else if idx = 4 then Some OwnerConnRate
      else if idx = 5 then Some OwnerUdpFlowRate
      else None)"

fun reason_to_snapshot :: "RejectReason \<Rightarrow> RateLimitRejectReason" where
  "reason_to_snapshot ConnConcurrent = SnapConnConcurrent"
| "reason_to_snapshot ConnRate = SnapConnRate"
| "reason_to_snapshot UdpFlowRate = SnapUdpFlowRate"
| "reason_to_snapshot OwnerConcurrent = SnapOwnerConcurrent"
| "reason_to_snapshot OwnerConnRate = SnapOwnerConnRate"
| "reason_to_snapshot OwnerUdpFlowRate = SnapOwnerUdpFlowRate"

record RateLimitStatsAccumulator =
  acc_reject_total_by_reason :: "nat list"
  acc_throttle_micros_in :: nat
  acc_throttle_micros_out :: nat
  acc_active_connections :: nat

definition acc_new :: RateLimitStatsAccumulator where
  "acc_new = \<lparr>acc_reject_total_by_reason = replicate REJECT_REASON_COUNT 0,
     acc_throttle_micros_in = 0, acc_throttle_micros_out = 0, acc_active_connections = 0\<rparr>"

definition record_reject :: "RateLimitStatsAccumulator \<Rightarrow> RejectReason \<Rightarrow> RateLimitStatsAccumulator" where
  "record_reject acc reason =
     (let idx = reason_index reason; slots = acc_reject_total_by_reason acc in
      acc\<lparr>acc_reject_total_by_reason := slots[idx := wrap64 (slots ! idx + 1)]\<rparr>)"

fun record_throttle ::
  "RateLimitStatsAccumulator \<Rightarrow> BandwidthDirection \<Rightarrow> nat \<Rightarrow> RateLimitStatsAccumulator" where
  "record_throttle acc DirIn micros =
     acc\<lparr>acc_throttle_micros_in := wrap64 (acc_throttle_micros_in acc + micros)\<rparr>"
| "record_throttle acc DirOut micros =
     acc\<lparr>acc_throttle_micros_out := wrap64 (acc_throttle_micros_out acc + micros)\<rparr>"

definition set_active_connections :: "RateLimitStatsAccumulator \<Rightarrow> nat \<Rightarrow> RateLimitStatsAccumulator" where
  "set_active_connections acc n = acc\<lparr>acc_active_connections := n\<rparr>"

definition reject_total :: "RateLimitStatsAccumulator \<Rightarrow> RejectReason \<Rightarrow> nat" where
  "reject_total acc reason = acc_reject_total_by_reason acc ! reason_index reason"

fun throttle_micros :: "RateLimitStatsAccumulator \<Rightarrow> BandwidthDirection \<Rightarrow> nat" where
  "throttle_micros acc DirIn = acc_throttle_micros_in acc"
| "throttle_micros acc DirOut = acc_throttle_micros_out acc"

text \<open>The loop over the slots; \<open>None\<close> propagates the \<open>unreachable!\<close>.\<close>

fun drain_rejects :: "nat \<Rightarrow> nat list \<Rightarrow> (RateLimitRejectReason \<times> nat) list option" where
  "drain_rejects idx [] = Some []"
| "drain_rejects idx (cnt # slots) =
     (if cnt = 0 then drain_rejects (Suc idx) slots
      else case reason_from_index idx of
        None \<Rightarrow> None
      | Some reason \<Rightarrow>
          map_option (\<lambda>rest. (reason_to_snapshot reason, cnt) # rest) (drain_rejects (Suc idx) slots))"

text \<open>\<open>acc_drain\<close>: the outer option is the panic, the inner one the \<open>Option\<close> returned.\<close>

definition acc_drain :: "RateLimitStatsAccumulator \<Rightarrow> RateLimitStatsSnapshot option option" where
  "acc_drain acc =
     (case drain_rejects 0 (acc_reject_total_by_reason acc) of
        None \<Rightarrow> None
      | Some rejects \<Rightarrow>
          (let throttle_in = acc_throttle_micros_in acc;
               throttle_out = acc_throttle_micros_out acc;
               active = acc_active_connections acc
           in if rejects = [] \<and> throttle_in = 0 \<and> throttle_out = 0 \<and> active = 0 then Some None
              else Some (Some
                \<lparr>snap_reject_total = rejects, snap_throttle_micros_in = throttle_in,
                 snap_throttle_micros_out = throttle_out,
                 snap_active_connections = (if active \<le> u32_max then active else u32_max)\<rparr>)))"

record OwnerRateLimitStatsRegistry =
  osr_accs :: "RateLimitStatsAccumulator list"
  osr_owners :: "(string \<times> nat) list"

definition osr_new :: OwnerRateLimitStatsRegistry where
  "osr_new = \<lparr>osr_accs = [], osr_owners = []\<rparr>"

definition get_or_create ::
  "OwnerRateLimitStatsRegistry \<Rightarrow> string \<Rightarrow> OwnerRateLimitStatsRegistry \<times> nat" where
  "get_or_create reg owner_id =
     (case map_of (osr_owners reg) owner_id of
        Some existing \<Rightarrow> (reg, existing)
      | None \<Rightarrow>
          (\<lparr>osr_accs = osr_accs reg @ [acc_new],
            osr_owners = (owner_id, length (osr_accs reg)) # osr_owners reg\<rparr>, length (osr_accs reg)))"

fun osr_drain_from ::
  "RateLimitStatsAccumulator list \<Rightarrow> (string \<times> nat) list \<Rightarrow> (string \<times> RateLimitStatsSnapshot) list option" where
  "osr_drain_from accs [] = Some []"
| "osr_drain_from accs ((owner_id, r) # rest) =
     (case acc_drain (accs ! r) of
        None \<Rightarrow> None
      | Some None \<Rightarrow> osr_drain_from accs rest
      | Some (Some stats) \<Rightarrow> map_option (\<lambda>out. (owner_id, stats) # out) (osr_drain_from accs rest))"

definition osr_drain :: "OwnerRateLimitStatsRegistry \<Rightarrow> (string \<times> RateLimitStatsSnapshot) list option" where
  "osr_drain reg = osr_drain_from (osr_accs reg) (osr_owners reg)"

definition osr_remove :: "OwnerRateLimitStatsRegistry \<Rightarrow> string \<Rightarrow> OwnerRateLimitStatsRegistry" where
  "osr_remove reg owner_id = reg\<lparr>osr_owners := filter (\<lambda>p. fst p \<noteq> owner_id) (osr_owners reg)\<rparr>"

section \<open>Lemmas\<close>

definition acc_wf :: "RateLimitStatsAccumulator \<Rightarrow> bool" where
  "acc_wf acc \<longleftrightarrow> length (acc_reject_total_by_reason acc) = REJECT_REASON_COUNT"

lemma reason_round_trip [simp]: "reason_from_index (reason_index r) = Some r"
  by (cases r) (simp_all add: reason_from_index_def)

lemma reason_from_index_iff: "reason_from_index i = Some r \<longleftrightarrow> i = reason_index r"
  by (cases r) (auto simp: reason_from_index_def)

lemma reason_index_lt: "reason_index r < REJECT_REASON_COUNT"
  by (cases r) (simp_all add: REJECT_REASON_COUNT_def)

lemma reason_from_index_lt: "i < REJECT_REASON_COUNT \<Longrightarrow> \<exists>r. reason_from_index i = Some r"
  by (auto simp: reason_from_index_def REJECT_REASON_COUNT_def)

lemma reason_to_snapshot_inj: "reason_to_snapshot a = reason_to_snapshot b \<longleftrightarrow> a = b"
  by (cases a; cases b) simp_all

lemma acc_wf_ops [simp]:
  "acc_wf acc_new" "acc_wf acc \<Longrightarrow> acc_wf (record_reject acc r)"
  "acc_wf acc \<Longrightarrow> acc_wf (record_throttle acc d m)" "acc_wf acc \<Longrightarrow> acc_wf (set_active_connections acc n)"
  by (cases d; simp add: acc_wf_def acc_new_def record_reject_def Let_def set_active_connections_def)+

text \<open>\<open>drained i slots out\<close>: \<open>out\<close> lists exactly the non-zero slots, the first of which has
  index \<open>i\<close>.\<close>

definition slot_has :: "nat \<Rightarrow> nat list \<Rightarrow> RejectReason \<Rightarrow> nat \<Rightarrow> bool" where
  "slot_has i slots r n \<longleftrightarrow> i \<le> reason_index r \<and> reason_index r < i + length slots \<and>
     slots ! (reason_index r - i) = n \<and> n \<noteq> 0"

definition drained :: "nat \<Rightarrow> nat list \<Rightarrow> (RateLimitRejectReason \<times> nat) list \<Rightarrow> bool" where
  "drained i slots out \<longleftrightarrow> set out = {(reason_to_snapshot r, n) | r n. slot_has i slots r n}"

lemma slot_has_Cons:
  assumes "reason_from_index i = Some ri"
  shows "slot_has i (t # slots) r n \<longleftrightarrow> (r = ri \<and> t = n \<and> n \<noteq> 0) \<or> slot_has (Suc i) slots r n"
proof (cases "r = ri")
  case True
  then show ?thesis using assms by (auto simp: slot_has_def reason_from_index_iff)
next
  case False
  then have "reason_index r \<noteq> i" using assms reason_round_trip [of r] by auto
  then show ?thesis using False by (cases "i < reason_index r") (auto simp: slot_has_def nth_Cons')
qed

lemma drained_Cons:
  assumes "drained (Suc i) slots out" and "reason_from_index i = Some ri"
  shows "drained i (t # slots) (if t = 0 then out else (reason_to_snapshot ri, t) # out)"
  using assms(1) unfolding drained_def slot_has_Cons [OF assms(2)] by auto

lemma drain_rejects_spec:
  "i + length slots \<le> REJECT_REASON_COUNT \<Longrightarrow> \<exists>out. drain_rejects i slots = Some out \<and> drained i slots out"
proof (induction slots arbitrary: i)
  case Nil
  then show ?case by (simp add: drained_def slot_has_def)
next
  case (Cons t slots)
  then have "Suc i + length slots \<le> REJECT_REASON_COUNT" by simp
  from Cons.IH [OF this] obtain out where
    IH: "drain_rejects (Suc i) slots = Some out" "drained (Suc i) slots out" by blast
  obtain ri where "reason_from_index i = Some ri"
    using reason_from_index_lt [of i] Cons.prems by auto
  with drained_Cons [OF IH(2) this, of t] IH(1) show ?case by (cases "t = 0") simp_all
qed

text \<open>Draining an accumulator never hits the unreachable branch; it
  returns nothing exactly when no counter is set, and otherwise reports exactly the reasons
  with a non-zero count, each with its count, next to the throttle times and the gauge.\<close>

lemma stats_drain_exact:
  assumes "acc_wf acc"
  shows "(acc_drain acc = Some None \<longleftrightarrow>
      (\<forall>r. reject_total acc r = 0) \<and> throttle_micros acc DirIn = 0 \<and> throttle_micros acc DirOut = 0 \<and>
      acc_active_connections acc = 0) \<and>
    (acc_drain acc \<noteq> Some None \<longrightarrow>
      (\<exists>snap. acc_drain acc = Some (Some snap) \<and>
        (\<forall>r n. (reason_to_snapshot r, n) \<in> set (snap_reject_total snap) \<longleftrightarrow> n = reject_total acc r \<and> n \<noteq> 0) \<and>
        snap_throttle_micros_in snap = throttle_micros acc DirIn \<and>
        snap_throttle_micros_out snap = throttle_micros acc DirOut))"
proof -
  obtain out where out: "drain_rejects 0 (acc_reject_total_by_reason acc) = Some out"
    and dr: "drained 0 (acc_reject_total_by_reason acc) out"
    using drain_rejects_spec [of 0 "acc_reject_total_by_reason acc"] assms by (auto simp: acc_wf_def)
  have mem': "(reason_to_snapshot r, n) \<in> set out \<longleftrightarrow> n = reject_total acc r \<and> n \<noteq> 0" for r n
    using dr reason_index_lt [of r] assms
    by (auto simp: drained_def slot_has_def acc_wf_def reject_total_def reason_to_snapshot_inj)
  have dom: "\<forall>p \<in> set out. \<exists>r. fst p = reason_to_snapshot r"
    using dr by (auto simp: drained_def)
  have empty: "out = [] \<longleftrightarrow> (\<forall>r. reject_total acc r = 0)"
  proof
    assume "out = []"
    then show "\<forall>r. reject_total acc r = 0" using mem' by (metis empty_iff list.set(1))
  next
    assume z: "\<forall>r. reject_total acc r = 0"
    show "out = []"
    proof (rule ccontr)
      assume "out \<noteq> []"
      then obtain s n where "(s, n) \<in> set out" by (metis list.set_intros(1) neq_Nil_conv surj_pair)
      then show False using dom mem' z by fastforce
    qed
  qed
  show ?thesis
    using out empty mem' by (auto simp: acc_drain_def Let_def)
qed

lemma get_or_create_stable:
  "get_or_create reg o1 = (reg', r) \<Longrightarrow> get_or_create reg' o1 = (reg', r)"
  by (auto simp: get_or_create_def split: option.splits)

end
