(* ===== verification/Quota.thy ===== *)
theory Quota
  imports Prelude
begin

text \<open>
  Per-user traffic quotas on the data plane: the byte budget of quota/mod.rs with its
  saturating compare-exchange loop, the registry of quota/scope.rs, and the pre-debiting
  copy loop of quota/copy.rs. Budgets are \<open>i64\<close> values, modelled as integers. A handle is
  shared by \<open>Arc\<close>, so the registry maps users to indices of an arena of handles.
\<close>

section \<open>The budget handle (quota/mod.rs)\<close>

record QuotaHandle =
  qh_user_id :: string
  qh_client_name :: string
  qh_remaining :: int
  qh_exhausted :: bool

datatype ConsumeOutcome = QGranted | QExhausted

record QuotaState =
  qs_monthly_bytes :: int
  qs_budget_remaining_bytes :: int
  qs_exhausted :: bool

definition wrap_i64 :: "int \<Rightarrow> int" where
  "wrap_i64 x = (x + (i64_max + 1)) mod (2 * (i64_max + 1)) - (i64_max + 1)"

definition quota_new :: "string \<Rightarrow> string \<Rightarrow> QuotaState \<Rightarrow> QuotaHandle" where
  "quota_new user_id client_name state =
     (let init_remaining = max (qs_budget_remaining_bytes state) 0 in
      \<lparr>qh_user_id = user_id, qh_client_name = client_name, qh_remaining = init_remaining,
       qh_exhausted = (qs_exhausted state \<or> init_remaining = 0)\<rparr>)"

definition quota_replace :: "QuotaHandle \<Rightarrow> QuotaState \<Rightarrow> QuotaHandle" where
  "quota_replace q state =
     (let new_remaining = max (qs_budget_remaining_bytes state) 0 in
      q\<lparr>qh_remaining := new_remaining,
        qh_exhausted := (qs_exhausted state \<or> new_remaining = 0)\<rparr>)"

definition mark_exhausted :: "QuotaHandle \<Rightarrow> QuotaHandle" where
  "mark_exhausted q = q\<lparr>qh_exhausted := True\<rparr>"

definition consume :: "QuotaHandle \<Rightarrow> int \<Rightarrow> QuotaHandle \<times> ConsumeOutcome" where
  "consume q n =
     (if qh_exhausted q then (q, QExhausted)
      else let cur = qh_remaining q in
        if cur \<le> 0 then (mark_exhausted q, QExhausted)
        else let new = max (cur - n) 0;
                 q1 = q\<lparr>qh_remaining := new\<rparr>;
                 q2 = (if new = 0 then mark_exhausted q1 else q1)
             in (q2, if cur - n < 0 then QExhausted else QGranted))"

definition restore :: "QuotaHandle \<Rightarrow> int \<Rightarrow> QuotaHandle" where
  "restore q n =
     (if n = 0 then q
      else let prev = qh_remaining q;
               q1 = q\<lparr>qh_remaining := wrap_i64 (prev + n)\<rparr>
           in if min (max (prev + n) (- i64_max - 1)) i64_max > 0
              then q1\<lparr>qh_exhausted := False\<rparr> else q1)"

section \<open>The registry (quota/scope.rs)\<close>

record QuotaScopeManager =
  qm_handles :: "QuotaHandle list"
  qm_inner :: "string \<rightharpoonup> nat"

definition qm_new :: QuotaScopeManager where
  "qm_new = \<lparr>qm_handles = [], qm_inner = Map.empty\<rparr>"

definition qm_lookup :: "QuotaScopeManager \<Rightarrow> string \<Rightarrow> nat option" where
  "qm_lookup m user_id = qm_inner m user_id"

definition qm_install ::
  "QuotaScopeManager \<Rightarrow> string \<Rightarrow> string \<Rightarrow> QuotaState \<Rightarrow> QuotaScopeManager \<times> nat" where
  "qm_install m user_id client_name state =
     (case qm_inner m user_id of
        Some r \<Rightarrow> (m\<lparr>qm_handles := (qm_handles m)[r := quota_replace (qm_handles m ! r) state]\<rparr>, r)
      | None \<Rightarrow>
          (m\<lparr>qm_handles := qm_handles m @ [quota_new user_id client_name state],
             qm_inner := (qm_inner m)(user_id \<mapsto> length (qm_handles m))\<rparr>, length (qm_handles m)))"

definition qm_remove :: "QuotaScopeManager \<Rightarrow> string \<Rightarrow> QuotaScopeManager \<times> nat option" where
  "qm_remove m user_id = (m\<lparr>qm_inner := (qm_inner m)(user_id := None)\<rparr>, qm_inner m user_id)"

section \<open>The quota copy loop (quota/copy.rs)\<close>

definition COPY_BUF_SIZE :: nat where
  "COPY_BUF_SIZE = 65536"

text \<open>What the sockets do in one round: how many bytes are ready when \<open>read\<close> is called (none
  means end of stream), or a read error; and whether \<open>write_all\<close> succeeds or fails after
  some bytes. The peer's remaining input is \<open>cs_input\<close>, the bytes handed to the other side
  \<open>cs_output\<close>.\<close>

datatype read_event = ReadReady nat | ReadFails

datatype write_event = WriteAll | WriteFails nat

datatype copy_exit = CopyDone nat | CopyErr | CopyPending

definition read_size :: "nat \<Rightarrow> nat \<Rightarrow> string \<Rightarrow> nat" where
  "read_size ready buf input = min (min ready buf) (length input)"

record copy_state =
  cs_input :: string
  cs_output :: string
  cs_total :: nat
  cs_quota :: QuotaHandle
  cs_shutdown :: bool

fun copy_one_dir :: "(read_event \<times> write_event) list \<Rightarrow> copy_state \<Rightarrow> copy_state \<times> copy_exit" where
  "copy_one_dir [] s = (s, CopyPending)"
| "copy_one_dir ((rd, wr) # rounds) s =
     (if qh_exhausted (cs_quota s) then (s\<lparr>cs_shutdown := True\<rparr>, CopyDone (cs_total s))
      else case rd of
        ReadFails \<Rightarrow> (s, CopyErr)
      | ReadReady k \<Rightarrow>
          (let n = read_size k COPY_BUF_SIZE (cs_input s);
               chunk = take n (cs_input s)
           in if n = 0 then (s\<lparr>cs_shutdown := True\<rparr>, CopyDone (cs_total s))
              else case consume (cs_quota s) (int n) of
                (q, QGranted) \<Rightarrow>
                  (let s1 = s\<lparr>cs_quota := q, cs_input := drop n (cs_input s)\<rparr> in
                   case wr of
                     WriteAll \<Rightarrow>
                       copy_one_dir rounds
                         (s1\<lparr>cs_output := cs_output s @ chunk, cs_total := sat_add64 (cs_total s) n\<rparr>)
                   | WriteFails j \<Rightarrow> (s1\<lparr>cs_output := cs_output s @ take j chunk\<rparr>, CopyErr))
              | (q, QExhausted) \<Rightarrow>
                  (s\<lparr>cs_quota := q, cs_input := drop n (cs_input s), cs_shutdown := True\<rparr>,
                   CopyDone (cs_total s))))"

section \<open>Interleaved consumers\<close>

text \<open>Consumers of one handle at the granularity of its atomics. \<open>QWrite n\<close> holds a granted
  claim whose bytes are not written yet; \<open>q_delivered\<close> counts the bytes written.
  \<open>q_ctl_step\<close> adds the control plane: \<open>replace\<close> stores the budget and then the flag, and
  \<open>restore\<close> refunds the unsent part of a claim and then clears the flag.\<close>

datatype q_pc =
    QIdle
  | QEntered nat
  | QCas nat int
  | QMark nat bool
  | QWrite nat
  | QStored int bool
  | QRefunded int nat

record q_world =
  q_remaining :: int
  q_flag :: bool
  q_delivered :: nat
  q_pcs :: "q_pc list"

inductive q_step :: "q_world \<Rightarrow> q_world \<Rightarrow> bool" where
  q_fast: "\<lbrakk>i < length (q_pcs w); q_pcs w ! i = QIdle; q_flag w\<rbrakk> \<Longrightarrow> q_step w w"
| q_enter: "\<lbrakk>i < length (q_pcs w); q_pcs w ! i = QIdle; \<not> q_flag w\<rbrakk>
    \<Longrightarrow> q_step w (w\<lparr>q_pcs := (q_pcs w)[i := QEntered n]\<rparr>)"
| q_empty: "\<lbrakk>i < length (q_pcs w); q_pcs w ! i = QEntered n; q_remaining w \<le> 0\<rbrakk>
    \<Longrightarrow> q_step w (w\<lparr>q_pcs := (q_pcs w)[i := QMark n False]\<rparr>)"
| q_load: "\<lbrakk>i < length (q_pcs w); q_pcs w ! i = QEntered n; 0 < q_remaining w\<rbrakk>
    \<Longrightarrow> q_step w (w\<lparr>q_pcs := (q_pcs w)[i := QCas n (q_remaining w)]\<rparr>)"
| q_cas_fail: "\<lbrakk>i < length (q_pcs w); q_pcs w ! i = QCas n cur\<rbrakk>
    \<Longrightarrow> q_step w (w\<lparr>q_pcs := (q_pcs w)[i := QEntered n]\<rparr>)"
| q_cas_last: "\<lbrakk>i < length (q_pcs w); q_pcs w ! i = QCas n cur; q_remaining w = cur; cur \<le> int n\<rbrakk>
    \<Longrightarrow> q_step w (w\<lparr>q_remaining := 0, q_pcs := (q_pcs w)[i := QMark n (cur = int n)]\<rparr>)"
| q_cas_some: "\<lbrakk>i < length (q_pcs w); q_pcs w ! i = QCas n cur; q_remaining w = cur; int n < cur\<rbrakk>
    \<Longrightarrow> q_step w (w\<lparr>q_remaining := cur - int n, q_pcs := (q_pcs w)[i := QWrite n]\<rparr>)"
| q_mark: "\<lbrakk>i < length (q_pcs w); q_pcs w ! i = QMark n granted\<rbrakk>
    \<Longrightarrow> q_step w (w\<lparr>q_flag := True, q_pcs := (q_pcs w)[i := (if granted then QWrite n else QIdle)]\<rparr>)"
| q_write: "\<lbrakk>i < length (q_pcs w); q_pcs w ! i = QWrite n; m \<le> n\<rbrakk>
    \<Longrightarrow> q_step w (w\<lparr>q_delivered := q_delivered w + m, q_pcs := (q_pcs w)[i := QIdle]\<rparr>)"

inductive q_ctl_step :: "q_world \<Rightarrow> q_world \<Rightarrow> bool" where
  q_data: "q_step w w' \<Longrightarrow> q_ctl_step w w'"
| q_replace: "\<lbrakk>i < length (q_pcs w); q_pcs w ! i = QIdle; new = max (qs_budget_remaining_bytes (st :: QuotaState)) 0\<rbrakk>
    \<Longrightarrow> q_ctl_step w (w\<lparr>q_remaining := new,
          q_pcs := (q_pcs w)[i := QStored new (qs_exhausted st \<or> new = 0)]\<rparr>)"
| q_replace_flag: "\<lbrakk>i < length (q_pcs w); q_pcs w ! i = QStored new fl\<rbrakk>
    \<Longrightarrow> q_ctl_step w (w\<lparr>q_flag := fl, q_pcs := (q_pcs w)[i := QIdle]\<rparr>)"
| q_refund: "\<lbrakk>i < length (q_pcs w); q_pcs w ! i = QWrite n; 0 < m; m \<le> n\<rbrakk>
    \<Longrightarrow> q_ctl_step w (w\<lparr>q_remaining := wrap_i64 (q_remaining w + int m),
          q_delivered := q_delivered w + (n - m),
          q_pcs := (q_pcs w)[i := QRefunded (q_remaining w) m]\<rparr>)"
| q_refund_flag: "\<lbrakk>i < length (q_pcs w); q_pcs w ! i = QRefunded prev n\<rbrakk>
    \<Longrightarrow> q_ctl_step w (w\<lparr>q_flag := (if min (prev + int n) i64_max > 0 then False else q_flag w),
          q_pcs := (q_pcs w)[i := QIdle]\<rparr>)"

definition q_init :: "nat \<Rightarrow> nat \<Rightarrow> q_world" where
  "q_init budget consumers =
     \<lparr>q_remaining = int budget, q_flag = (budget = 0), q_delivered = 0,
      q_pcs = replicate consumers QIdle\<rparr>"

section \<open>The contract of a byte budget\<close>

text \<open>What the copy loops rely on: a successful draw is fully covered and lowers what is left
  by its size, a failed draw never raises it, and what is left is never negative.\<close>

locale byte_budget =
  fixes invar :: "'b \<Rightarrow> bool"
    and left :: "'b \<Rightarrow> int"
    and draw :: "'b \<Rightarrow> nat \<Rightarrow> 'b \<times> bool"
  assumes invar_draw: "invar b \<Longrightarrow> invar (fst (draw b n))"
    and left_nonneg: "invar b \<Longrightarrow> 0 \<le> left b"
    and draw_ok: "invar b \<Longrightarrow> snd (draw b n) \<Longrightarrow> left (fst (draw b n)) = left b - int n"
    and draw_fail: "invar b \<Longrightarrow> \<not> snd (draw b n) \<Longrightarrow> left (fst (draw b n)) \<le> left b"
begin

fun draws :: "'b \<Rightarrow> nat list \<Rightarrow> 'b \<times> nat" where
  "draws b [] = (b, 0)"
| "draws b (n # ns) =
     (let (b1, ok) = draw b n; (b2, t) = draws b1 ns in (b2, if ok then n + t else t))"

lemma draws_bounded:
  "invar b \<Longrightarrow> invar (fst (draws b ns)) \<and> int (snd (draws b ns)) + left (fst (draws b ns)) \<le> left b"
proof (induction ns arbitrary: b)
  case Nil
  then show ?case by simp
next
  case (Cons n ns)
  obtain b1 ok where d: "draw b n = (b1, ok)" by fastforce
  have i: "invar b1" using invar_draw [OF Cons.prems, of n] d by simp
  have "left b1 \<le> left b - (if ok then int n else 0)"
    using draw_ok [OF Cons.prems, of n] draw_fail [OF Cons.prems, of n] d by auto
  then show ?case
    using Cons.IH [OF i] d by (auto simp: split_beta)
qed

lemma granted_le_left: "invar b \<Longrightarrow> int (snd (draws b ns)) \<le> left b"
  using draws_bounded [of b ns] left_nonneg [of "fst (draws b ns)"] by linarith

end

section \<open>The handle meets the contract\<close>

definition qh_inv :: "QuotaHandle \<Rightarrow> bool" where
  "qh_inv q \<longleftrightarrow> 0 \<le> qh_remaining q \<and> (qh_remaining q = 0 \<longrightarrow> qh_exhausted q)"

definition quota_draw :: "QuotaHandle \<Rightarrow> nat \<Rightarrow> QuotaHandle \<times> bool" where
  "quota_draw q n = (let (q', r) = consume q (int n) in (q', r = QGranted))"

lemma qh_inv_new [simp]: "qh_inv (quota_new u c st)"
  by (auto simp: qh_inv_def quota_new_def Let_def)

lemma qh_inv_replace [simp]: "qh_inv (quota_replace q st)"
  by (auto simp: qh_inv_def quota_replace_def Let_def)

lemma qh_inv_consume: "qh_inv q \<Longrightarrow> qh_inv (fst (consume q n))"
  by (auto simp: qh_inv_def consume_def mark_exhausted_def Let_def)

lemma qh_inv_restore:
  assumes "qh_inv q" and "0 \<le> n" and "qh_remaining q + n \<le> i64_max"
  shows "qh_inv (restore q n)"
proof -
  have "wrap_i64 (qh_remaining q + n) = qh_remaining q + n"
    using assms by (simp add: wrap_i64_def qh_inv_def i64_max_def)
  then show ?thesis
    using assms by (auto simp: qh_inv_def restore_def Let_def)
qed

lemma consume_cases:
  assumes "qh_inv q"
  shows "(snd (consume q (int n)) = QGranted \<and> qh_remaining (fst (consume q (int n))) = qh_remaining q - int n) \<or>
    (snd (consume q (int n)) = QExhausted \<and> qh_remaining (fst (consume q (int n))) \<le> qh_remaining q \<and>
     qh_exhausted (fst (consume q (int n))))"
  using assms by (auto simp: consume_def mark_exhausted_def Let_def qh_inv_def)

interpretation quota: byte_budget qh_inv qh_remaining quota_draw
proof
  fix q :: QuotaHandle and n :: nat
  assume inv: "qh_inv q"
  show "qh_inv (fst (quota_draw q n))"
    using qh_inv_consume [OF inv] by (simp add: quota_draw_def split_beta)
  show "0 \<le> qh_remaining q" using inv by (simp add: qh_inv_def)
  show "snd (quota_draw q n) \<Longrightarrow> qh_remaining (fst (quota_draw q n)) = qh_remaining q - int n"
    and "\<not> snd (quota_draw q n) \<Longrightarrow> qh_remaining (fst (quota_draw q n)) \<le> qh_remaining q"
    using consume_cases [OF inv, of n] by (auto simp: quota_draw_def split_beta)
qed

section \<open>The registry meets the registry contract\<close>

definition qm_wf :: "QuotaScopeManager \<Rightarrow> bool" where
  "qm_wf m \<longleftrightarrow> ran (qm_inner m) \<subseteq> {..<length (qm_handles m)} \<and> inj_on (qm_inner m) (dom (qm_inner m))"

definition qm_budget :: "QuotaScopeManager \<Rightarrow> string \<Rightarrow> (int \<times> bool) option" where
  "qm_budget m u =
     map_option (\<lambda>r. (qh_remaining (qm_handles m ! r), qh_exhausted (qm_handles m ! r))) (qm_lookup m u)"

definition qm_put :: "QuotaScopeManager \<Rightarrow> string \<Rightarrow> string \<times> QuotaState \<Rightarrow> QuotaScopeManager" where
  "qm_put m u e = fst (qm_install m u (fst e) (snd e))"

definition qm_del :: "QuotaScopeManager \<Rightarrow> string \<Rightarrow> QuotaScopeManager" where
  "qm_del m u = fst (qm_remove m u)"

definition state_budget :: "string \<times> QuotaState \<Rightarrow> int \<times> bool" where
  "state_budget e =
     (let r = max (qs_budget_remaining_bytes (snd e)) 0 in (r, qs_exhausted (snd e) \<or> r = 0))"

lemma qm_ref: "qm_wf m \<Longrightarrow> qm_inner m u = Some r \<Longrightarrow> r < length (qm_handles m)"
  by (auto simp: qm_wf_def ran_def)

lemma qm_inj: "qm_wf m \<Longrightarrow> qm_inner m u = Some r \<Longrightarrow> qm_inner m u' = Some r \<Longrightarrow> u' = u"
  unfolding qm_wf_def inj_on_def by (metis domI)

lemma qm_wf_put: "qm_wf m \<Longrightarrow> qm_wf (qm_put m u e)"
proof -
  assume wf: "qm_wf m"
  show ?thesis
  proof (cases "qm_inner m u")
    case (Some r)
    then show ?thesis using wf by (simp add: qm_put_def qm_install_def qm_wf_def)
  next
    case None
    let ?k = "length (qm_handles m)"
    have "ran ((qm_inner m)(u \<mapsto> ?k)) \<subseteq> {..<Suc ?k}"
      using wf by (auto simp: qm_wf_def ran_def less_Suc_eq split: if_splits)
    moreover have "inj_on ((qm_inner m)(u \<mapsto> ?k)) (dom ((qm_inner m)(u \<mapsto> ?k)))"
    proof (rule inj_onI)
      fix x y
      assume "x \<in> dom ((qm_inner m)(u \<mapsto> ?k))" "y \<in> dom ((qm_inner m)(u \<mapsto> ?k))"
        and eq: "((qm_inner m)(u \<mapsto> ?k)) x = ((qm_inner m)(u \<mapsto> ?k)) y"
      moreover have "qm_inner m z \<noteq> Some ?k" for z
        using qm_ref [OF wf, of z] by auto
      ultimately show "x = y"
        using qm_inj [OF wf] by (auto split: if_splits dest: sym)
    qed
    ultimately show ?thesis using None by (simp add: qm_put_def qm_install_def qm_wf_def)
  qed
qed

lemma qm_wf_del: "qm_wf m \<Longrightarrow> qm_wf (qm_del m u)"
  by (auto simp: qm_wf_def qm_del_def qm_remove_def ran_def inj_on_def dom_def split: if_splits)

lemma qm_budget_put:
  assumes wf: "qm_wf m"
  shows "qm_budget (qm_put m u e) u' = (if u' = u then Some (state_budget e) else qm_budget m u')"
proof (cases "qm_inner m u")
  case (Some r)
  have "r' \<noteq> r" if "u' \<noteq> u" "qm_inner m u' = Some r'" for r'
    using qm_inj [OF wf Some] that by auto
  then show ?thesis
    using Some qm_ref [OF wf Some]
    by (auto simp: qm_budget_def qm_lookup_def qm_put_def qm_install_def state_budget_def
        quota_replace_def Let_def map_option_case split: option.splits)
next
  case None
  then show ?thesis
    using qm_ref [OF wf]
    by (auto simp: qm_budget_def qm_lookup_def qm_put_def qm_install_def state_budget_def
        quota_new_def Let_def map_option_case nth_append split: option.splits)
qed

interpretation quota_reg: keyed_registry qm_new qm_wf qm_budget qm_put qm_del state_budget
proof
  show "qm_wf qm_new" by (simp add: qm_wf_def qm_new_def)
  show "qm_budget qm_new k = None" for k by (simp add: qm_budget_def qm_lookup_def qm_new_def)
  show "qm_budget (qm_del m k) k' = (if k' = k then None else qm_budget m k')" for m k k'
    by (simp add: qm_budget_def qm_lookup_def qm_del_def qm_remove_def)
qed (simp_all add: qm_wf_put qm_wf_del qm_budget_put)

section \<open>The interleaving keeps the budget\<close>

fun claim_of :: "q_pc \<Rightarrow> nat" where
  "claim_of (QWrite n) = n"
| "claim_of (QMark n True) = n"
| "claim_of _ = 0"

definition q_inv :: "nat \<Rightarrow> q_world \<Rightarrow> bool" where
  "q_inv budget w \<longleftrightarrow> 0 \<le> q_remaining w \<and>
     int (q_delivered w) + int (sum_list (map claim_of (q_pcs w))) + q_remaining w \<le> int budget"

lemma sum_list_update_int:
  fixes f :: "'a \<Rightarrow> nat"
  assumes "i < length xs"
  shows "int (sum_list (map f (xs[i := y]))) = int (sum_list (map f xs)) + int (f y) - int (f (xs ! i))"
  using assms
proof (induction xs arbitrary: i)
  case (Cons x xs)
  then show ?case by (cases i) simp_all
qed simp

lemma q_inv_step: "q_step w w' \<Longrightarrow> q_inv budget w \<Longrightarrow> q_inv budget w'"
proof (induction rule: q_step.induct)
  case (q_cas_last i w n cur)
  then show ?case
    by (cases "cur = int n") (simp_all add: q_inv_def sum_list_update_int)
next
  case (q_mark i w n granted)
  then show ?case by (cases granted) (simp_all add: q_inv_def sum_list_update_int)
qed (simp_all add: q_inv_def sum_list_update_int)

lemma q_inv_reach: "q_step\<^sup>*\<^sup>* (q_init budget k) w \<Longrightarrow> q_inv budget w"
proof (induction rule: rtranclp_induct)
  case base
  show ?case by (simp add: q_init_def q_inv_def sum_list_replicate)
next
  case (step y z)
  then show ?case using q_inv_step by blast
qed

section \<open>The copy loop keeps the budget\<close>

text \<open>What the loop promises of its final state relative to its start.\<close>

definition copy_rel :: "copy_state \<Rightarrow> copy_state \<Rightarrow> bool" where
  "copy_rel s s' \<longleftrightarrow> (\<exists>d rest. cs_output s' = cs_output s @ d \<and> cs_input s = d @ rest \<and>
     int (length d) + qh_remaining (cs_quota s') \<le> qh_remaining (cs_quota s)) \<and> qh_inv (cs_quota s')"

lemma copy_rel_stop:
  assumes "qh_inv (cs_quota s)"
  shows "copy_rel s (s\<lparr>cs_quota := fst (consume (cs_quota s) (int n)), cs_input := i, cs_shutdown := b\<rparr>)"
    "copy_rel s s" "copy_rel s (s\<lparr>cs_shutdown := b\<rparr>)"
  using assms consume_cases [OF assms, of n] qh_inv_consume [OF assms]
  by (auto simp: copy_rel_def)

lemma copy_rel_write:
  assumes inv: "qh_inv (cs_quota s)" and le: "n \<le> length (cs_input s)"
    and c: "consume (cs_quota s) (int n) = (q, QGranted)"
  shows "copy_rel s (s\<lparr>cs_quota := q, cs_input := drop n (cs_input s),
      cs_output := cs_output s @ take j (take n (cs_input s))\<rparr>)"
    and "copy_rel (s\<lparr>cs_quota := q, cs_input := drop n (cs_input s),
        cs_output := cs_output s @ take n (cs_input s), cs_total := t\<rparr>) s' \<Longrightarrow> copy_rel s s'"
proof -
  have q: "qh_inv q" "qh_remaining q = qh_remaining (cs_quota s) - int n"
    using qh_inv_consume [OF inv, of "int n"] consume_cases [OF inv, of n] c by auto
  have "\<exists>d rest. cs_output s @ take j (take n (cs_input s)) = cs_output s @ d \<and> cs_input s = d @ rest \<and>
      int (length d) + qh_remaining q \<le> qh_remaining (cs_quota s)"
    using q(2) by (intro exI [of _ "take (min j n) (cs_input s)"] exI [of _ "drop (min j n) (cs_input s)"])
      (simp add: min_def)
  then show "copy_rel s (s\<lparr>cs_quota := q, cs_input := drop n (cs_input s),
      cs_output := cs_output s @ take j (take n (cs_input s))\<rparr>)"
    using q(1) by (simp add: copy_rel_def)
  assume "copy_rel (s\<lparr>cs_quota := q, cs_input := drop n (cs_input s),
        cs_output := cs_output s @ take n (cs_input s), cs_total := t\<rparr>) s'"
  then obtain d rest where d: "cs_output s' = cs_output s @ take n (cs_input s) @ d"
    "drop n (cs_input s) = d @ rest" "int (length d) + qh_remaining (cs_quota s') \<le> qh_remaining q"
    "qh_inv (cs_quota s')"
    by (auto simp: copy_rel_def)
  have "cs_input s = (take n (cs_input s) @ d) @ rest"
    using d(2) by (metis append_assoc append_take_drop_id)
  moreover have "int (length (take n (cs_input s) @ d)) + qh_remaining (cs_quota s') \<le> qh_remaining (cs_quota s)"
    using d(3) q(2) le by simp
  ultimately show "copy_rel s s'"
    using d(1,4) unfolding copy_rel_def by blast
qed

lemma read_size_le [simp]: "read_size k b input \<le> length input" "read_size k b input \<le> b"
  by (simp_all add: read_size_def)

lemma copy_one_dir_rel: "qh_inv (cs_quota s) \<Longrightarrow> copy_rel s (fst (copy_one_dir rounds s))"
proof (induction rounds arbitrary: s)
  case Nil
  then show ?case using copy_rel_stop(2) by simp
next
  case (Cons r rounds)
  note inv = Cons.prems
  obtain rd wr where r: "r = (rd, wr)" by (cases r)
  show ?case
  proof (cases "qh_exhausted (cs_quota s) \<or> rd = ReadFails")
    case True
    then show ?thesis using copy_rel_stop(2,3) [OF inv] by (cases rd) (auto simp: r)
  next
    case False
    then obtain k where rd: "rd = ReadReady k" and ne: "\<not> qh_exhausted (cs_quota s)" by (cases rd) auto
    define n where "n = read_size k COPY_BUF_SIZE (cs_input s)"
    obtain q a where c: "consume (cs_quota s) (int n) = (q, a)" by fastforce
    have le: "n \<le> length (cs_input s)" by (simp add: n_def)
    consider "n = 0" | "n \<noteq> 0" "a = QExhausted" | "n \<noteq> 0" "a = QGranted" by (cases a) auto
    then show ?thesis
    proof cases
      case 1
      then show ?thesis
        using ne copy_rel_stop(3) [OF inv] by (simp add: r rd Let_def n_def [symmetric])
    next
      case 2
      then show ?thesis
        using ne c copy_rel_stop(1) [where n = n, OF inv] by (simp add: r rd Let_def n_def [symmetric])
    next
      case 3
      note cg = c [unfolded 3(2)]
      have invq: "qh_inv q" using qh_inv_consume [OF inv, of "int n"] cg by simp
      show ?thesis
      proof (cases wr)
        case WriteAll
        let ?s1 = "s\<lparr>cs_quota := q, cs_input := drop n (cs_input s),
          cs_output := cs_output s @ take n (cs_input s), cs_total := sat_add64 (cs_total s) n\<rparr>"
        have "copy_rel ?s1 (fst (copy_one_dir rounds ?s1))"
          by (rule Cons.IH) (simp add: invq)
        from copy_rel_write(2) [OF inv le cg this] show ?thesis
          using ne cg 3(1) WriteAll by (simp add: r rd Let_def n_def [symmetric])
      next
        case (WriteFails j)
        then show ?thesis
          using ne cg 3(1) copy_rel_write(1) [where j = j, OF inv le cg]
          by (simp add: r rd Let_def n_def [symmetric])
      qed
    qed
  qed
qed

lemma copy_one_dir_total:
  "length (cs_output s) + length (cs_input s) \<le> u64_max \<Longrightarrow> cs_total s = length (cs_output s) \<Longrightarrow>
   copy_one_dir rounds s = (s', CopyDone t) \<Longrightarrow> t = length (cs_output s') \<and> cs_shutdown s'"
proof (induction rounds arbitrary: s)
  case Nil
  then show ?case by simp
next
  case (Cons r rounds)
  obtain rd wr where r: "r = (rd, wr)" by (cases r)
  show ?case
  proof (cases "qh_exhausted (cs_quota s) \<or> rd = ReadFails")
    case True
    then show ?thesis using Cons.prems by (cases rd) (auto simp: r split: if_splits)
  next
    case False
    then obtain k where rd: "rd = ReadReady k" and ne: "\<not> qh_exhausted (cs_quota s)" by (cases rd) auto
    define n where "n = read_size k COPY_BUF_SIZE (cs_input s)"
    obtain q a where c: "consume (cs_quota s) (int n) = (q, a)" by fastforce
    have le: "n \<le> length (cs_input s)" by (simp add: n_def)
    note run = Cons.prems(3) [unfolded r rd copy_one_dir.simps Let_def read_event.case n_def [symmetric] c]
    show ?thesis
    proof (cases "n \<noteq> 0 \<and> a = QGranted \<and> wr = WriteAll")
      case True
      let ?s1 = "s\<lparr>cs_quota := q, cs_input := drop n (cs_input s),
          cs_output := cs_output s @ take n (cs_input s), cs_total := sat_add64 (cs_total s) n\<rparr>"
      show ?thesis
      proof (rule Cons.IH)
        show "copy_one_dir rounds ?s1 = (s', CopyDone t)" using run ne True by simp
      qed (use Cons.prems(1,2) le in \<open>simp_all add: sat_add64_def\<close>)
    next
      case False
      then show ?thesis
        using run ne Cons.prems(2) by (cases a; cases wr) (auto split: if_splits)
    qed
  qed
qed

section \<open>Properties\<close>


lemma q_sample_run:
  "q_step\<^sup>*\<^sup>* (q_init 10 1) \<lparr>q_remaining = 6, q_flag = False, q_delivered = 4, q_pcs = [QIdle]\<rparr>"
proof -
  let ?w = "\<lambda>r d pc. \<lparr>q_remaining = r, q_flag = False, q_delivered = d, q_pcs = [pc]\<rparr>"
  have i: "q_init 10 1 = ?w 10 0 QIdle" by (simp add: q_init_def)
  have "q_step (?w 10 0 QIdle) (?w 10 0 (QEntered 4))"
    using q_enter [of 0 "?w 10 0 QIdle" 4] by simp
  moreover have "q_step (?w 10 0 (QEntered 4)) (?w 10 0 (QCas 4 10))"
    using q_load [of 0 "?w 10 0 (QEntered 4)" 4] by simp
  moreover have "q_step (?w 10 0 (QCas 4 10)) (?w 6 0 (QWrite 4))"
    using q_cas_some [of 0 "?w 10 0 (QCas 4 10)" 4 10] by simp
  moreover have "q_step (?w 6 0 (QWrite 4)) (?w 6 4 QIdle)"
    using q_write [of 0 "?w 6 0 (QWrite 4)" 4 4] by simp
  ultimately show ?thesis
    unfolding i by (meson converse_rtranclp_into_rtranclp rtranclp.rtrancl_refl)
qed


text \<open>The quota copy loop, whatever the sockets do, writes a prefix
  of what the peer sent, in order and without gaps; what it writes plus what is left of the
  budget never exceeds the budget it started with; and when it returns normally it has shut
  the writer down and reports exactly the number of bytes written.\<close>

lemma quota_copy_correct:
  assumes "qh_inv (cs_quota s)" and "cs_output s = []" and "cs_total s = 0"
    and "length (cs_input s) \<le> u64_max"
    and "copy_one_dir rounds s = (s', e)"
  shows "(\<exists>rest. cs_input s = cs_output s' @ rest) \<and>
    int (length (cs_output s')) + qh_remaining (cs_quota s') \<le> qh_remaining (cs_quota s) \<and>
    0 \<le> qh_remaining (cs_quota s') \<and>
    (\<forall>t. e = CopyDone t \<longrightarrow> t = length (cs_output s') \<and> cs_shutdown s')"
proof -
  have "copy_rel s s'" using copy_one_dir_rel [OF assms(1), of rounds] assms(5) by simp
  moreover have "\<forall>t. e = CopyDone t \<longrightarrow> t = length (cs_output s') \<and> cs_shutdown s'"
    using copy_one_dir_total [of s rounds s'] assms by simp
  ultimately show ?thesis
    using assms(2) by (auto simp: copy_rel_def qh_inv_def)
qed

definition copy_sample :: copy_state where
  "copy_sample = \<lparr>cs_input = ''abcdef'', cs_output = [], cs_total = 0,
     cs_quota = \<lparr>qh_user_id = ''u'', qh_client_name = ''c'', qh_remaining = 5, qh_exhausted = False\<rparr>,
     cs_shutdown = False\<rparr>"

text \<open>C32 (quota_refill_can_be_lost): a budget refill that lands between the draw that empties
  the handle and the flag store of that draw is lost: all callers are idle, the handle has
  budget left, yet it is flagged exhausted and no data-plane step ever changes that state.\<close>

theorem quota_refill_can_be_lost:
  "\<exists>w. q_ctl_step\<^sup>*\<^sup>* (q_init 10 2) w \<and> q_remaining w = 100 \<and> q_pcs w = [QIdle, QIdle] \<and>
     q_flag w \<and> {w'. q_step\<^sup>*\<^sup>* w w'} = {w}"
proof -
  let ?w = "\<lambda>r f d a b. \<lparr>q_remaining = r, q_flag = f, q_delivered = d, q_pcs = [a, b]\<rparr>"
  let ?st = "\<lparr>qs_monthly_bytes = 100, qs_budget_remaining_bytes = 100, qs_exhausted = False\<rparr>"
  let ?fin = "?w 100 True 10 QIdle QIdle"
  have i: "q_init 10 2 = ?w 10 False 0 QIdle QIdle" by (simp add: q_init_def numeral_2_eq_2)
  have "q_ctl_step (?w 10 False 0 QIdle QIdle) (?w 10 False 0 (QEntered 10) QIdle)"
    using q_data [OF q_enter [of 0 "?w 10 False 0 QIdle QIdle" 10]] by simp
  moreover have "q_ctl_step (?w 10 False 0 (QEntered 10) QIdle) (?w 10 False 0 (QCas 10 10) QIdle)"
    using q_data [OF q_load [of 0 "?w 10 False 0 (QEntered 10) QIdle" 10]] by simp
  moreover have "q_ctl_step (?w 10 False 0 (QCas 10 10) QIdle) (?w 0 False 0 (QMark 10 True) QIdle)"
    using q_data [OF q_cas_last [of 0 "?w 10 False 0 (QCas 10 10) QIdle" 10 10]] by simp
  moreover have "q_ctl_step (?w 0 False 0 (QMark 10 True) QIdle)
      (?w 100 False 0 (QMark 10 True) (QStored 100 False))"
    using q_replace [of 1 "?w 0 False 0 (QMark 10 True) QIdle" 100 ?st] by simp
  moreover have "q_ctl_step (?w 100 False 0 (QMark 10 True) (QStored 100 False))
      (?w 100 False 0 (QMark 10 True) QIdle)"
    using q_replace_flag [of 1 "?w 100 False 0 (QMark 10 True) (QStored 100 False)" 100 False] by simp
  moreover have "q_ctl_step (?w 100 False 0 (QMark 10 True) QIdle) (?w 100 True 0 (QWrite 10) QIdle)"
    using q_data [OF q_mark [of 0 "?w 100 False 0 (QMark 10 True) QIdle" 10 True]] by simp
  moreover have "q_ctl_step (?w 100 True 0 (QWrite 10) QIdle) ?fin"
    using q_data [OF q_write [of 0 "?w 100 True 0 (QWrite 10) QIdle" 10 10]] by simp
  ultimately have run: "q_ctl_step\<^sup>*\<^sup>* (q_init 10 2) ?fin"
    unfolding i by (meson converse_rtranclp_into_rtranclp rtranclp.rtrancl_refl)
  have one: "w' = ?fin" if "q_step ?fin w'" for w'
    using that by (cases rule: q_step.cases) (auto simp: less_Suc_eq)
  have "w' = ?fin" if "q_step\<^sup>*\<^sup>* ?fin w'" for w'
    using that by (induction rule: rtranclp_induct) (auto dest: one)
  then have "{w'. q_step\<^sup>*\<^sup>* ?fin w'} = {?fin}" by auto
  with run show ?thesis by (intro exI [of _ ?fin]) simp
qed

text \<open>In the quota registry the budget and the exhausted flag seen
  for a user are those of the last update or removal for that user, independently of updates
  for other users; in-place replacement of one handle never touches another user's budget.\<close>

lemma quota_last_update_wins:
  assumes "\<forall>y \<in> set ys. reg_key y \<noteq> reg_key x"
  shows "qm_budget (foldl (reg_apply qm_put qm_del) qm_new (xs @ x # ys)) (reg_key x) =
    reg_effect state_budget x"
  using quota_reg.last_write_wins [OF quota_reg.invar_empty assms] .

end
