(* ===== verification/Rate_Copy.thy ===== *)
theory Rate_Copy
  imports Rate_Stats Quota
begin

text \<open>
  The throttling copy loop of rate_limit/copy.rs: chunk sizing, the two acquire-and-sleep
  loops (owner first, then rule), the budget pre-debit and the half-closes. The sockets are
  an arbitrary sequence of rounds as in theory Quota, each with the time that passes before
  the read returns. An acquire loop that sleeps may not end; it runs on fuel and \<open>None\<close> means
  that the fuel did not suffice. Time is in nanoseconds and advances by every sleep.
\<close>

section \<open>Definitions\<close>

definition MAX_CHUNK :: nat where
  "MAX_CHUNK = 65536"

definition MIN_CHUNK :: nat where
  "MIN_CHUNK = 8192"

definition PACING_TARGET_MS :: nat where
  "PACING_TARGET_MS = 100"

definition SNAPSHOT_REFRESH_INTERVAL :: nat where
  "SNAPSHOT_REFRESH_INTERVAL = 100000000"

definition clamp :: "nat \<Rightarrow> nat \<Rightarrow> nat \<Rightarrow> nat" where
  "clamp x lo hi = (if x < lo then lo else if hi < x then hi else x)"

definition opt_rate :: "rl_store \<Rightarrow> nat option \<Rightarrow> BandwidthDirection \<Rightarrow> nat option" where
  "opt_rate st l direction =
     (case l of None \<Rightarrow> None | Some r \<Rightarrow> bandwidth_rate_per_sec (limiter_at st r) direction)"

definition tightest :: "nat option \<Rightarrow> nat option \<Rightarrow> nat option" where
  "tightest rule_bps owner_bps =
     (case (rule_bps, owner_bps) of
        (Some a, Some b) \<Rightarrow> Some (min a b)
      | (Some a, None) \<Rightarrow> Some a
      | (None, Some a) \<Rightarrow> Some a
      | (None, None) \<Rightarrow> None)"

definition chunk_for_direction ::
  "rl_store \<Rightarrow> BandwidthDirection \<Rightarrow> nat option \<Rightarrow> nat option \<Rightarrow> nat" where
  "chunk_for_direction st direction rule owner =
     (case tightest (opt_rate st rule direction) (opt_rate st owner direction) of
        None \<Rightarrow> MAX_CHUNK
      | Some bps \<Rightarrow> clamp (sat_mul64 bps PACING_TARGET_MS div 1000) MIN_CHUNK MAX_CHUNK)"

text \<open>One of the two \<open>loop { match acquire_bandwidth ... }\<close> blocks: \<open>None\<close> when the fuel runs
  out, otherwise the store, the time and the accumulated statistics after the grant.\<close>

fun acquire_loop ::
  "nat \<Rightarrow> rl_store \<Rightarrow> nat \<Rightarrow> BandwidthDirection \<Rightarrow> nat \<Rightarrow> nat \<Rightarrow> RateLimitStatsAccumulator option
   \<Rightarrow> (rl_store \<times> nat \<times> RateLimitStatsAccumulator option) option" where
  "acquire_loop 0 st l direction n now stats = None"
| "acquire_loop (Suc fuel) st l direction n now stats =
     (case acquire_bandwidth st l direction n now of
        (st', BwGranted) \<Rightarrow> Some (st', now, stats)
      | (st', BwThrottled deficit) \<Rightarrow>
          acquire_loop fuel st' l direction n (now + deficit * 1000)
            (map_option (\<lambda>s. record_throttle s direction (try_u64 deficit)) stats))"

definition opt_acquire_loop ::
  "nat \<Rightarrow> rl_store \<Rightarrow> nat option \<Rightarrow> BandwidthDirection \<Rightarrow> nat \<Rightarrow> nat \<Rightarrow> RateLimitStatsAccumulator option
   \<Rightarrow> (rl_store \<times> nat \<times> RateLimitStatsAccumulator option) option" where
  "opt_acquire_loop fuel st l direction n now stats =
     (case l of None \<Rightarrow> Some (st, now, stats) | Some r \<Rightarrow> acquire_loop fuel st r direction n now stats)"

text \<open>The state of one direction: the buckets of the shared store, the cached limiters, the
  optional budget, the statistics, the clock, and the byte streams.\<close>

record cap_state =
  cc_store :: rl_store
  cc_now :: nat
  cc_cached_rule :: "nat option"
  cc_cached_owner :: "nat option"
  cc_last_snapshot :: nat
  cc_quota :: "QuotaHandle option"
  cc_stats :: "RateLimitStatsAccumulator option"
  cc_owner_stats :: "RateLimitStatsAccumulator option"
  cc_input :: string
  cc_output :: string
  cc_total :: nat
  cc_shutdown :: bool

definition cc_refresh :: "nat \<Rightarrow> string option \<Rightarrow> cap_state \<Rightarrow> cap_state" where
  "cc_refresh rule_id owner s =
     (if cc_now s - cc_last_snapshot s \<ge> SNAPSHOT_REFRESH_INTERVAL
      then s\<lparr>cc_cached_rule := rule_get (cc_store s) rule_id,
             cc_cached_owner := (case owner of None \<Rightarrow> None | Some oid \<Rightarrow> owner_get (cc_store s) oid),
             cc_last_snapshot := cc_now s\<rparr>
      else s)"

text \<open>The optional pre-debit: the new budget and whether the chunk may be sent.\<close>

definition opt_consume :: "QuotaHandle option \<Rightarrow> nat \<Rightarrow> QuotaHandle option \<times> bool" where
  "opt_consume quota n =
     (case quota of
        None \<Rightarrow> (None, True)
      | Some q \<Rightarrow> (let (q', r) = consume q (int n) in (Some q', r = QGranted)))"

definition opt_exhausted :: "QuotaHandle option \<Rightarrow> bool" where
  "opt_exhausted quota = (case quota of None \<Rightarrow> False | Some q \<Rightarrow> qh_exhausted q)"

text \<open>The throttled write of one granted chunk of \<open>n\<close> bytes.\<close>

definition cc_acquire :: "nat \<Rightarrow> BandwidthDirection \<Rightarrow> nat \<Rightarrow> cap_state \<Rightarrow> cap_state option" where
  "cc_acquire fuel direction n s =
     (case opt_acquire_loop fuel (cc_store s) (cc_cached_owner s) direction n (cc_now s) (cc_owner_stats s) of
        None \<Rightarrow> None
      | Some (st1, now1, ostats) \<Rightarrow>
          (case opt_acquire_loop fuel st1 (cc_cached_rule s) direction n now1 (cc_stats s) of
             None \<Rightarrow> None
           | Some (st2, now2, rstats) \<Rightarrow>
               Some (s\<lparr>cc_store := st2, cc_now := now2, cc_owner_stats := ostats, cc_stats := rstats\<rparr>)))"

text \<open>\<open>None\<close> is a loop that did not get its tokens within the fuel.\<close>

fun copy_with_cap ::
  "nat \<Rightarrow> BandwidthDirection \<Rightarrow> nat \<Rightarrow> string option \<Rightarrow> (nat \<times> read_event \<times> write_event) list \<Rightarrow> cap_state
   \<Rightarrow> (cap_state \<times> copy_exit) option" where
  "copy_with_cap fuel direction rule_id owner [] s = Some (s, CopyPending)"
| "copy_with_cap fuel direction rule_id owner ((delay, rd, wr) # rounds) s0 =
     (if opt_exhausted (cc_quota s0) then Some (s0\<lparr>cc_shutdown := True\<rparr>, CopyDone (cc_total s0))
      else let s = cc_refresh rule_id owner s0;
               chunk = chunk_for_direction (cc_store s) direction (cc_cached_rule s) (cc_cached_owner s);
               s1 = s\<lparr>cc_now := cc_now s + delay\<rparr>
           in case rd of
                ReadFails \<Rightarrow> Some (s1, CopyErr)
              | ReadReady k \<Rightarrow>
                  (let n = read_size k chunk (cc_input s1);
                       bytes = take n (cc_input s1);
                       s2 = s1\<lparr>cc_input := drop n (cc_input s1)\<rparr>
                   in if n = 0 then Some (s1\<lparr>cc_shutdown := True\<rparr>, CopyDone (cc_total s1))
                      else case opt_consume (cc_quota s2) n of
                        (q, False) \<Rightarrow> Some (s2\<lparr>cc_quota := q, cc_shutdown := True\<rparr>, CopyDone (cc_total s2))
                      | (q, True) \<Rightarrow>
                          (case cc_acquire fuel direction n (s2\<lparr>cc_quota := q\<rparr>) of
                             None \<Rightarrow> None
                           | Some s3 \<Rightarrow>
                               (case wr of
                                  WriteFails j \<Rightarrow> Some (s3\<lparr>cc_output := cc_output s3 @ take j bytes\<rparr>, CopyErr)
                                | WriteAll \<Rightarrow>
                                    copy_with_cap fuel direction rule_id owner rounds
                                      (s3\<lparr>cc_output := cc_output s3 @ bytes,
                                          cc_total := wrap64 (cc_total s3 + n)\<rparr>)))))"

section \<open>Chunk sizes\<close>

lemma clamp_bounds: "lo \<le> hi \<Longrightarrow> lo \<le> clamp x lo hi \<and> clamp x lo hi \<le> hi"
  by (simp add: clamp_def)

lemma chunk_bounds:
  "MIN_CHUNK \<le> chunk_for_direction st d r ow \<and> chunk_for_direction st d r ow \<le> MAX_CHUNK"
  using clamp_bounds [of MIN_CHUNK MAX_CHUNK]
  by (auto simp: chunk_for_direction_def MIN_CHUNK_def MAX_CHUNK_def split: option.splits)

section \<open>The acquire loop\<close>

lemma acquire_bandwidth_bucket:
  assumes "l < length (sl_limiters st)" and "bandwidth_bucket (limiter_at st l) d = Some b"
  shows "bandwidth_bucket (limiter_at (fst (acquire_bandwidth st l d n now)) l) d = Some (fst (acquire b n now))"
    and "snd (acquire_bandwidth st l d n now) =
      (case snd (acquire b n now) of Granted \<Rightarrow> BwGranted | Throttled x \<Rightarrow> BwThrottled x)"
    and "length (sl_limiters (fst (acquire_bandwidth st l d n now))) = length (sl_limiters st)"
proof -
  let ?lim = "set_bandwidth_bucket (limiter_at st l) d (fst (acquire b n now))"
  have "acquire_bandwidth st l d n now =
      (st\<lparr>sl_limiters := (sl_limiters st)[l := ?lim]\<rparr>,
       case snd (acquire b n now) of Granted \<Rightarrow> BwGranted | Throttled x \<Rightarrow> BwThrottled x)"
    using assms(2) by (cases "snd (acquire b n now)") (simp_all add: acquire_bandwidth_def split_beta)
  moreover have "bandwidth_bucket ?lim d = Some (fst (acquire b n now))"
    by (cases d) simp_all
  ultimately show "bandwidth_bucket (limiter_at (fst (acquire_bandwidth st l d n now)) l) d = Some (fst (acquire b n now))"
    "snd (acquire_bandwidth st l d n now) =
      (case snd (acquire b n now) of Granted \<Rightarrow> BwGranted | Throttled x \<Rightarrow> BwThrottled x)"
    "length (sl_limiters (fst (acquire_bandwidth st l d n now))) = length (sl_limiters st)"
    using assms(1) by (simp_all add: limiter_at_def)
qed

text \<open>A request above the burst never leaves the loop.\<close>

lemma acquire_loop_starves:
  assumes "l < length (sl_limiters st)" and "bandwidth_bucket (limiter_at st l) d = Some b"
    and "tb_inv b" and "burst b < n"
  shows "acquire_loop fuel st l d n now stats = None"
  using assms
proof (induction fuel arbitrary: st b now stats)
  case 0
  then show ?case by simp
next
  case (Suc fuel)
  obtain st' r where ab: "acquire_bandwidth st l d n now = (st', r)" by fastforce
  obtain b' a where acq: "acquire b n now = (b', a)" by fastforce
  have "a \<noteq> Granted"
    using acquire_granted [of b n now] acq tb_inv_refill [OF Suc.prems(3), of "now_micros b now"] Suc.prems(4)
    by (auto simp: tb_inv_def)
  then obtain x where a: "a = Throttled x" by (cases a) auto
  have inv': "tb_inv b'" "burst b' < n"
    using tb_inv_acquire [OF Suc.prems(3), of n now] acquire_frame(2) [of b n now] acq Suc.prems(4) by auto
  note eff = acquire_bandwidth_bucket [OF Suc.prems(1,2), of n now]
  have "l < length (sl_limiters st')" "bandwidth_bucket (limiter_at st' l) d = Some b'" "r = BwThrottled x"
    using eff Suc.prems(1) ab acq a by simp_all
  then show ?case
    using Suc.IH inv' ab by simp
qed

lemma deficit_mono: "m \<le> n \<Longrightarrow> deficit_micros r m \<le> deficit_micros r n"
  unfolding deficit_micros_def div_ceil_def sat_mul64_def
  by (intro div_le_mono diff_le_mono add_le_mono min.mono mult_le_mono1 order_refl)

text \<open>A request within the burst leaves the loop after at most one sleep.\<close>

lemma acquire_loop_two:
  assumes l: "l < length (sl_limiters st)" and b: "bandwidth_bucket (limiter_at st l) d = Some b"
    and inv: "tb_inv b" "0 < rate_per_sec b" "burst b \<le> u64_max" "n * 1000000 \<le> u64_max" "n \<le> burst b"
    and mono: "last_refill_micros b \<le> now_micros b now" "epoch b \<le> now"
    and clock: "(now - epoch b) div 1000 + deficit_micros (rate_per_sec b) n < u64_max"
  shows "\<exists>res. acquire_loop (Suc (Suc fuel)) st l d n now stats = Some res"
proof -
  obtain st1 r where ab: "acquire_bandwidth st l d n now = (st1, r)" by fastforce
  obtain b1 a where acq: "acquire b n now = (b1, a)" by fastforce
  note eff = acquire_bandwidth_bucket [OF l b, of n now]
  show ?thesis
  proof (cases a)
    case Granted
    then show ?thesis using eff(2) ab acq by simp
  next
    case (Throttled x)
    have st1: "l < length (sl_limiters st1)" "bandwidth_bucket (limiter_at st1 l) d = Some b1" "r = BwThrottled x"
      using eff l ab acq Throttled by simp_all
    have x: "x \<le> deficit_micros (rate_per_sec b) n"
      using acq Throttled
      by (auto simp: acquire_def tb_debit_def Let_def deficit_mono split: if_splits)
    have later: "now_micros b now + x \<le> now_micros b (now + x * 1000)"
    proof -
      have "(now + x * 1000 - epoch b) div 1000 = (now - epoch b) div 1000 + x"
        using mono(2) by (simp add: add.commute diff_add_assoc)
      then show ?thesis using clock x by (simp add: now_micros_def try_u64_def)
    qed
    have "snd (acquire b1 n (now + x * 1000)) = Granted"
      using acquire_retry [OF inv(1-4) acq [unfolded Throttled] mono(1) inv(5) later] .
    then show ?thesis
      using acquire_bandwidth_bucket(2) [OF st1(1,2), of n "now + x * 1000"] ab st1(3)
      by (cases "acquire_bandwidth st1 l d n (now + x * 1000)") simp
  qed
qed

section \<open>The copy loop\<close>

definition opt_left :: "QuotaHandle option \<Rightarrow> int" where
  "opt_left quota = (case quota of None \<Rightarrow> 0 | Some q \<Rightarrow> qh_remaining q)"

definition opt_inv :: "QuotaHandle option \<Rightarrow> bool" where
  "opt_inv quota = (case quota of None \<Rightarrow> True | Some q \<Rightarrow> qh_inv q)"

text \<open>The promise of the loop, relative to its start: an in-order prefix, and with a budget no
  more than the budget.\<close>

definition cap_rel :: "cap_state \<Rightarrow> cap_state \<Rightarrow> bool" where
  "cap_rel s s' \<longleftrightarrow> (\<exists>d rest. cc_output s' = cc_output s @ d \<and> cc_input s = d @ rest \<and>
     (cc_quota s \<noteq> None \<longrightarrow> int (length d) + opt_left (cc_quota s') \<le> opt_left (cc_quota s))) \<and>
     (cc_quota s' = None \<longleftrightarrow> cc_quota s = None) \<and> opt_inv (cc_quota s')"

lemma opt_consume_effect:
  assumes "opt_inv q" and "opt_consume q n = (q', ok)"
  shows "opt_inv q' \<and> (q' = None \<longleftrightarrow> q = None) \<and>
    (q \<noteq> None \<longrightarrow> opt_left q' \<le> opt_left q \<and> (ok \<longrightarrow> int n + opt_left q' \<le> opt_left q))"
proof (cases q)
  case None
  then show ?thesis using assms by (auto simp: opt_consume_def opt_inv_def)
next
  case (Some h)
  have inv: "qh_inv h" using assms(1) Some by (simp add: opt_inv_def)
  show ?thesis
    using assms(2) Some consume_cases [OF inv, of n] qh_inv_consume [OF inv, of "int n"]
    by (auto simp: opt_consume_def opt_inv_def opt_left_def split_beta)
qed

lemma cap_rel_refl: "opt_inv (cc_quota s) \<Longrightarrow> cap_rel s s"
  by (simp add: cap_rel_def)

lemma cap_rel_write:
  assumes inv: "opt_inv (cc_quota s)" and q: "opt_consume (cc_quota s) n = (q, ok)"
    and in1: "cc_input s1 = drop n (cc_input s)" and q1: "cc_quota s1 = q"
    and n: "n \<le> length (cc_input s)"
    and out: "cc_output s1 = cc_output s @ (if ok then take j (take n (cc_input s)) else [])"
  shows "cap_rel s s1"
    and "ok \<Longrightarrow> n \<le> j \<Longrightarrow> cap_rel s1 s' \<Longrightarrow> cap_rel s s'"
proof -
  note e = opt_consume_effect [OF inv q]
  let ?d = "if ok then take (min j n) (cc_input s) else []"
  have "cc_input s = ?d @ (if ok then drop (min j n) (cc_input s) else cc_input s)" by simp
  moreover have "cc_quota s \<noteq> None \<longrightarrow> int (length ?d) + opt_left q \<le> opt_left (cc_quota s)"
    using e by (auto simp: min_def)
  ultimately show "cap_rel s s1"
    unfolding cap_rel_def using e out q1
    by (intro conjI exI [of _ ?d] exI [of _ "if ok then drop (min j n) (cc_input s) else cc_input s"])
      (simp_all add: min.commute)
  assume ok: "ok" and j: "n \<le> j" and r: "cap_rel s1 s'"
  then obtain d rest where d: "cc_output s' = cc_output s @ take n (cc_input s) @ d"
    "drop n (cc_input s) = d @ rest"
    "cc_quota s \<noteq> None \<longrightarrow> int (length d) + opt_left (cc_quota s') \<le> opt_left q"
    "cc_quota s' = None \<longleftrightarrow> cc_quota s = None" "opt_inv (cc_quota s')"
    using in1 q1 out e by (auto simp: cap_rel_def min_absorb2)
  have "cc_input s = (take n (cc_input s) @ d) @ rest"
    using d(2) by (metis append_assoc append_take_drop_id)
  moreover have "cc_quota s \<noteq> None \<longrightarrow>
      int (length (take n (cc_input s) @ d)) + opt_left (cc_quota s') \<le> opt_left (cc_quota s)"
    using d(3) e ok n by auto
  ultimately show "cap_rel s s'"
    using d(1,4,5) unfolding cap_rel_def by blast
qed

lemma cc_refresh_frame [simp]:
  "cc_quota (cc_refresh r ow s) = cc_quota s" "cc_input (cc_refresh r ow s) = cc_input s"
  "cc_output (cc_refresh r ow s) = cc_output s" "cc_total (cc_refresh r ow s) = cc_total s"
  "cc_shutdown (cc_refresh r ow s) = cc_shutdown s" "cc_now (cc_refresh r ow s) = cc_now s"
  "cc_store (cc_refresh r ow s) = cc_store s"
  by (simp_all add: cc_refresh_def)

lemma cc_acquire_frame:
  assumes "cc_acquire fuel d n s = Some s'"
  shows "cc_quota s' = cc_quota s" "cc_input s' = cc_input s" "cc_output s' = cc_output s"
    "cc_total s' = cc_total s" "cc_shutdown s' = cc_shutdown s"
  using assms by (auto simp: cc_acquire_def split: option.splits prod.splits)

text \<open>The body of one round, as a relation between the states before and after it.\<close>

lemma cap_round_cases:
  assumes run: "copy_with_cap fuel dir rid ow ((delay, rd, wr) # rounds) s = Some (s', e)"
  obtains (stop) "cc_output s' = cc_output s" "cc_input s' = cc_input s" "cc_quota s' = cc_quota s"
      "e = CopyErr \<or> e = CopyDone (cc_total s) \<and> cc_shutdown s'"
  | (dropped) n q where "opt_consume (cc_quota s) n = (q, False)" "n \<le> length (cc_input s)"
      "cc_input s' = drop n (cc_input s)" "cc_quota s' = q" "cc_output s' = cc_output s"
      "e = CopyDone (cc_total s)" "cc_shutdown s'"
  | (failed) n q j where "opt_consume (cc_quota s) n = (q, True)" "n \<le> length (cc_input s)"
      "cc_input s' = drop n (cc_input s)" "cc_quota s' = q"
      "cc_output s' = cc_output s @ take j (take n (cc_input s))" "e = CopyErr"
  | (sent) n q s1 where "opt_consume (cc_quota s) n = (q, True)" "n \<le> length (cc_input s)"
      "cc_input s1 = drop n (cc_input s)" "cc_quota s1 = q"
      "cc_output s1 = cc_output s @ take n (cc_input s)" "cc_total s1 = wrap64 (cc_total s + n)"
      "copy_with_cap fuel dir rid ow rounds s1 = Some (s', e)"
proof (cases "opt_exhausted (cc_quota s) \<or> rd = ReadFails")
  case True
  then show thesis using run by (intro stop) (cases rd; auto simp: Let_def split: if_splits)+
next
  case False
  then obtain k where rd: "rd = ReadReady k" and ne: "\<not> opt_exhausted (cc_quota s)" by (cases rd) auto
  let ?r = "cc_refresh rid ow s"
  define n where "n = read_size k (chunk_for_direction (cc_store s) dir (cc_cached_rule ?r) (cc_cached_owner ?r)) (cc_input s)"
  have le: "n \<le> length (cc_input s)" by (simp add: n_def)
  obtain q ok where q: "opt_consume (cc_quota s) n = (q, ok)" by fastforce
  note eqs = rd Let_def n_def [symmetric] q
  consider "n = 0" | "n \<noteq> 0" "\<not> ok" | "n \<noteq> 0" "ok" by blast
  then show thesis
  proof cases
    case 1
    then show thesis using run ne by (intro stop) (auto simp: eqs)
  next
    case 2
    then show thesis using run ne le q by (intro dropped [of n q]) (auto simp: eqs)
  next
    case 3
    let ?s2 = "?r\<lparr>cc_now := cc_now s + delay, cc_input := drop n (cc_input s), cc_quota := q\<rparr>"
    obtain s3 where acq: "cc_acquire fuel dir n ?s2 = Some s3"
      using run ne 3 by (cases "cc_acquire fuel dir n ?s2") (simp_all add: eqs)
    note fr = cc_acquire_frame [OF acq, simplified]
    show thesis
    proof (cases wr)
      case WriteAll
      show thesis
        by (rule sent [of n q "s3\<lparr>cc_output := cc_output s3 @ take n (cc_input s),
            cc_total := wrap64 (cc_total s3 + n)\<rparr>"])
          (use run ne 3 acq fr q le WriteAll in \<open>simp_all add: eqs\<close>)
    next
      case (WriteFails j)
      show thesis
        by (rule failed [of n q j]) (use run ne 3 acq fr q le WriteFails in \<open>auto simp: eqs\<close>)
    qed
  qed
qed

lemma copy_with_cap_rel:
  "opt_inv (cc_quota s) \<Longrightarrow> copy_with_cap fuel dir rid ow rounds s = Some (s', e) \<Longrightarrow> cap_rel s s'"
proof (induction rounds arbitrary: s)
  case Nil
  then show ?case by (simp add: cap_rel_refl)
next
  case (Cons r rounds)
  obtain delay rd wr where r: "r = (delay, rd, wr)" by (cases r)
  from Cons.prems(2) [unfolded r] show ?case
  proof (cases rule: cap_round_cases)
    case stop
    then show ?thesis using cap_rel_refl [OF Cons.prems(1)] by (simp add: cap_rel_def)
  next
    case (dropped n q)
    then show ?thesis by (intro cap_rel_write(1) [OF Cons.prems(1) dropped(1), where j = 0]) simp_all
  next
    case (failed n q j)
    then show ?thesis by (intro cap_rel_write(1) [OF Cons.prems(1) failed(1), where j = j]) simp_all
  next
    case (sent n q s1)
    have "opt_inv (cc_quota s1)"
      using opt_consume_effect [OF Cons.prems(1) sent(1)] sent(4) by simp
    from Cons.IH [OF this sent(7)] show ?thesis
      using sent by (intro cap_rel_write(2) [OF Cons.prems(1) sent(1) sent(3,4,2), where j = n]) simp_all
  qed
qed

lemma copy_with_cap_total:
  "length (cc_output s) + length (cc_input s) \<le> u64_max \<Longrightarrow> cc_total s = length (cc_output s) \<Longrightarrow>
   copy_with_cap fuel dir rid ow rounds s = Some (s', CopyDone t) \<Longrightarrow>
   t = length (cc_output s') \<and> cc_shutdown s'"
proof (induction rounds arbitrary: s)
  case Nil
  then show ?case by simp
next
  case (Cons r rounds)
  obtain delay rd wr where r: "r = (delay, rd, wr)" by (cases r)
  from Cons.prems(3) [unfolded r] show ?case
  proof (cases rule: cap_round_cases)
    case (sent n q s1)
    show ?thesis
      by (rule Cons.IH [OF _ _ sent(7)]) (use sent Cons.prems(1,2) in simp_all)
  qed (use Cons.prems(2) in auto)
qed

section \<open>Properties\<close>


definition bw_limiter :: "nat \<Rightarrow> nat \<Rightarrow> RuleRateLimiter" where
  "bw_limiter rate b =
     \<lparr>lim_bandwidth_in = Some (tb_new rate b 0), lim_bandwidth_out = None, lim_new_connections = None,
      lim_concurrent_max = None, lim_active_connections = 0\<rparr>"

definition bw_start :: "nat \<Rightarrow> nat \<Rightarrow> string \<Rightarrow> cap_state" where
  "bw_start rate b input =
     \<lparr>cc_store = \<lparr>sl_limiters = [bw_limiter rate b], sl_gauges = [0], sl_rules = [1 \<mapsto> 0],
        sl_owners = Map.empty\<rparr>,
      cc_now = 0, cc_cached_rule = Some 0, cc_cached_owner = None, cc_last_snapshot = 0, cc_quota = None,
      cc_stats = None, cc_owner_stats = None, cc_input = input, cc_output = [], cc_total = 0,
      cc_shutdown = False\<rparr>"




text \<open>C16 (low_cap_stalls_connection): when one read returns more bytes than the burst of the
  rule's bucket (a chunk is never sized below 8 KiB, whatever the cap), the loop never gets
  its tokens: no number of sleeps lets the chunk through, and nothing more is ever written.\<close>

theorem low_cap_stalls_connection:
  assumes "cc_quota s = None" and "cc_cached_owner s = None" and "cc_cached_rule s = Some l"
    and "cc_now s - cc_last_snapshot s < SNAPSHOT_REFRESH_INTERVAL"
    and "l < length (sl_limiters (cc_store s))"
    and "bandwidth_bucket (limiter_at (cc_store s) l) direction = Some b" and "tb_inv b"
    and "burst b < k" and "k \<le> MIN_CHUNK" and "k \<le> length (cc_input s)"
  shows "copy_with_cap fuel direction rule_id owner ((delay, ReadReady k, wr) # rounds) s = None"
proof -
  let ?c = "chunk_for_direction (cc_store s) direction (Some l) None"
  have n: "read_size k ?c (cc_input s) = k"
    using assms(9,10) chunk_bounds [of "cc_store s" direction "Some l" None] by (simp add: read_size_def)
  have r: "cc_refresh rule_id owner s = s" using assms(4) by (simp add: cc_refresh_def)
  have "cc_acquire fuel direction k (s\<lparr>cc_now := t, cc_input := i, cc_quota := q\<rparr>) = None" for t i q
    using acquire_loop_starves [OF assms(5-8)] assms(2,3)
    by (simp add: cc_acquire_def opt_acquire_loop_def)
  then show ?thesis
    using assms(1-3,8) n r by (simp add: opt_exhausted_def opt_consume_def Let_def)
qed

theorem low_cap_stalls_connection_witness:
  "rate_limit_validate (one_conn\<lparr>bandwidth_in_bps := Some 1000\<rparr>) = Inr () \<and>
   (\<forall>fuel. copy_with_cap fuel DirIn 1 None ((5, ReadReady 4096, WriteAll) # [])
     (bw_start 1000 1000 (replicate 4096 CHR ''x'')) = None)"
proof (intro conjI allI)
  fix fuel
  show "rate_limit_validate (one_conn\<lparr>bandwidth_in_bps := Some 1000\<rparr>) = Inr ()"
    by (simp add: one_conn_def rate_limit_validate_def check_nonzero_u64_def check_nonzero_u32_def
        check_burst_u64_def check_burst_u32_def)
  show "copy_with_cap fuel DirIn 1 None ((5, ReadReady 4096, WriteAll) # [])
     (bw_start 1000 1000 (replicate 4096 CHR ''x'')) = None"
    by (rule low_cap_stalls_connection [where l = 0 and b = "tb_new 1000 1000 0"])
      (simp_all add: bw_start_def bw_limiter_def limiter_at_def tb_new_def tb_inv_def MIN_CHUNK_def
        SNAPSHOT_REFRESH_INTERVAL_def)
qed

end
