(* ===== verification/Failover.thy ===== *)
theory Failover
  imports Host_Target "HOL-Library.Product_Lexorder" "HOL-Library.Multiset"
begin

text \<open>
  Multi-target failover: the per-target health machine, the selection and the priority order
  of forwarder/failover.rs, the per-target snapshot, the dial loop of failover_path.rs and the
  round-robin prober of probe.rs. Monotonic instants are natural numbers of nanoseconds, wall
  clock times natural numbers of milliseconds since the epoch. The outcome of dialling a
  target is a parameter.
\<close>

section \<open>The health machine (failover.rs)\<close>

definition PASSIVE_FAILURE_THRESHOLD :: nat where
  "PASSIVE_FAILURE_THRESHOLD = 3"

definition FAILURE_WINDOW :: nat where
  "FAILURE_WINDOW = 30000000000"

definition PASSIVE_RECOVERY_THRESHOLD :: nat where
  "PASSIVE_RECOVERY_THRESHOLD = 2"

datatype Health = Healthy | Failed

fun health_as_wire :: "Health \<Rightarrow> nat" where
  "health_as_wire Healthy = 0"
| "health_as_wire Failed = 1"

record HealthState =
  hs_state :: Health
  hs_consecutive_failures :: nat
  hs_consecutive_successes :: nat
  hs_failure_window_start :: "nat option"
  hs_last_failure_at :: "nat option"
  hs_last_success_at :: "nat option"
  hs_bytes_in :: nat
  hs_bytes_out :: nat
  hs_connections_accepted :: nat

definition hs_new :: HealthState where
  "hs_new = \<lparr>hs_state = Healthy, hs_consecutive_failures = 0, hs_consecutive_successes = 0,
     hs_failure_window_start = None, hs_last_failure_at = None, hs_last_success_at = None,
     hs_bytes_in = 0, hs_bytes_out = 0, hs_connections_accepted = 0\<rparr>"

definition add_bytes_in :: "HealthState \<Rightarrow> nat \<Rightarrow> HealthState" where
  "add_bytes_in s n = s\<lparr>hs_bytes_in := wrap64 (hs_bytes_in s + n)\<rparr>"

definition add_bytes_out :: "HealthState \<Rightarrow> nat \<Rightarrow> HealthState" where
  "add_bytes_out s n = s\<lparr>hs_bytes_out := wrap64 (hs_bytes_out s + n)\<rparr>"

definition increment_connections_accepted :: "HealthState \<Rightarrow> HealthState" where
  "increment_connections_accepted s = s\<lparr>hs_connections_accepted := wrap64 (hs_connections_accepted s + 1)\<rparr>"

text \<open>\<open>duration_since\<close> is zero when the argument is later.\<close>

definition window_open :: "HealthState \<Rightarrow> nat \<Rightarrow> bool" where
  "window_open s now =
     (case hs_failure_window_start s of None \<Rightarrow> False | Some start \<Rightarrow> now - start \<le> FAILURE_WINDOW)"

definition record_failure :: "HealthState \<Rightarrow> nat \<Rightarrow> nat \<Rightarrow> nat \<Rightarrow> HealthState \<times> nat" where
  "record_failure s now wall target_failovers_total =
     (let s1 = s\<lparr>hs_last_failure_at := Some wall, hs_consecutive_successes := 0\<rparr>;
          s2 = (if window_open s1 now
                then s1\<lparr>hs_consecutive_failures := sat_add32 (hs_consecutive_failures s1) 1\<rparr>
                else s1\<lparr>hs_failure_window_start := Some now, hs_consecutive_failures := 1\<rparr>)
      in if hs_state s2 = Healthy \<and> hs_consecutive_failures s2 \<ge> PASSIVE_FAILURE_THRESHOLD
         then (s2\<lparr>hs_state := Failed, hs_consecutive_successes := 0\<rparr>, wrap64 (target_failovers_total + 1))
         else (s2, target_failovers_total))"

definition record_success :: "HealthState \<Rightarrow> nat \<Rightarrow> nat \<Rightarrow> nat \<Rightarrow> HealthState \<times> nat" where
  "record_success s now wall target_failovers_total =
     (let s1 = s\<lparr>hs_last_success_at := Some wall\<rparr> in
      case hs_state s1 of
        Healthy \<Rightarrow>
          (s1\<lparr>hs_consecutive_failures := 0, hs_failure_window_start := None, hs_consecutive_successes := 0\<rparr>,
           target_failovers_total)
      | Failed \<Rightarrow>
          (let s2 = s1\<lparr>hs_consecutive_successes := sat_add32 (hs_consecutive_successes s1) 1\<rparr> in
           if hs_consecutive_successes s2 \<ge> PASSIVE_RECOVERY_THRESHOLD
           then (s2\<lparr>hs_state := Healthy, hs_consecutive_failures := 0, hs_consecutive_successes := 0,
                    hs_failure_window_start := None\<rparr>, wrap64 (target_failovers_total + 1))
           else (s2, target_failovers_total)))"

fun select_from :: "nat \<Rightarrow> HealthState list \<Rightarrow> nat" where
  "select_from i [] = 0"
| "select_from i (s # ss) = (if hs_state s = Healthy then i else select_from (Suc i) ss)"

definition select_target :: "HealthState list \<Rightarrow> nat" where
  "select_target states = select_from 0 states"

definition sort_priority :: "RuleTarget list \<Rightarrow> nat list option" where
  "sort_priority targets =
     (if targets = [] then None
      else Some (sort_key (\<lambda>i. (rt_priority (targets ! i), i)) [0..<length targets]))"

datatype TargetHealth = TargetHealthy | TargetFailed

record PerTargetStatsSnapshot =
  pts_index :: nat
  pts_host :: string
  pts_port :: u16
  pts_priority :: nat
  pts_health :: TargetHealth
  pts_consecutive_failures :: nat
  pts_last_failure_at_unix_ms :: nat
  pts_last_success_at_unix_ms :: nat
  pts_bytes_in :: nat
  pts_bytes_out :: nat
  pts_connections_accepted :: nat

definition opt_ms :: "nat option \<Rightarrow> nat" where
  "opt_ms ts = (case ts of None \<Rightarrow> 0 | Some ms \<Rightarrow> try_u64 ms)"

definition snapshot_target :: "nat \<Rightarrow> RuleTarget \<Rightarrow> HealthState \<Rightarrow> PerTargetStatsSnapshot" where
  "snapshot_target idx t s =
     \<lparr>pts_index = (if idx \<le> u32_max then idx else u32_max),
      pts_host = rt_host t, pts_port = rt_port t, pts_priority = rt_priority t,
      pts_health = (case hs_state s of Healthy \<Rightarrow> TargetHealthy | Failed \<Rightarrow> TargetFailed),
      pts_consecutive_failures = hs_consecutive_failures s,
      pts_last_failure_at_unix_ms = opt_ms (hs_last_failure_at s),
      pts_last_success_at_unix_ms = opt_ms (hs_last_success_at s),
      pts_bytes_in = hs_bytes_in s, pts_bytes_out = hs_bytes_out s,
      pts_connections_accepted = hs_connections_accepted s\<rparr>"

text \<open>\<open>locked i\<close>: the \<open>try_lock\<close> of target \<open>i\<close> failed because another task holds it.\<close>

fun snapshot_from ::
  "nat \<Rightarrow> (nat \<Rightarrow> bool) \<Rightarrow> RuleTarget list \<Rightarrow> HealthState list \<Rightarrow> PerTargetStatsSnapshot list" where
  "snapshot_from idx locked [] states = []"
| "snapshot_from idx locked (t # ts) [] = []"
| "snapshot_from idx locked (t # ts) (s # ss) =
     (if locked idx then snapshot_from (Suc idx) locked ts ss
      else snapshot_target idx t s # snapshot_from (Suc idx) locked ts ss)"

definition snapshot_per_target ::
  "(nat \<Rightarrow> bool) \<Rightarrow> nat \<Rightarrow> RuleTarget list \<Rightarrow> HealthState list \<Rightarrow> nat \<times> PerTargetStatsSnapshot list" where
  "snapshot_per_target locked total_failovers targets states =
     (total_failovers, snapshot_from 0 locked targets states)"

section \<open>Dialling with failover (failover_path.rs)\<close>

text \<open>What dialling one target yields, and when: a connection (with whether the PROXY prelude
  could be written) or an error.\<close>

datatype dial_outcome = Connected bool | DialError

record dial_result =
  dr_outcome :: dial_outcome
  dr_now :: nat
  dr_wall :: nat

definition dial_order :: "HealthState list \<Rightarrow> nat \<Rightarrow> nat list" where
  "dial_order states n =
     (let first = (case find_index_from 0 (\<lambda>s. hs_state s = Healthy) states of None \<Rightarrow> 0 | Some i \<Rightarrow> i);
          rest = sort (filter (\<lambda>i. i \<noteq> first) [0..<n])
      in first # rest)"

definition dial_ok :: "RuleTarget \<Rightarrow> dial_outcome \<Rightarrow> bool" where
  "dial_ok t outcome =
     (case outcome of
        DialError \<Rightarrow> False
      | Connected prelude_written \<Rightarrow> (case rt_proxy_protocol t of None \<Rightarrow> True | Some _ \<Rightarrow> prelude_written))"

fun dial_walk ::
  "RuleTarget list \<Rightarrow> (nat \<Rightarrow> dial_result) \<Rightarrow> nat list \<Rightarrow> HealthState list \<Rightarrow> nat
   \<Rightarrow> HealthState list \<times> nat \<times> nat option" where
  "dial_walk targets dial [] states total_failovers = (states, total_failovers, None)"
| "dial_walk targets dial (idx # order) states total_failovers =
     (let d = dial idx in
      if dial_ok (targets ! idx) (dr_outcome d)
      then (let (s, tot) = record_success (states ! idx) (dr_now d) (dr_wall d) total_failovers
            in (states[idx := s], tot, Some idx))
      else (let (s, tot) = record_failure (states ! idx) (dr_now d) (dr_wall d) total_failovers
            in dial_walk targets dial order (states[idx := s]) tot))"

definition dial_with_failover ::
  "RuleTarget list \<Rightarrow> (nat \<Rightarrow> dial_result) \<Rightarrow> HealthState list \<Rightarrow> nat
   \<Rightarrow> HealthState list \<times> nat \<times> nat option" where
  "dial_with_failover targets dial states total_failovers =
     dial_walk targets dial (dial_order states (length targets)) states total_failovers"

section \<open>The prober (probe.rs)\<close>

text \<open>The dial of a probe under its timeout: a stream, an error, or the timeout.\<close>

datatype probe_outcome = ProbeOk | ProbeErr | ProbeTimeout

definition probe_one :: "HealthState \<Rightarrow> probe_outcome \<Rightarrow> nat \<Rightarrow> nat \<Rightarrow> nat \<Rightarrow> HealthState \<times> nat" where
  "probe_one s outcome now wall total_failovers =
     (case outcome of
        ProbeOk \<Rightarrow> record_success s now wall total_failovers
      | ProbeErr \<Rightarrow> record_failure s now wall total_failovers
      | ProbeTimeout \<Rightarrow> record_failure s now wall total_failovers)"

text \<open>One tick of the prober: round-robin over the targets, \<open>next_idx\<close> wrapping at 64 bits.\<close>

definition probe_tick ::
  "(probe_outcome \<times> nat \<times> nat) \<Rightarrow> HealthState list \<times> nat \<times> nat \<Rightarrow> HealthState list \<times> nat \<times> nat" where
  "probe_tick ev w =
     (case (ev, w) of ((outcome, now, wall), (states, next_idx, total_failovers)) \<Rightarrow>
        if states = [] then w
        else let idx = next_idx mod length states;
                 (s, tot) = probe_one (states ! idx) outcome now wall total_failovers
             in (states[idx := s], wrap64 (next_idx + 1), tot))"

section \<open>Events on one target\<close>

datatype health_event = Fail nat nat | Succeed nat nat

fun health_step :: "health_event \<Rightarrow> HealthState \<times> nat \<Rightarrow> HealthState \<times> nat" where
  "health_step (Fail now wall) (s, tot) = record_failure s now wall tot"
| "health_step (Succeed now wall) (s, tot) = record_success s now wall tot"

fun health_run :: "health_event list \<Rightarrow> HealthState \<times> nat \<Rightarrow> HealthState \<times> nat" where
  "health_run [] w = w"
| "health_run (e # es) w = health_run es (health_step e w)"

text \<open>The number of health transitions along a run.\<close>

fun flips :: "health_event list \<Rightarrow> HealthState \<times> nat \<Rightarrow> nat" where
  "flips [] w = 0"
| "flips (e # es) w =
     (if hs_state (fst (health_step e w)) \<noteq> hs_state (fst w) then 1 else 0) + flips es (health_step e w)"

definition hs_inv :: "HealthState \<Rightarrow> bool" where
  "hs_inv s \<longleftrightarrow>
     (case hs_state s of
        Healthy \<Rightarrow> hs_consecutive_failures s < PASSIVE_FAILURE_THRESHOLD \<and> hs_consecutive_successes s = 0
      | Failed \<Rightarrow> hs_consecutive_successes s < PASSIVE_RECOVERY_THRESHOLD \<and> hs_consecutive_failures s \<noteq> 0) \<and>
     (hs_failure_window_start s = None \<longleftrightarrow> hs_consecutive_failures s = 0)"

named_theorems health_defs \<open>definitions of the health machine\<close>

lemmas [health_defs] = record_failure_def record_success_def window_open_def sat_add32_def u32_max_def
  PASSIVE_FAILURE_THRESHOLD_def PASSIVE_RECOVERY_THRESHOLD_def hs_inv_def

lemma hs_inv_new: "hs_inv hs_new"
  by (simp add: health_defs hs_new_def)

lemma hs_inv_failure: "hs_inv s \<Longrightarrow> hs_inv (fst (record_failure s now wall tot))"
  by (cases "hs_state s") (auto simp: health_defs Let_def split: option.splits)

lemma hs_inv_success: "hs_inv s \<Longrightarrow> hs_inv (fst (record_success s now wall tot))"
  by (cases "hs_state s") (auto simp: health_defs Let_def split: option.splits)

lemma hs_inv_step: "hs_inv (fst w) \<Longrightarrow> hs_inv (fst (health_step e w))"
  by (cases w; cases e) (simp_all add: hs_inv_failure hs_inv_success)

lemma hs_inv_run: "hs_inv (fst w) \<Longrightarrow> hs_inv (fst (health_run es w))"
  by (induction es arbitrary: w) (simp_all add: hs_inv_step)

lemma step_total:
  "snd (health_step e w) =
     (if hs_state (fst (health_step e w)) \<noteq> hs_state (fst w) then wrap64 (snd w + 1) else snd w)"
  by (cases w; cases e; cases "hs_state (fst w)")
    (auto simp: record_failure_def record_success_def Let_def)

lemma run_total: "snd w \<le> u64_max \<Longrightarrow> snd (health_run es w) = wrap64 (snd w + flips es w)"
proof (induction es arbitrary: w)
  case Nil
  then show ?case by simp
next
  case (Cons e es)
  have "snd (health_step e w) \<le> u64_max"
    using Cons.prems by (simp add: step_total wrap64_def less_Suc_eq_le [symmetric])
  from Cons.IH [OF this] show ?case
    by (auto simp: step_total wrap64_def mod_simps add.assoc)
qed

section \<open>Selection and dial order\<close>

lemma select_from_find:
  "select_from i ss = (case find_index_from i (\<lambda>s. hs_state s = Healthy) ss of None \<Rightarrow> 0 | Some j \<Rightarrow> j)"
  by (induction ss arbitrary: i) auto

lemma select_lt: "ss \<noteq> [] \<Longrightarrow> select_target ss < length ss"
  using find_index_from_Some [of 0 "\<lambda>s. hs_state s = Healthy" ss]
  by (fastforce simp: select_target_def select_from_find split: option.splits)

lemma dial_order_select: "dial_order ss n = select_target ss # filter (\<lambda>i. i \<noteq> select_target ss) [0..<n]"
proof -
  have "sorted (filter (\<lambda>i. i \<noteq> k) [0..<n])" for k
    by (rule sorted_filter [of id, simplified]) simp
  then show ?thesis
    by (simp add: dial_order_def select_target_def select_from_find Let_def sorted_sort_id)
qed

lemma dial_order_perm:
  assumes "ss \<noteq> []"
  shows "set (dial_order ss (length ss)) = {..<length ss}" "distinct (dial_order ss (length ss))"
  using select_lt [OF assms] by (auto simp: dial_order_select)

text \<open>The outcome of a walk over a dial order.\<close>

lemma dial_walk_outcome:
  assumes "dial_walk targets dial order states tot = (states', tot', r)"
    and "set order \<subseteq> {..<length states}" and "distinct order"
  shows "length states' = length states \<and>
    (case r of
       None \<Rightarrow> (\<forall>i \<in> set order. \<not> dial_ok (targets ! i) (dr_outcome (dial i)) \<and>
         states' ! i = fst (record_failure (states ! i) (dr_now (dial i)) (dr_wall (dial i)) 0))
     | Some idx \<Rightarrow> (\<exists>before after. order = before @ idx # after \<and> dial_ok (targets ! idx) (dr_outcome (dial idx)) \<and>
         (\<forall>j \<in> set before. \<not> dial_ok (targets ! j) (dr_outcome (dial j))) \<and>
         states' ! idx = fst (record_success (states ! idx) (dr_now (dial idx)) (dr_wall (dial idx)) 0))) \<and>
    (\<forall>i. i \<notin> set order \<longrightarrow> states' ! i = states ! i)"
  using assms
proof (induction order arbitrary: states tot)
  case Nil
  then show ?case by auto
next
  case (Cons k order)
  have tot_irrelevant: "fst (record_failure s a b x) = fst (record_failure s a b 0)"
    "fst (record_success s a b x) = fst (record_success s a b 0)" for s a b x
    by (simp_all add: record_failure_def record_success_def Let_def split: Health.splits)
  show ?case
  proof (cases "dial_ok (targets ! k) (dr_outcome (dial k))")
    case True
    obtain s t where rs: "record_success (states ! k) (dr_now (dial k)) (dr_wall (dial k)) tot = (s, t)"
      by fastforce
    have "states' = states[k := s]" "r = Some k"
      using Cons.prems(1) True rs by (simp_all add: Let_def)
    moreover have "s = fst (record_success (states ! k) (dr_now (dial k)) (dr_wall (dial k)) 0)"
      using rs tot_irrelevant(2) [of "states ! k" "dr_now (dial k)" "dr_wall (dial k)" tot] by simp
    moreover have "k # order = [] @ k # order" by simp
    ultimately show ?thesis
      using True Cons.prems(2) by (fastforce simp: nth_list_update)
  next
    case False
    obtain s t where rf: "record_failure (states ! k) (dr_now (dial k)) (dr_wall (dial k)) tot = (s, t)"
      by fastforce
    have run: "dial_walk targets dial order (states[k := s]) t = (states', tot', r)"
      using Cons.prems(1) False rf by (simp add: Let_def)
    have sk: "s = fst (record_failure (states ! k) (dr_now (dial k)) (dr_wall (dial k)) 0)"
      using rf tot_irrelevant(1) [of "states ! k" "dr_now (dial k)" "dr_wall (dial k)" tot] by simp
    note IH = Cons.IH [OF run]
    have k: "k < length states" "k \<notin> set order" and sub: "set order \<subseteq> {..<length (states[k := s])}"
      and dis: "distinct order" using Cons.prems(2,3) by simp_all
    have other: "states[k := s] ! i = states ! i" if "i \<in> set order" for i
      using that k(2) by (metis nth_list_update_neq)
    note IH' = Cons.IH [OF run sub dis]
    show ?thesis
    proof (cases r)
      case None
      then show ?thesis
        using IH' False other k sk by (auto simp: nth_list_update)
    next
      case (Some idx)
      then obtain before after where o: "order = before @ idx # after"
        "dial_ok (targets ! idx) (dr_outcome (dial idx))"
        "\<forall>j \<in> set before. \<not> dial_ok (targets ! j) (dr_outcome (dial j))"
        "states' ! idx = fst (record_success (states[k := s] ! idx) (dr_now (dial idx)) (dr_wall (dial idx)) 0)"
        using IH' by auto
      have "k # order = (k # before) @ idx # after" using o(1) by simp
      moreover have "\<forall>j \<in> set (k # before). \<not> dial_ok (targets ! j) (dr_outcome (dial j))"
        using o(3) False by simp
      moreover have "states[k := s] ! idx = states ! idx" using other o(1) by simp
      ultimately have "\<exists>before after. k # order = before @ idx # after \<and> dial_ok (targets ! idx) (dr_outcome (dial idx)) \<and>
         (\<forall>j \<in> set before. \<not> dial_ok (targets ! j) (dr_outcome (dial j))) \<and>
         states' ! idx = fst (record_success (states ! idx) (dr_now (dial idx)) (dr_wall (dial idx)) 0)"
        using o(2,4) by metis
      moreover have "length states' = length states" using IH' by simp
      moreover have "\<forall>i. i \<notin> set (k # order) \<longrightarrow> states' ! i = states ! i"
        using IH' by (simp add: nth_list_update_neq)
      ultimately show ?thesis using Some by simp
    qed
  qed
qed

section \<open>Properties\<close>

text \<open>Along every sequence of connect outcomes of a target,
  the failover counter equals (modulo the 64-bit wrap) the number of health transitions, and
  the counters stay in their ranges: a healthy target has fewer than three counted failures,
  a failed one fewer than two counted successes.\<close>

lemma failover_counts_transitions:
  "snd (health_run es (hs_new, 0)) = wrap64 (flips es (hs_new, 0)) \<and>
   hs_inv (fst (health_run es (hs_new, 0)))"
  using run_total [of "(hs_new, 0)" es] hs_inv_run [of "(hs_new, 0)" es] hs_inv_new by simp



text \<open>After any history, a success followed by three
  failures within the thirty-second window marks the target failed, and from there two
  successes in a row mark it healthy again.\<close>

lemma failover_detects_and_recovers:
  assumes "hs_state (fst (health_run (es @ [Succeed t0 w0]) (hs_new, 0))) = Healthy"
    and "t2 - t1 \<le> FAILURE_WINDOW" and "t3 - t1 \<le> FAILURE_WINDOW"
  shows "hs_state (fst (health_run (es @ [Succeed t0 w0, Fail t1 w1, Fail t2 w2, Fail t3 w3]) (hs_new, 0))) = Failed \<and>
    hs_state (fst (health_run (es @ [Succeed t0 w0, Fail t1 w1, Fail t2 w2, Fail t3 w3,
       Succeed t4 w4, Succeed t5 w5]) (hs_new, 0))) = Healthy"
proof -
  have app: "health_run (xs @ ys) w = health_run ys (health_run xs w)" for xs ys w
    by (induction xs arbitrary: w) simp_all
  obtain s tot where s: "health_run es (hs_new, 0) = (s, tot)" by fastforce
  obtain s0 tot0 where s0: "record_success s t0 w0 tot = (s0, tot0)" by fastforce
  have "hs_state s0 = Healthy" using assms(1) s s0 by (simp add: app)
  then have w: "hs_failure_window_start s0 = None"
    using s0 by (cases "hs_state s") (auto simp: record_success_def Let_def split: if_splits)
  have step0: "health_step (Succeed t0 w0) (s, tot) = (s0, tot0)" using s0 by simp
  have "hs_state (fst (health_run [Fail t1 w1, Fail t2 w2, Fail t3 w3] (s0, tot0))) = Failed"
    "hs_state (fst (health_run [Fail t1 w1, Fail t2 w2, Fail t3 w3, Succeed t4 w4, Succeed t5 w5] (s0, tot0))) = Healthy"
    using \<open>hs_state s0 = Healthy\<close> w assms(2,3) by (simp_all add: health_defs Let_def)
  then show ?thesis by (simp add: app s step0 del: health_step.simps)
qed

text \<open>The window is anchored at the first failure counted
  in it and restarts from one when it expires, so three failures in a row within three
  seconds leave the target healthy when an older window expires between the first two.\<close>

lemma failure_window_is_not_sliding:
  "hs_state (fst (health_run [Fail 0 0, Fail 29000000000 29, Fail 31000000000 31, Fail 32000000000 32]
     (hs_new, 0))) = Healthy"
  by (simp add: health_defs hs_new_def Let_def FAILURE_WINDOW_def)

text \<open>C11 (dial_with_failover_correct): the dial loop tries the selected target first (the first
  healthy one, or the first of all when every target is failed) and then the others in
  priority order, each once; it returns the first one that connects, and gives up only when
  every target has failed, each then having its failure recorded.\<close>

theorem dial_with_failover_correct:
  assumes "targets \<noteq> []" and "length states = length targets"
    and "dial_with_failover targets dial states tot = (states', tot', r)"
  shows "(\<exists>rest. dial_order states (length targets) = select_target states # rest) \<and>
    set (dial_order states (length targets)) = {..<length targets} \<and>
    distinct (dial_order states (length targets)) \<and>
    (r = None \<longleftrightarrow> (\<forall>i < length targets. \<not> dial_ok (targets ! i) (dr_outcome (dial i)))) \<and>
    (r = None \<longrightarrow> (\<forall>i < length targets. states' ! i =
       fst (record_failure (states ! i) (dr_now (dial i)) (dr_wall (dial i)) 0))) \<and>
    (\<forall>idx. r = Some idx \<longrightarrow> (\<exists>before after. dial_order states (length targets) = before @ idx # after \<and>
       dial_ok (targets ! idx) (dr_outcome (dial idx)) \<and>
       (\<forall>j \<in> set before. \<not> dial_ok (targets ! j) (dr_outcome (dial j)))))"
proof -
  let ?o = "dial_order states (length targets)"
  have ne: "states \<noteq> []" using assms(1,2) by auto
  have o: "set ?o = {..<length targets}" "distinct ?o"
    using dial_order_perm [OF ne] assms(2) by simp_all
  note w = dial_walk_outcome [OF assms(3) [unfolded dial_with_failover_def]]
  have W: "case r of
       None \<Rightarrow> (\<forall>i \<in> set ?o. \<not> dial_ok (targets ! i) (dr_outcome (dial i)) \<and>
         states' ! i = fst (record_failure (states ! i) (dr_now (dial i)) (dr_wall (dial i)) 0))
     | Some idx \<Rightarrow> (\<exists>before after. ?o = before @ idx # after \<and> dial_ok (targets ! idx) (dr_outcome (dial idx)) \<and>
         (\<forall>j \<in> set before. \<not> dial_ok (targets ! j) (dr_outcome (dial j))) \<and>
         states' ! idx = fst (record_success (states ! idx) (dr_now (dial idx)) (dr_wall (dial idx)) 0))"
    using w o assms(2) by auto
  have hd: "\<exists>rest. ?o = select_target states # rest" by (simp add: dial_order_select)
  show ?thesis
  proof (cases r)
    case None
    then show ?thesis using W o hd by auto
  next
    case (Some idx)
    then obtain before after where b: "?o = before @ idx # after" "dial_ok (targets ! idx) (dr_outcome (dial idx))"
      "\<forall>j \<in> set before. \<not> dial_ok (targets ! j) (dr_outcome (dial j))"
      using W by auto
    have "idx < length targets" using b(1) o(1) by (metis in_set_conv_decomp lessThan_iff)
    with b show ?thesis using Some o hd by auto
  qed
qed

definition second_up :: "nat \<Rightarrow> dial_result" where
  "second_up i = \<lparr>dr_outcome = (if i = 1 then Connected True else DialError), dr_now = 5, dr_wall = 5\<rparr>"

theorem dial_with_failover_correct_witness:
  "distinct (dial_order [hs_new, hs_new] (length two_targets))"
proof -
  have "dial_with_failover two_targets second_up [hs_new, hs_new] 0 =
      (fst (dial_with_failover two_targets second_up [hs_new, hs_new] 0),
       fst (snd (dial_with_failover two_targets second_up [hs_new, hs_new] 0)),
       snd (snd (dial_with_failover two_targets second_up [hs_new, hs_new] 0)))"
    by simp
  from dial_with_failover_correct [OF _ _ this] show ?thesis
    by (simp add: two_targets_def)
qed

text \<open>The priority order is a permutation of all target indices in
  which a target comes before another exactly when its priority is lower, ties being broken
  by the position in the rule.\<close>

lemma sort_priority_correct:
  assumes "sort_priority targets = Some order"
  shows "mset order = mset [0..<length targets] \<and>
    (\<forall>i j. i < j \<longrightarrow> j < length order \<longrightarrow>
       rt_priority (targets ! (order ! i)) < rt_priority (targets ! (order ! j)) \<or>
       rt_priority (targets ! (order ! i)) = rt_priority (targets ! (order ! j)) \<and> order ! i < order ! j)"
proof -
  let ?k = "\<lambda>i. (rt_priority (targets ! i), i)"
  have o: "order = sort_key ?k [0..<length targets]"
    using assms by (auto simp: sort_priority_def split: if_splits)
  have d: "distinct order" unfolding o by simp
  have s: "sorted (map ?k order)" unfolding o by simp
  have "rt_priority (targets ! (order ! i)) < rt_priority (targets ! (order ! j)) \<or>
       rt_priority (targets ! (order ! i)) = rt_priority (targets ! (order ! j)) \<and> order ! i < order ! j"
    if ij: "i < j" "j < length order" for i j
  proof -
    have "?k (order ! i) \<le> ?k (order ! j)"
      using sorted_nth_mono [OF s, of i j] ij by simp
    moreover have "order ! i \<noteq> order ! j"
      using d ij by (simp add: nth_eq_iff_index_eq)
    ultimately show ?thesis by (auto simp: less_eq_prod_def)
  qed
  then show ?thesis using o by simp
qed

end
