(* ===== verification/Resolver.thy ===== *)
theory Resolver
  imports Host_Target "HOL-Library.AList" "HOL-Library.Multiset"
begin

text \<open>
  The DNS resolver layer (crates/portunus-forwarder/src/resolver): the TTL-clamped cache with
  single-flight coalescing and stale-while-error grace (cache.rs), and the resolution and dial
  walk on top of it (mod.rs).  The upstream resolver is a parameter: its answers are events.

  The cache is an association list whose order stands for the unspecified iteration order of
  the hash map.  A \<open>Notify\<close> is a number; \<open>rc_woken\<close> holds the ones on which
  \<open>notify_waiters\<close> has been called.  Tasks interleave at the critical sections of the mutex.
\<close>

section \<open>Configuration and errors (mod.rs)\<close>

record ResolverConfig =
  cache_floor :: nat
  cache_ceiling :: nat
  stale_while_error_grace :: nat
  attempt_timeout :: nat
  negative_cache_retry :: nat
  max_concurrent_resolves :: nat
  max_cache_entries :: nat
  dial_send_buffer_bytes :: "nat option"
  dial_recv_buffer_bytes :: "nat option"

abbreviation secs :: "nat \<Rightarrow> nat" where
  "secs n \<equiv> n * 1000000000"

definition resolver_config_default :: ResolverConfig where
  "resolver_config_default =
     \<lparr>cache_floor = secs 5, cache_ceiling = secs 300, stale_while_error_grace = secs 30,
      attempt_timeout = secs 3, negative_cache_retry = secs 3, max_concurrent_resolves = 64,
      max_cache_entries = 8192, dial_send_buffer_bytes = Some 1048576,
      dial_recv_buffer_bytes = Some 1048576\<rparr>"

datatype ResolverError = EmptyAnswer | LookupError string | AttemptTimeout nat | Overloaded nat

datatype ResolveFailReason =
    NxDomain | ServFail | AttemptTimeoutReason | AllAddrsUnreachableReason | ResolverOverloaded | OtherReason

fun fail_reason_as_str :: "ResolveFailReason \<Rightarrow> string" where
  "fail_reason_as_str NxDomain = ''nxdomain''"
| "fail_reason_as_str ServFail = ''servfail''"
| "fail_reason_as_str AttemptTimeoutReason = ''attempt_timeout''"
| "fail_reason_as_str AllAddrsUnreachableReason = ''all_addrs_unreachable''"
| "fail_reason_as_str ResolverOverloaded = ''resolver_overloaded''"
| "fail_reason_as_str OtherReason = ''other''"

text \<open>\<open>str::contains\<close>.\<close>

fun str_contains :: "string \<Rightarrow> string \<Rightarrow> bool" where
  "str_contains needle [] = (needle = [])"
| "str_contains needle (c # cs) = (strip_prefix needle (c # cs) \<noteq> None \<or> str_contains needle cs)"

fun fail_reason_classify :: "ResolverError \<Rightarrow> ResolveFailReason" where
  "fail_reason_classify EmptyAnswer = AllAddrsUnreachableReason"
| "fail_reason_classify (AttemptTimeout d) = AttemptTimeoutReason"
| "fail_reason_classify (Overloaded n) = ResolverOverloaded"
| "fail_reason_classify (LookupError msg) =
     (let lower = to_ascii_lowercase msg in
      if str_contains ''nxdomain'' lower \<or> str_contains ''no records'' lower then NxDomain
      else if str_contains ''servfail'' lower \<or> str_contains ''server failure'' lower then ServFail
      else OtherReason)"

record ResolveAnswer =
  ra_addrs :: "IpAddr list"
  ra_ttl :: nat

section \<open>The cache (cache.rs)\<close>

definition PENDING_ABANDON_MARGIN :: nat where
  "PENDING_ABANDON_MARGIN = secs 1"

datatype CacheEntry =
    CPending nat nat
  | CResolved "IpAddr list" nat nat
  | CStale "IpAddr list" nat nat
  | CFailed nat ResolverError nat

datatype AnswerSource = Fresh | Cached | Stale

record CacheResult =
  cr_addrs :: "IpAddr list"
  cr_source :: AnswerSource

record ResolverCache =
  rc_inner :: "(Hostname \<times> CacheEntry) list"
  rc_slots :: nat
  rc_next_notify :: nat
  rc_woken :: "nat list"

definition cache_new :: "nat \<Rightarrow> ResolverCache" where
  "cache_new n = \<lparr>rc_inner = [], rc_slots = n, rc_next_notify = 0, rc_woken = []\<rparr>"

definition install_pending :: "ResolverCache \<Rightarrow> Hostname \<Rightarrow> nat \<Rightarrow> ResolverCache" where
  "install_pending c name now =
     c\<lparr>rc_inner := AList.update name (CPending (rc_next_notify c) now) (rc_inner c),
       rc_next_notify := rc_next_notify c + 1\<rparr>"

definition clamp_ttl :: "nat \<Rightarrow> ResolverConfig \<Rightarrow> nat" where
  "clamp_ttl ttl config = min (max ttl (cache_floor config)) (cache_ceiling config)"

fun entry_deadline :: "CacheEntry \<Rightarrow> nat option" where
  "entry_deadline (CPending n s) = None"
| "entry_deadline (CResolved a e l) = Some e"
| "entry_deadline (CStale a g l) = Some g"
| "entry_deadline (CFailed r e l) = Some r"

fun entry_last_access :: "CacheEntry \<Rightarrow> nat option" where
  "entry_last_access (CPending n s) = None"
| "entry_last_access (CResolved a e l) = Some l"
| "entry_last_access (CStale a g l) = Some l"
| "entry_last_access (CFailed r e l) = Some l"

text \<open>The predicate of \<open>retain\<close>, and the waiters it wakes.\<close>

definition retained :: "nat \<Rightarrow> nat \<Rightarrow> CacheEntry \<Rightarrow> bool" where
  "retained now abandon_after entry =
     (case entry of
        CPending n started_at \<Rightarrow> \<not> now - started_at > abandon_after
      | _ \<Rightarrow> (case entry_deadline entry of None \<Rightarrow> True | Some deadline \<Rightarrow> deadline > now))"

definition reaped :: "nat \<Rightarrow> nat \<Rightarrow> (Hostname \<times> CacheEntry) list \<Rightarrow> nat list" where
  "reaped now abandon_after m =
     List.map_filter (\<lambda>(k, e). case e of
        CPending n s \<Rightarrow> if retained now abandon_after e then None else Some n | _ \<Rightarrow> None) m"

text \<open>\<open>min_by_key\<close>: the first entry with the least access time.\<close>

definition lru_victim :: "(Hostname \<times> CacheEntry) list \<Rightarrow> Hostname option" where
  "lru_victim m =
     (case List.map_filter (\<lambda>(k, e). map_option (\<lambda>a. (k, a)) (entry_last_access e)) m of
        [] \<Rightarrow> None
      | x # xs \<Rightarrow> Some (fst (arg_min_list snd (x # xs))))"

lemma lru_victim_in:
  "lru_victim m = Some k \<Longrightarrow> \<exists>e a. (k, e) \<in> set m \<and> entry_last_access e = Some a \<and>
     (\<forall>x \<in> set m. \<forall>a'. entry_last_access (snd x) = Some a' \<longrightarrow> a \<le> a')"
proof -
  let ?l = "List.map_filter (\<lambda>(k, e). map_option (\<lambda>a. (k, a)) (entry_last_access e)) m"
  assume v: "lru_victim m = Some k"
  then have ne: "?l \<noteq> []" and k: "k = fst (arg_min_list snd ?l)"
    by (auto simp: lru_victim_def split: list.splits)
  obtain a where ka: "arg_min_list snd ?l = (k, a)" using k by (metis prod.collapse)
  have mem: "(k', a') \<in> set ?l \<longleftrightarrow> (\<exists>e. (k', e) \<in> set m \<and> entry_last_access e = Some a')" for k' a'
    by (force simp: List.map_filter_def)
  have "(k, a) \<in> set ?l" using arg_min_list_in [OF ne, of snd] ka by simp
  moreover have "a \<le> a'" if "(k', a') \<in> set ?l" for k' a'
  proof -
    have "a = Min (snd ` set ?l)" using f_arg_min_list_f [OF ne, of snd] ka by simp
    moreover have "a' \<in> snd ` set ?l" using imageI [OF that, of snd] by simp
    ultimately show ?thesis by (simp add: Min_le)
  qed
  ultimately have "\<exists>e. (k, e) \<in> set m \<and> entry_last_access e = Some a"
    "\<And>k' e' a'. (k', e') \<in> set m \<Longrightarrow> entry_last_access e' = Some a' \<Longrightarrow> a \<le> a'"
    using mem by blast+
  then show ?thesis by (metis prod.collapse)
qed

function evict_lru :: "(Hostname \<times> CacheEntry) list \<Rightarrow> nat \<Rightarrow> (Hostname \<times> CacheEntry) list" where
  "evict_lru m max_entries =
     (if length m < max_entries then m
      else case lru_victim m of None \<Rightarrow> m | Some k \<Rightarrow> evict_lru (AList.delete k m) max_entries)"
  by pat_completeness auto
termination
proof (relation "measure (\<lambda>(m, n). length m)")
  fix m :: "(Hostname \<times> CacheEntry) list" and n k
  assume "lru_victim m = Some k"
  then obtain e where "(k, e) \<in> set m" using lru_victim_in by blast
  then have "length (filter (\<lambda>x. k \<noteq> fst x) m) < length m" by (auto intro!: length_filter_less)
  then show "((AList.delete k m, n), m, n) \<in> measure (\<lambda>(m, n). length m)"
    by (simp add: AList.delete_eq case_prod_unfold)
qed simp

declare evict_lru.simps [simp del]

definition evict_locked :: "ResolverCache \<Rightarrow> nat \<Rightarrow> nat \<Rightarrow> nat \<Rightarrow> ResolverCache" where
  "evict_locked c now max_entries abandon_after =
     (if length (rc_inner c) < max_entries then c
      else let kept = filter (\<lambda>(k, e). retained now abandon_after e) (rc_inner c) in
        c\<lparr>rc_inner := evict_lru kept max_entries,
          rc_woken := reaped now abandon_after (rc_inner c) @ rc_woken c\<rparr>)"

text \<open>One critical section of \<open>get_or_resolve\<close>: an answer, an error, a wait on a \<open>Notify\<close>, or
  a resolve to perform (with the addresses to fall back on), for which a slot is taken and a
  placeholder installed.\<close>

datatype lookup_step =
    LHit CacheResult | LErr ResolverError | LWait nat | LResolve "IpAddr list option"

definition begin_resolve ::
  "ResolverCache \<Rightarrow> Hostname \<Rightarrow> nat \<Rightarrow> ResolverConfig \<Rightarrow> IpAddr list option \<Rightarrow> ResolverCache \<times> lookup_step" where
  "begin_resolve c name now config stale =
     (if rc_slots c = 0 then (c, LErr (Overloaded (max_concurrent_resolves config)))
      else (install_pending (c\<lparr>rc_slots := rc_slots c - 1\<rparr>) name now, LResolve stale))"

definition cache_lookup ::
  "ResolverCache \<Rightarrow> Hostname \<Rightarrow> nat \<Rightarrow> ResolverConfig \<Rightarrow> ResolverCache \<times> lookup_step" where
  "cache_lookup c name now config =
     (let abandon_after = attempt_timeout config + PENDING_ABANDON_MARGIN in
      case map_of (rc_inner c) name of
        Some (CResolved addrs expiry last_access) \<Rightarrow>
          if now < expiry
          then (c\<lparr>rc_inner := AList.update name (CResolved addrs expiry now) (rc_inner c)\<rparr>,
                LHit \<lparr>cr_addrs = addrs, cr_source = Cached\<rparr>)
          else begin_resolve c name now config (Some addrs)
      | Some (CPending notify started_at) \<Rightarrow>
          if now - started_at > abandon_after
          then (if rc_slots c = 0 then (c, LErr (Overloaded (max_concurrent_resolves config)))
                else begin_resolve (c\<lparr>rc_woken := notify # rc_woken c\<rparr>) name now config None)
          else (c, LWait notify)
      | Some (CStale stale_addrs fail_grace_until last_access) \<Rightarrow>
          if now < fail_grace_until
          then (c\<lparr>rc_inner := AList.update name (CStale stale_addrs fail_grace_until now) (rc_inner c)\<rparr>,
                LHit \<lparr>cr_addrs = stale_addrs, cr_source = Stale\<rparr>)
          else begin_resolve c name now config None
      | Some (CFailed retry_after last_reason last_access) \<Rightarrow>
          if now < retry_after then (c, LErr last_reason)
          else begin_resolve c name now config None
      | None \<Rightarrow>
          if rc_slots c = 0 then (c, LErr (Overloaded (max_concurrent_resolves config)))
          else begin_resolve (evict_locked c now (max_cache_entries config) abandon_after) name now config None)"

definition put_entry :: "ResolverCache \<Rightarrow> Hostname \<Rightarrow> CacheEntry \<Rightarrow> ResolverCache" where
  "put_entry c name entry =
     c\<lparr>rc_inner := AList.update name entry (rc_inner c),
       rc_woken := (case map_of (rc_inner c) name of
           Some (CPending notify s) \<Rightarrow> notify # rc_woken c | _ \<Rightarrow> rc_woken c)\<rparr>"

definition commit_failure ::
  "ResolverCache \<Rightarrow> Hostname \<Rightarrow> ResolverError \<Rightarrow> IpAddr list option \<Rightarrow> ResolverConfig \<Rightarrow> nat
   \<Rightarrow> ResolverCache \<times> (ResolverError, CacheResult) result" where
  "commit_failure c name err stale config now =
     (case stale of
        Some addrs \<Rightarrow>
          (put_entry c name (CStale addrs (now + stale_while_error_grace config) now),
           Inr \<lparr>cr_addrs = addrs, cr_source = Stale\<rparr>)
      | None \<Rightarrow>
          (put_entry c name (CFailed (now + negative_cache_retry config) err now), Inl err))"

definition apply_refresh ::
  "ResolverCache \<Rightarrow> Hostname \<Rightarrow> (ResolverError, ResolveAnswer) result \<Rightarrow> IpAddr list option
   \<Rightarrow> ResolverConfig \<Rightarrow> nat \<Rightarrow> ResolverCache \<times> (ResolverError, CacheResult) result" where
  "apply_refresh c name outcome stale config now =
     (case outcome of
        Inr answer \<Rightarrow>
          if ra_addrs answer = [] then commit_failure c name EmptyAnswer stale config now
          else (put_entry c name (CResolved (ra_addrs answer) (now + clamp_ttl (ra_ttl answer) config) now),
                Inr \<lparr>cr_addrs = ra_addrs answer, cr_source = Fresh\<rparr>)
      | Inl err \<Rightarrow> commit_failure c name err stale config now)"

section \<open>Resolution and dialling (mod.rs)\<close>

fun is_ipv6 :: "IpAddr \<Rightarrow> bool" where
  "is_ipv6 (IpV4 a) = False"
| "is_ipv6 (IpV6 a) = True"

definition order_by_family :: "IpAddr list \<Rightarrow> bool \<Rightarrow> IpAddr list" where
  "order_by_family addrs prefer_ipv6 =
     (case partition is_ipv6 addrs of (v6, v4) \<Rightarrow> if prefer_ipv6 then v6 @ v4 else v4 @ v6)"

fun socket_addr :: "IpAddr \<Rightarrow> u16 \<Rightarrow> SocketAddr" where
  "socket_addr (IpV4 a) port = SockV4 a port"
| "socket_addr (IpV6 a) port = SockV6 a port"

datatype ConnectError = CeResolution ResolverError | CeAllAddrsUnreachable nat | CeDial

text \<open>\<open>cached\<close> is the outcome of \<open>get_or_resolve\<close> for the host name of a DNS target.\<close>

fun resolve_target ::
  "Target \<Rightarrow> u16 \<Rightarrow> bool \<Rightarrow> (Hostname \<Rightarrow> (ResolverError, CacheResult) result)
   \<Rightarrow> (ConnectError, SocketAddr list \<times> AnswerSource) result" where
  "resolve_target (TgtIp ip) port prefer_ipv6 cached = Inr ([socket_addr ip port], Fresh)"
| "resolve_target (TgtDns name) port prefer_ipv6 cached =
     rbind (map_err CeResolution (cached name)) (\<lambda>result.
       if cr_addrs result = [] then Inl (CeResolution EmptyAnswer)
       else Inr (map (\<lambda>ip. socket_addr ip port) (order_by_family (cr_addrs result) prefer_ipv6),
                 cr_source result))"

text \<open>\<open>dials a\<close>: dialling \<open>a\<close> succeeds within the attempt timeout.\<close>

fun dial_addrs :: "(SocketAddr \<Rightarrow> bool) \<Rightarrow> SocketAddr list \<Rightarrow> SocketAddr option" where
  "dial_addrs dials [] = None"
| "dial_addrs dials (a # as) = (if dials a then Some a else dial_addrs dials as)"

definition connect_target ::
  "Target \<Rightarrow> u16 \<Rightarrow> bool \<Rightarrow> (Hostname \<Rightarrow> (ResolverError, CacheResult) result) \<Rightarrow> (SocketAddr \<Rightarrow> bool)
   \<Rightarrow> (ConnectError, SocketAddr \<times> AnswerSource) result" where
  "connect_target target port prefer_ipv6 cached dials =
     rbind (resolve_target target port prefer_ipv6 cached) (\<lambda>(addrs, source).
       case target of
         TgtIp ip \<Rightarrow> if dials (addrs ! 0) then Inr (addrs ! 0, source) else Inl CeDial
       | TgtDns name \<Rightarrow>
           (case dial_addrs dials addrs of
              Some a \<Rightarrow> Inr (a, source)
            | None \<Rightarrow> Inl (CeAllAddrsUnreachable (length addrs))))"

section \<open>Tasks\<close>

text \<open>A caller of \<open>get_or_resolve\<close>: with \<open>n\<close> rounds left before the lock, waiting, resolving,
  done, or dropped.  The answers and failures the resolver has produced are recorded with
  their time.\<close>

datatype rc_task =
    TRound nat Hostname
  | TWait nat Hostname nat
  | TResolving Hostname "IpAddr list option"
  | TDone Hostname nat "(ResolverError, CacheResult) result"
  | TAborted

record rc_world =
  rcw_cache :: ResolverCache
  rcw_tasks :: "rc_task list"
  rcw_answers :: "(nat \<times> Hostname \<times> IpAddr list) list"
  rcw_failures :: "(nat \<times> Hostname) list"

definition log_outcome ::
  "nat \<Rightarrow> Hostname \<Rightarrow> (ResolverError, ResolveAnswer) result \<Rightarrow> rc_world \<Rightarrow> rc_world" where
  "log_outcome now name outcome w =
     (case outcome of
        Inr answer \<Rightarrow>
          if ra_addrs answer = [] then w\<lparr>rcw_failures := (now, name) # rcw_failures w\<rparr>
          else w\<lparr>rcw_answers := (now, name, ra_addrs answer) # rcw_answers w\<rparr>
      | Inl err \<Rightarrow> w\<lparr>rcw_failures := (now, name) # rcw_failures w\<rparr>)"

fun after_lookup :: "nat \<Rightarrow> Hostname \<Rightarrow> nat \<Rightarrow> lookup_step \<Rightarrow> rc_task" where
  "after_lookup n name now (LHit r) = TDone name now (Inr r)"
| "after_lookup n name now (LErr e) = TDone name now (Inl e)"
| "after_lookup n name now (LWait notify) = TWait n name notify"
| "after_lookup n name now (LResolve stale) = TResolving name stale"

inductive rc_step :: "ResolverConfig \<Rightarrow> rc_world \<Rightarrow> rc_world \<Rightarrow> bool" for config :: ResolverConfig where
  rc_call: "rc_step config w (w\<lparr>rcw_tasks := rcw_tasks w @ [TRound 4 name]\<rparr>)"
| rc_lock: "i < length (rcw_tasks w) \<Longrightarrow> rcw_tasks w ! i = TRound (Suc n) name \<Longrightarrow>
    cache_lookup (rcw_cache w) name now config = (c, step) \<Longrightarrow>
    rc_step config w (w\<lparr>rcw_cache := c, rcw_tasks := (rcw_tasks w)[i := after_lookup n name now step]\<rparr>)"
| rc_oscillate: "i < length (rcw_tasks w) \<Longrightarrow> rcw_tasks w ! i = TRound 0 name \<Longrightarrow>
    rc_step config w (w\<lparr>rcw_tasks := (rcw_tasks w)
      [i := TDone name now (Inl (LookupError ''cache state oscillation''))]\<rparr>)"
| rc_wake: "i < length (rcw_tasks w) \<Longrightarrow> rcw_tasks w ! i = TWait n name notify \<Longrightarrow>
    notify \<in> set (rc_woken (rcw_cache w)) \<Longrightarrow>
    rc_step config w (w\<lparr>rcw_tasks := (rcw_tasks w)[i := TRound n name]\<rparr>)"
| rc_finish: "i < length (rcw_tasks w) \<Longrightarrow> rcw_tasks w ! i = TResolving name stale \<Longrightarrow>
    apply_refresh (rcw_cache w) name outcome stale config now = (c, r) \<Longrightarrow>
    rc_step config w (log_outcome now name outcome
      (w\<lparr>rcw_cache := c\<lparr>rc_slots := rc_slots c + 1\<rparr>, rcw_tasks := (rcw_tasks w)[i := TDone name now r]\<rparr>))"
| rc_abort: "i < length (rcw_tasks w) \<Longrightarrow> rcw_tasks w ! i = TResolving name stale \<Longrightarrow>
    rc_step config w (w\<lparr>rcw_cache := (rcw_cache w)\<lparr>rc_slots := rc_slots (rcw_cache w) + 1\<rparr>,
      rcw_tasks := (rcw_tasks w)[i := TAborted]\<rparr>)"
| rc_cancel: "i < length (rcw_tasks w) \<Longrightarrow> rcw_tasks w ! i = TWait n name notify \<Longrightarrow>
    rc_step config w (w\<lparr>rcw_tasks := (rcw_tasks w)[i := TAborted]\<rparr>)"

definition rcw_init :: "ResolverConfig \<Rightarrow> rc_world" where
  "rcw_init config = \<lparr>rcw_cache = cache_new (max_concurrent_resolves config), rcw_tasks = [],
     rcw_answers = [], rcw_failures = []\<rparr>"

section \<open>Eviction\<close>

lemma lru_victim_None: "lru_victim m = None \<Longrightarrow> x \<in> set m \<Longrightarrow> entry_last_access (snd x) = None"
proof -
  assume "lru_victim m = None" and x: "x \<in> set m"
  then have "List.map_filter (\<lambda>(k, e). map_option (\<lambda>a. (k, a)) (entry_last_access e)) m = []"
    by (simp add: lru_victim_def split: list.splits)
  then show ?thesis using x by (auto simp: List.map_filter_def filter_empty_conv case_prod_unfold)
qed

lemma delete_set:
  "distinct (map fst m) \<Longrightarrow> (k, e) \<in> set m \<Longrightarrow> set (AList.delete k m) = set m - {(k, e)}"
  by (auto simp: AList.delete_eq case_prod_unfold dest: eq_key_imp_eq_value)

definition evicts_lru :: "(Hostname \<times> CacheEntry) list \<Rightarrow> (Hostname \<times> CacheEntry) list \<Rightarrow> nat \<Rightarrow> bool" where
  "evicts_lru m r n \<longleftrightarrow> distinct (map fst r) \<and> set r \<subseteq> set m \<and>
     (\<forall>x \<in> set m. entry_last_access (snd x) = None \<longrightarrow> x \<in> set r) \<and>
     (length r < n \<or> (\<forall>x \<in> set r. entry_last_access (snd x) = None)) \<and>
     (\<forall>x \<in> set m - set r. \<forall>y \<in> set r. \<forall>a b. entry_last_access (snd x) = Some a \<longrightarrow>
        entry_last_access (snd y) = Some b \<longrightarrow> a \<le> b)"

lemma evicts_lruI:
  assumes "distinct (map fst r)" and "set r \<subseteq> set m"
    and "\<And>x. x \<in> set m \<Longrightarrow> entry_last_access (snd x) = None \<Longrightarrow> x \<in> set r"
    and "length r < n \<or> (\<forall>x \<in> set r. entry_last_access (snd x) = None)"
    and "\<And>x y a b. x \<in> set m \<Longrightarrow> x \<notin> set r \<Longrightarrow> y \<in> set r \<Longrightarrow> entry_last_access (snd x) = Some a \<Longrightarrow>
      entry_last_access (snd y) = Some b \<Longrightarrow> a \<le> b"
  shows "evicts_lru m r n"
  unfolding evicts_lru_def
  by (intro conjI ballI allI impI, rule assms(1), rule assms(2), erule (1) assms(3), rule assms(4),
      erule DiffE, rule assms(5))

lemma evicts_lruD:
  assumes "evicts_lru m r n"
  shows "distinct (map fst r)" "set r \<subseteq> set m"
    "x \<in> set m \<Longrightarrow> entry_last_access (snd x) = None \<Longrightarrow> x \<in> set r"
    "length r < n \<or> (\<forall>x \<in> set r. entry_last_access (snd x) = None)"
    "x \<in> set m \<Longrightarrow> x \<notin> set r \<Longrightarrow> y \<in> set r \<Longrightarrow> entry_last_access (snd x) = Some a \<Longrightarrow>
      entry_last_access (snd y) = Some b \<Longrightarrow> a \<le> b"
  using assms unfolding evicts_lru_def by simp_all

lemma evict_lru_stop:
  "length m < n \<or> lru_victim m = None \<Longrightarrow> evict_lru m n = m"
  by (subst evict_lru.simps) auto

lemma evict_lru_correct: "distinct (map fst m) \<Longrightarrow> evicts_lru m (evict_lru m n) n"
proof (induction m n rule: evict_lru.induct)
  case (1 m n)
  show ?case
  proof (cases "length m < n \<or> lru_victim m = None")
    case True
    have "length m < n \<or> (\<forall>x \<in> set m. entry_last_access (snd x) = None)"
      using True lru_victim_None by blast
    then show ?thesis using 1(2) by (simp add: evicts_lru_def evict_lru_stop [OF True])
  next
    case False
    then obtain k where k: "lru_victim m = Some k" "\<not> length m < n" by auto
    obtain e a where e: "(k, e) \<in> set m" "entry_last_access e = Some a"
      "\<And>x a'. x \<in> set m \<Longrightarrow> entry_last_access (snd x) = Some a' \<Longrightarrow> a \<le> a'"
      using lru_victim_in [OF k(1)] by blast
    have run: "evict_lru m n = evict_lru (AList.delete k m) n"
      by (subst evict_lru.simps) (simp add: k)
    have d: "distinct (map fst (AList.delete k m))" by (rule distinct_delete [OF 1(2)])
    note I = evicts_lruD [OF 1(1) [OF k(2,1) d], folded run]
    note s = delete_set [OF 1(2) e(1)]
    show ?thesis
    proof (rule evicts_lruI [OF I(1)])
      show "set (evict_lru m n) \<subseteq> set m" using I(2) unfolding s by blast
      show "x \<in> set (evict_lru m n)" if "x \<in> set m" "entry_last_access (snd x) = None" for x
        using I(3) [of x] that e(2) unfolding s by fastforce
      show "b \<le> b'" if x: "x \<in> set m" "x \<notin> set (evict_lru m n)" and y: "y \<in> set (evict_lru m n)"
        and b: "entry_last_access (snd x) = Some b" "entry_last_access (snd y) = Some b'" for x y b b'
      proof (cases "x = (k, e)")
        case True
        have "y \<in> set m" using I(2) y unfolding s by blast
        then show ?thesis using True e(2) e(3) [of y b'] b by simp
      next
        case False
        then show ?thesis using I(5) [of x y b b'] x y b unfolding s by blast
      qed
    qed (rule I(4))
  qed
qed

section \<open>The critical sections\<close>

definition keys_ok :: "ResolverCache \<Rightarrow> bool" where
  "keys_ok c \<longleftrightarrow> distinct (map fst (rc_inner c))"

definition wake_ok :: "ResolverCache \<Rightarrow> nat \<Rightarrow> bool" where
  "wake_ok c n \<longleftrightarrow> n \<in> set (rc_woken c) \<or> (\<exists>h s. map_of (rc_inner c) h = Some (CPending n s))"

text \<open>Facts about entries that a placeholder satisfies and that do not mention the access time.\<close>

definition stable :: "(Hostname \<Rightarrow> CacheEntry \<Rightarrow> bool) \<Rightarrow> bool" where
  "stable P \<longleftrightarrow> (\<forall>h n s. P h (CPending n s)) \<and>
     (\<forall>h a x l l'. P h (CResolved a x l) \<longrightarrow> P h (CResolved a x l')) \<and>
     (\<forall>h a x l l'. P h (CStale a x l) \<longrightarrow> P h (CStale a x l'))"

definition entries_ok :: "(Hostname \<Rightarrow> CacheEntry \<Rightarrow> bool) \<Rightarrow> ResolverCache \<Rightarrow> bool" where
  "entries_ok P c \<longleftrightarrow> (\<forall>h e. map_of (rc_inner c) h = Some e \<longrightarrow> P h e)"

definition sound_move ::
  "(Hostname \<Rightarrow> CacheEntry \<Rightarrow> bool) \<Rightarrow> ResolverCache \<Rightarrow> ResolverCache \<Rightarrow> bool" where
  "sound_move P c c' \<longleftrightarrow> keys_ok c' \<and> (\<forall>n. wake_ok c n \<longrightarrow> wake_ok c' n) \<and>
     (entries_ok P c \<longrightarrow> entries_ok P c')"

lemma sound_refl: "keys_ok c \<Longrightarrow> sound_move P c c"
  by (simp add: sound_move_def)

lemma sound_trans: "sound_move P a b \<Longrightarrow> sound_move P b c \<Longrightarrow> sound_move P a c"
  by (simp add: sound_move_def)

lemma sound_evict:
  assumes "keys_ok c"
  shows "sound_move P c (evict_locked c now max_entries abandon_after)"
proof (cases "length (rc_inner c) < max_entries")
  case True
  then show ?thesis using assms by (simp add: evict_locked_def sound_refl)
next
  case False
  let ?kept = "filter (\<lambda>(k, e). retained now abandon_after e) (rc_inner c)"
  let ?c = "evict_locked c now max_entries abandon_after"
  have d: "distinct (map fst (rc_inner c))" using assms by (simp add: keys_ok_def)
  have ev: "rc_inner ?c = evict_lru ?kept max_entries"
    "rc_woken ?c = reaped now abandon_after (rc_inner c) @ rc_woken c"
    using False by (simp_all add: evict_locked_def Let_def)
  note I = evicts_lruD [OF evict_lru_correct [OF distinct_map_filter [OF d], of "\<lambda>(k, e). retained now abandon_after e"
      max_entries], folded ev(1)]
  have older: "map_of (rc_inner c) h = Some e" if "map_of (rc_inner ?c) h = Some e" for h e
  proof -
    have "(h, e) \<in> set ?kept" using that I(2) map_of_SomeD by fastforce
    then show ?thesis using d by simp
  qed
  have "wake_ok ?c n" if w: "wake_ok c n" for n
  proof (cases "n \<in> set (rc_woken c)")
    case True
    then show ?thesis using ev(2) by (simp add: wake_ok_def)
  next
    case n: False
    then obtain h s where h: "map_of (rc_inner c) h = Some (CPending n s)" using w by (auto simp: wake_ok_def)
    have mem: "(h, CPending n s) \<in> set (rc_inner c)" using h map_of_SomeD by fastforce
    show ?thesis
    proof (cases "retained now abandon_after (CPending n s)")
      case True
      then have "(h, CPending n s) \<in> set ?kept" using mem by simp
      then have "(h, CPending n s) \<in> set (rc_inner ?c)" using I(3) [of "(h, CPending n s)"] by simp
      then have "map_of (rc_inner ?c) h = Some (CPending n s)" using I(1) by simp
      then show ?thesis by (auto simp: wake_ok_def)
    next
      case False
      have "n \<in> set (reaped now abandon_after (rc_inner c))"
        using mem False by (force simp: reaped_def List.map_filter_def)
      then show ?thesis using ev(2) by (simp add: wake_ok_def)
    qed
  qed
  then show ?thesis using older I(1) by (simp add: sound_move_def keys_ok_def entries_ok_def)
qed

text \<open>Replacing the entry of one name, when the waiters of a replaced placeholder are woken.\<close>

lemma sound_update:
  assumes "keys_ok c" and "rc_inner c' = AList.update name e (rc_inner c)"
    and "set (rc_woken c) \<subseteq> set (rc_woken c')"
    and "\<And>n s. map_of (rc_inner c) name = Some (CPending n s) \<Longrightarrow> n \<in> set (rc_woken c')"
    and "entries_ok P c \<Longrightarrow> P name e"
  shows "sound_move P c c'"
proof -
  have "wake_ok c' n" if w: "wake_ok c n" for n
  proof (cases "n \<in> set (rc_woken c')")
    case False
    then obtain h s where h: "map_of (rc_inner c) h = Some (CPending n s)"
      using w assms(3) by (auto simp: wake_ok_def)
    then have "h \<noteq> name" using assms(4) False by auto
    then show ?thesis using h assms(2) by (auto simp: wake_ok_def update_conv')
  qed (simp add: wake_ok_def)
  moreover have "entries_ok P c'" if "entries_ok P c"
    using assms(5) [OF that] that assms(2) by (auto simp: entries_ok_def update_conv' split: if_splits)
  moreover have "keys_ok c'" using assms(1,2) by (simp add: keys_ok_def distinct_update)
  ultimately show ?thesis by (simp add: sound_move_def)
qed

lemma sound_begin:
  assumes "keys_ok c" and "begin_resolve c name now config stale = (c', step)" and "stable P"
    and "\<And>n s. map_of (rc_inner c) name = Some (CPending n s) \<Longrightarrow> n \<in> set (rc_woken c)"
  shows "sound_move P c c'"
proof (cases "rc_slots c = 0")
  case True
  then show ?thesis using assms(1,2) by (simp add: begin_resolve_def sound_refl)
next
  case False
  then have c': "c' = install_pending (c\<lparr>rc_slots := rc_slots c - 1\<rparr>) name now"
    using assms(2) by (simp add: begin_resolve_def)
  show ?thesis
    by (rule sound_update [OF assms(1), of _ name "CPending (rc_next_notify c) now"])
      (use assms(3,4) in \<open>auto simp: c' install_pending_def stable_def\<close>)
qed

lemma sound_put:
  assumes "keys_ok c" and "entries_ok P c \<Longrightarrow> P name e"
  shows "sound_move P c (put_entry c name e)"
  by (rule sound_update [OF assms(1), of _ name e])
    (use assms(2) in \<open>auto simp: put_entry_def split: option.splits CacheEntry.splits\<close>)

text \<open>What a lookup reports, from the entry it finds.\<close>

definition lookup_report :: "ResolverCache \<Rightarrow> Hostname \<Rightarrow> nat \<Rightarrow> ResolverCache \<Rightarrow> lookup_step \<Rightarrow> bool" where
  "lookup_report c name now c' step \<longleftrightarrow>
     (case step of
        LHit r \<Rightarrow> rc_slots c' = rc_slots c \<and>
          (\<exists>x l. now < x \<and>
             (map_of (rc_inner c) name = Some (CResolved (cr_addrs r) x l) \<and> cr_source r = Cached \<or>
              map_of (rc_inner c) name = Some (CStale (cr_addrs r) x l) \<and> cr_source r = Stale))
      | LErr e \<Rightarrow> rc_slots c' = rc_slots c
      | LWait n \<Rightarrow> rc_slots c' = rc_slots c \<and> wake_ok c n
      | LResolve stale \<Rightarrow> rc_slots c = rc_slots c' + 1 \<and>
          (\<forall>a. stale = Some a \<longrightarrow> (\<exists>x l. map_of (rc_inner c) name = Some (CResolved a x l))))"

lemma evict_keeps [simp]:
  "rc_slots (evict_locked c now m a) = rc_slots c"
  by (simp add: evict_locked_def Let_def)

lemma begin_report:
  assumes "begin_resolve c name now config stale = (c', step)"
    and "\<And>a. stale = Some a \<Longrightarrow> \<exists>x l. map_of (rc_inner c0) name = Some (CResolved a x l)"
    and "rc_slots c0 = rc_slots c"
  shows "lookup_report c0 name now c' step"
  using assms by (auto simp: begin_resolve_def lookup_report_def install_pending_def split: if_splits)

lemma evict_absent:
  assumes "keys_ok c" and "map_of (rc_inner c) name = None"
  shows "map_of (rc_inner (evict_locked c now m a)) name = None"
proof -
  have "entries_ok (\<lambda>h e. h \<noteq> name) c" using assms(2) by (auto simp: entries_ok_def)
  then have "entries_ok (\<lambda>h e. h \<noteq> name) (evict_locked c now m a)"
    using sound_evict [OF assms(1), of "\<lambda>h e. h \<noteq> name"] by (simp add: sound_move_def)
  then show ?thesis by (auto simp: entries_ok_def)
qed

lemma begin_both:
  assumes "keys_ok c" and "begin_resolve c name now config stale = (c', step)" and "stable P"
    and "\<And>n s. map_of (rc_inner c) name = Some (CPending n s) \<Longrightarrow> n \<in> set (rc_woken c)"
    and "\<And>a. stale = Some a \<Longrightarrow> \<exists>x l. map_of (rc_inner c) name = Some (CResolved a x l)"
  shows "sound_move P c c' \<and> lookup_report c name now c' step"
  using sound_begin [OF assms(1-4)] begin_report [OF assms(2,5)] by simp

lemma stableD:
  "stable P \<Longrightarrow> P h (CResolved a x l) \<Longrightarrow> P h (CResolved a x l')"
  "stable P \<Longrightarrow> P h (CStale a x l) \<Longrightarrow> P h (CStale a x l')"
  unfolding stable_def by blast+

lemma touch_both:
  assumes "keys_ok c" and "map_of (rc_inner c) name = Some e0" and "now < x" and "stable P"
    and "e0 = CResolved a x l \<and> e = CResolved a x now \<and> src = Cached \<or>
      e0 = CStale a x l \<and> e = CStale a x now \<and> src = Stale"
  shows "sound_move P c (c\<lparr>rc_inner := AList.update name e (rc_inner c)\<rparr>) \<and>
    lookup_report c name now (c\<lparr>rc_inner := AList.update name e (rc_inner c)\<rparr>)
      (LHit \<lparr>cr_addrs = a, cr_source = src\<rparr>)"
proof
  have "P name e" if "entries_ok P c"
    using that assms(2,4,5) stableD [of P name] unfolding entries_ok_def by metis
  then show "sound_move P c (c\<lparr>rc_inner := AList.update name e (rc_inner c)\<rparr>)"
    by (intro sound_update [OF assms(1), of _ name e]) (use assms(2,5) in auto)
  show "lookup_report c name now (c\<lparr>rc_inner := AList.update name e (rc_inner c)\<rparr>)
      (LHit \<lparr>cr_addrs = a, cr_source = src\<rparr>)"
    using assms(2,3,5) by (auto simp: lookup_report_def)
qed

lemma quiet_err: "keys_ok c \<Longrightarrow> sound_move P c c \<and> lookup_report c name now c (LErr e)"
  by (simp add: lookup_report_def sound_refl)

lemma quiet_wait: "keys_ok c \<Longrightarrow> wake_ok c n \<Longrightarrow> sound_move P c c \<and> lookup_report c name now c (LWait n)"
  by (simp add: lookup_report_def sound_refl)

lemma lookup_sound_absent:
  assumes k: "keys_ok c" and "cache_lookup c name now config = (c', step)" and P: "stable P"
    and None: "map_of (rc_inner c) name = None"
  shows "sound_move P c c' \<and> lookup_report c name now c' step"
proof (cases "rc_slots c = 0")
  case True
  then have "c' = c" "step = LErr (Overloaded (max_concurrent_resolves config))"
    using assms(2) None by (auto simp: cache_lookup_def Let_def)
  then show ?thesis using quiet_err [OF k] by simp
next
  case False
  let ?e = "evict_locked c now (max_cache_entries config) (attempt_timeout config + PENDING_ABANDON_MARGIN)"
  have b: "begin_resolve ?e name now config None = (c', step)"
    using assms(2) None False by (simp add: cache_lookup_def Let_def)
  have "keys_ok ?e" using sound_evict [OF k, of P] by (simp add: sound_move_def)
  then have "sound_move P ?e c'"
    using sound_begin [OF _ b P] evict_absent [OF k None] by auto
  then show ?thesis
    using sound_trans [OF sound_evict [OF k]] begin_report [OF b, of c] by simp
qed

lemma lookup_sound_pending:
  assumes k: "keys_ok c" and "cache_lookup c name now config = (c', step)" and P: "stable P"
    and e: "map_of (rc_inner c) name = Some (CPending n s)"
  shows "sound_move P c c' \<and> lookup_report c name now c' step"
proof (cases "now - s > attempt_timeout config + PENDING_ABANDON_MARGIN \<and> rc_slots c \<noteq> 0")
  case True
  let ?w = "c\<lparr>rc_woken := n # rc_woken c\<rparr>"
  have b: "begin_resolve ?w name now config None = (c', step)"
    using assms(2) e True by (simp add: cache_lookup_def Let_def)
  have w: "sound_move P c ?w" "keys_ok ?w"
    using k by (auto simp: sound_move_def keys_ok_def wake_ok_def entries_ok_def)
  have "sound_move P ?w c'"
    by (rule sound_begin [OF w(2) b P]) (use e in auto)
  then show ?thesis using sound_trans [OF w(1)] begin_report [OF b, of c] by simp
next
  case False
  then have "c' = c \<and> (step = LWait n \<or> (\<exists>e. step = LErr e))"
    using assms(2) e by (auto simp: cache_lookup_def Let_def split: if_splits)
  moreover have "wake_ok c n" using e by (auto simp: wake_ok_def)
  ultimately show ?thesis using quiet_err [OF k] quiet_wait [OF k] by blast
qed

lemma lookup_sound:
  assumes k: "keys_ok c" and l: "cache_lookup c name now config = (c', step)" and P: "stable P"
  shows "sound_move P c c' \<and> lookup_report c name now c' step"
proof (cases "map_of (rc_inner c) name")
  case None
  then show ?thesis by (rule lookup_sound_absent [OF k l P])
next
  case (Some entry)
  show ?thesis
  proof (cases entry)
    case (CPending n s)
    then show ?thesis using lookup_sound_pending [OF k l P] Some by simp
  next
    case (CResolved a x acc)
    then show ?thesis
      using l Some touch_both [OF k Some, of now x P a acc "CResolved a x now" Cached] P
        begin_both [OF k _ P, of name now config "Some a" c' step]
      by (auto simp: cache_lookup_def Let_def split: if_splits)
  next
    case (CStale a g acc)
    then show ?thesis
      using l Some touch_both [OF k Some, of now g P a acc "CStale a g now" Stale] P
        begin_both [OF k _ P, of name now config None c' step]
      by (auto simp: cache_lookup_def Let_def split: if_splits)
  next
    case (CFailed r e acc)
    then show ?thesis
      using l Some quiet_err [OF k, of P name now e] begin_both [OF k _ P, of name now config None c' step]
      by (auto simp: cache_lookup_def Let_def split: if_splits)
  qed
qed

section \<open>Invariants of the tasks\<close>

text \<open>What the logs say about an entry and about a served result.\<close>

definition entry_backed :: "ResolverConfig \<Rightarrow> rc_world \<Rightarrow> Hostname \<Rightarrow> CacheEntry \<Rightarrow> bool" where
  "entry_backed config w name e =
     (case e of
        CResolved a x l \<Rightarrow> a \<noteq> [] \<and> (\<exists>t. (t, name, a) \<in> set (rcw_answers w) \<and> x \<le> t + cache_ceiling config)
      | CStale a g l \<Rightarrow> a \<noteq> [] \<and> (\<exists>t. (t, name, a) \<in> set (rcw_answers w)) \<and>
          (\<exists>f. (f, name) \<in> set (rcw_failures w) \<and> g = f + stale_while_error_grace config)
      | _ \<Rightarrow> True)"

definition served_ok :: "ResolverConfig \<Rightarrow> rc_world \<Rightarrow> Hostname \<Rightarrow> nat \<Rightarrow> CacheResult \<Rightarrow> bool" where
  "served_ok config w name now r =
     (cr_addrs r \<noteq> [] \<and>
      (case cr_source r of
         Fresh \<Rightarrow> (now, name, cr_addrs r) \<in> set (rcw_answers w)
       | Cached \<Rightarrow> (\<exists>t. (t, name, cr_addrs r) \<in> set (rcw_answers w) \<and> now < t + cache_ceiling config)
       | Stale \<Rightarrow> (\<exists>t. (t, name, cr_addrs r) \<in> set (rcw_answers w)) \<and>
           (\<exists>f. (f, name) \<in> set (rcw_failures w) \<and> now \<le> f + stale_while_error_grace config)))"

fun resolving :: "rc_task \<Rightarrow> nat" where
  "resolving (TResolving name stale) = 1"
| "resolving _ = 0"

definition task_ok :: "ResolverConfig \<Rightarrow> rc_world \<Rightarrow> rc_task \<Rightarrow> bool" where
  "task_ok config w task =
     (case task of
        TWait n name notify \<Rightarrow> wake_ok (rcw_cache w) notify
      | TResolving name (Some a) \<Rightarrow> a \<noteq> [] \<and> (\<exists>t. (t, name, a) \<in> set (rcw_answers w))
      | TDone name now (Inr r) \<Rightarrow> served_ok config w name now r
      | _ \<Rightarrow> True)"

definition rcw_inv :: "ResolverConfig \<Rightarrow> rc_world \<Rightarrow> bool" where
  "rcw_inv config w \<longleftrightarrow>
     keys_ok (rcw_cache w) \<and>
     rc_slots (rcw_cache w) + sum_list (map resolving (rcw_tasks w)) = max_concurrent_resolves config \<and>
     entries_ok (entry_backed config w) (rcw_cache w) \<and>
     (\<forall>task \<in> set (rcw_tasks w). task_ok config w task)"

definition grown :: "rc_world \<Rightarrow> rc_world \<Rightarrow> bool" where
  "grown w w' \<longleftrightarrow> set (rcw_answers w) \<subseteq> set (rcw_answers w') \<and> set (rcw_failures w) \<subseteq> set (rcw_failures w') \<and>
     (\<forall>n. wake_ok (rcw_cache w) n \<longrightarrow> wake_ok (rcw_cache w') n)"

lemma served_mono: "grown w w' \<Longrightarrow> served_ok config w name now r \<Longrightarrow> served_ok config w' name now r"
  unfolding served_ok_def grown_def by (cases "cr_source r") fastforce+

lemma entry_mono: "grown w w' \<Longrightarrow> entry_backed config w name e \<Longrightarrow> entry_backed config w' name e"
  unfolding entry_backed_def grown_def by (cases e) fastforce+

lemma task_mono: "grown w w' \<Longrightarrow> task_ok config w task \<Longrightarrow> task_ok config w' task"
  using served_mono unfolding task_ok_def grown_def
  by (cases task) (auto split: option.splits sum.splits)

lemma backed_stable: "stable (entry_backed config w)"
  by (simp add: stable_def entry_backed_def)

lemma rcw_inv_move:
  assumes inv: "rcw_inv config w" and "i < length (rcw_tasks w)"
    and "rcw_tasks w' = (rcw_tasks w)[i := task]" and "grown w w'"
    and "keys_ok (rcw_cache w')" and "entries_ok (entry_backed config w') (rcw_cache w')"
    and "rc_slots (rcw_cache w') + resolving task = rc_slots (rcw_cache w) + resolving (rcw_tasks w ! i)"
    and "task_ok config w' task"
  shows "rcw_inv config w'"
proof -
  have "sum_list (map resolving ((rcw_tasks w)[i := task])) + resolving (rcw_tasks w ! i) =
      sum_list (map resolving (rcw_tasks w)) + resolving task"
    by (rule sum_list_update_nat [OF assms(2)])
  then have "rc_slots (rcw_cache w') + sum_list (map resolving (rcw_tasks w')) = max_concurrent_resolves config"
    using inv assms(3,7) by (simp add: rcw_inv_def)
  moreover have "\<forall>t \<in> set (rcw_tasks w'). task_ok config w' t"
    using inv task_mono [OF assms(4)] assms(3,8) set_update_subset_insert [of "rcw_tasks w" i task]
    by (auto simp: rcw_inv_def)
  ultimately show ?thesis using assms(5,6) by (simp add: rcw_inv_def)
qed

lemma lookup_task_ok:
  assumes inv: "rcw_inv config w" and "cache_lookup (rcw_cache w) name now config = (c, step)"
  shows "task_ok config (w\<lparr>rcw_cache := c, rcw_tasks := ts\<rparr>) (after_lookup n name now step)"
proof -
  let ?w = "w\<lparr>rcw_cache := c, rcw_tasks := ts\<rparr>"
  have k: "keys_ok (rcw_cache w)" and e: "entries_ok (entry_backed config w) (rcw_cache w)"
    using inv by (simp_all add: rcw_inv_def)
  have m: "sound_move (entry_backed config w) (rcw_cache w) c" "lookup_report (rcw_cache w) name now c step"
    using lookup_sound [OF k assms(2) backed_stable] by simp_all
  have b: "entry_backed config w name en" if "map_of (rc_inner (rcw_cache w)) name = Some en" for en
    using e that by (simp add: entries_ok_def)
  show ?thesis
  proof (cases step)
    case (LHit r)
    obtain x l where "now < x" "map_of (rc_inner (rcw_cache w)) name = Some (CResolved (cr_addrs r) x l) \<and> cr_source r = Cached \<or>
        map_of (rc_inner (rcw_cache w)) name = Some (CStale (cr_addrs r) x l) \<and> cr_source r = Stale"
      using m(2) LHit by (auto simp: lookup_report_def)
    then have "served_ok config ?w name now r"
      using b by (auto simp: served_ok_def entry_backed_def) (meson less_le_trans less_imp_le)+
    then show ?thesis using LHit by (simp add: task_ok_def)
  next
    case (LResolve stale)
    then show ?thesis
      using m(2) b by (cases stale) (auto simp: lookup_report_def task_ok_def entry_backed_def)
  qed (use m in \<open>auto simp: lookup_report_def task_ok_def sound_move_def\<close>)
qed

lemma ttl_clamp_bounds:
  "cache_floor config \<le> cache_ceiling config \<Longrightarrow>
   cache_floor config \<le> clamp_ttl ttl config \<and> clamp_ttl ttl config \<le> cache_ceiling config"
  by (simp add: clamp_ttl_def)

lemma grown_log:
  assumes "\<And>n. wake_ok (rcw_cache w) n \<Longrightarrow> wake_ok c n"
  shows "grown w (log_outcome now name outcome (w\<lparr>rcw_cache := c, rcw_tasks := ts\<rparr>))"
  using assms by (auto simp: grown_def log_outcome_def split: sum.splits)

lemma log_outcome_fields [simp]:
  "rcw_cache (log_outcome now name outcome w) = rcw_cache w"
  "rcw_tasks (log_outcome now name outcome w) = rcw_tasks w"
  by (simp_all add: log_outcome_def split: sum.splits)

text \<open>What a finished resolve stores and returns is backed by the logs.\<close>

lemma refresh_put:
  assumes "apply_refresh c name outcome stale config now = (c', r)"
    and "task_ok config w (TResolving name stale)" and "grown w v"
    and "v = log_outcome now name outcome u"
  shows "\<exists>e. c' = put_entry c name e \<and> entry_backed config v name e \<and>
    (case r of Inr s \<Rightarrow> served_ok config v name now s | Inl e \<Rightarrow> True)"
proof -
  have old: "a \<noteq> []" "\<exists>t. (t, name, a) \<in> set (rcw_answers v)" if "stale = Some a" for a
    using assms(2,3) that by (auto simp: task_ok_def grown_def)
  have fail: ?thesis if f: "commit_failure c name err stale config now = (c', r)"
    and l: "(now, name) \<in> set (rcw_failures v)" for err
  proof (cases stale)
    case None
    then show ?thesis using f by (auto simp: commit_failure_def entry_backed_def)
  next
    case (Some a)
    then have "c' = put_entry c name (CStale a (now + stale_while_error_grace config) now)"
      "r = Inr \<lparr>cr_addrs = a, cr_source = Stale\<rparr>"
      using f by (simp_all add: commit_failure_def)
    then show ?thesis using old [OF Some] l
      by (intro exI [of _ "CStale a (now + stale_while_error_grace config) now"])
        (auto simp: entry_backed_def served_ok_def intro!: exI [of _ now])
  qed
  show ?thesis
  proof (cases outcome)
    case (Inl err)
    then have "(now, name) \<in> set (rcw_failures v)" using assms(4) by (simp add: log_outcome_def)
    then show ?thesis using fail [of err] assms(1) Inl by (simp add: apply_refresh_def)
  next
    case (Inr answer)
    show ?thesis
    proof (cases "ra_addrs answer = []")
      case True
      then have "(now, name) \<in> set (rcw_failures v)" using assms(4) Inr by (simp add: log_outcome_def)
      then show ?thesis using fail [of EmptyAnswer] assms(1) Inr True by (simp add: apply_refresh_def)
    next
      case False
      then have "(now, name, ra_addrs answer) \<in> set (rcw_answers v)" using assms(4) Inr by (simp add: log_outcome_def)
      then show ?thesis using assms(1) Inr False
        by (intro exI [of _ "CResolved (ra_addrs answer) (now + clamp_ttl (ra_ttl answer) config) now"])
          (auto simp: apply_refresh_def entry_backed_def served_ok_def clamp_ttl_def intro!: exI [of _ now])
    qed
  qed
qed

lemma rcw_inv_finish:
  assumes inv: "rcw_inv config w" and i: "i < length (rcw_tasks w)" and "rcw_tasks w ! i = TResolving name stale"
    and "apply_refresh (rcw_cache w) name outcome stale config now = (c, r)"
  shows "rcw_inv config (log_outcome now name outcome
      (w\<lparr>rcw_cache := c\<lparr>rc_slots := rc_slots c + 1\<rparr>, rcw_tasks := (rcw_tasks w)[i := TDone name now r]\<rparr>))"
    (is "rcw_inv config ?v")
proof -
  have k: "keys_ok (rcw_cache w)" and e: "entries_ok (entry_backed config w) (rcw_cache w)"
    and t: "task_ok config w (TResolving name stale)"
    using inv nth_mem [OF i] assms(3) by (auto simp: rcw_inv_def)
  obtain en where en: "c = put_entry (rcw_cache w) name en"
    using assms(4) by (auto simp: apply_refresh_def commit_failure_def split: sum.splits if_splits option.splits)
  have wk: "wake_ok (c\<lparr>rc_slots := s\<rparr>) n" if "wake_ok (rcw_cache w) n" for n s
  proof -
    have "wake_ok c n" using sound_put [OF k, of "\<lambda>_ _. True" name en] that by (simp add: en sound_move_def)
    then show ?thesis by (simp add: wake_ok_def)
  qed
  then have g: "grown w ?v" by (intro grown_log)
  obtain en' where en': "c = put_entry (rcw_cache w) name en'" "entry_backed config ?v name en'"
    "case r of Inr s \<Rightarrow> served_ok config ?v name now s | Inl e \<Rightarrow> True"
    using refresh_put [OF assms(4) t g refl] by blast
  have "entries_ok (entry_backed config ?v) (rcw_cache w)"
    using e entry_mono [OF g] by (auto simp: entries_ok_def)
  then have m: "keys_ok c" "entries_ok (entry_backed config ?v) c"
    using sound_put [OF k, of "entry_backed config ?v" name en'] en' by (simp_all add: sound_move_def)
  show ?thesis
    by (rule rcw_inv_move [OF inv i _ g])
      (use m en'(1,3) assms(3) in \<open>auto simp: keys_ok_def entries_ok_def put_entry_def task_ok_def split: sum.splits\<close>)
qed

lemma rcw_inv_lock:
  assumes inv: "rcw_inv config w" and i: "i < length (rcw_tasks w)" and "rcw_tasks w ! i = TRound (Suc n) name"
    and l: "cache_lookup (rcw_cache w) name now config = (c, step)"
  shows "rcw_inv config (w\<lparr>rcw_cache := c, rcw_tasks := (rcw_tasks w)[i := after_lookup n name now step]\<rparr>)"
    (is "rcw_inv config ?v")
proof -
  have k: "keys_ok (rcw_cache w)" and e: "entries_ok (entry_backed config w) (rcw_cache w)"
    using inv by (simp_all add: rcw_inv_def)
  have m: "sound_move (entry_backed config w) (rcw_cache w) c" "lookup_report (rcw_cache w) name now c step"
    using lookup_sound [OF k l backed_stable] by simp_all
  have g: "grown w ?v" using m(1) by (simp add: grown_def sound_move_def)
  have "entries_ok (entry_backed config ?v) c"
    using m(1) e entry_mono [OF g] by (auto simp: sound_move_def entries_ok_def)
  moreover have "rc_slots c + resolving (after_lookup n name now step) = rc_slots (rcw_cache w)"
    using m(2) by (cases step) (simp_all add: lookup_report_def)
  ultimately show ?thesis
    using lookup_task_ok [OF inv l] m(1) assms(3)
    by (intro rcw_inv_move [OF inv i _ g]) (simp_all add: sound_move_def)
qed

lemma rcw_inv_quiet:
  assumes "rcw_inv config w" and "i < length (rcw_tasks w)"
    and "resolving task \<le> resolving (rcw_tasks w ! i)"
    and "task_ok config w task"
  shows "rcw_inv config (w\<lparr>rcw_cache := (rcw_cache w)\<lparr>rc_slots := rc_slots (rcw_cache w) + resolving (rcw_tasks w ! i) - resolving task\<rparr>,
    rcw_tasks := (rcw_tasks w)[i := task]\<rparr>)" (is "rcw_inv config ?v")
proof -
  have g: "grown w ?v" by (simp add: grown_def wake_ok_def)
  have "entries_ok (entry_backed config ?v) (rcw_cache ?v)"
    using assms(1) entry_mono [OF g] by (auto simp: rcw_inv_def entries_ok_def)
  then show ?thesis
    using assms(1,3) task_mono [OF g assms(4)]
    by (intro rcw_inv_move [OF assms(1,2) _ g]) (simp_all add: rcw_inv_def keys_ok_def)
qed

lemma rcw_inv_step: "rc_step config w w' \<Longrightarrow> rcw_inv config w \<Longrightarrow> rcw_inv config w'"
proof (induction rule: rc_step.induct)
  case (rc_call w name)
  have g: "grown w (w\<lparr>rcw_tasks := rcw_tasks w @ [TRound 4 name]\<rparr>)" by (simp add: grown_def)
  show ?case using rc_call task_mono [OF g] entry_mono [OF g]
    by (auto simp: rcw_inv_def entries_ok_def task_ok_def)
next
  case (rc_lock i w n name now c step)
  show ?case by (rule rcw_inv_lock [OF rc_lock(4,1,2,3)])
next
  case (rc_oscillate i w name now)
  show ?case using rcw_inv_quiet [OF rc_oscillate(3,1), of "TDone name now (Inl (LookupError ''cache state oscillation''))"]
    by (simp add: rc_oscillate(2) task_ok_def)
next
  case (rc_wake i w n name notify)
  show ?case using rcw_inv_quiet [OF rc_wake(4,1), of "TRound n name"] by (simp add: rc_wake(2) task_ok_def)
next
  case (rc_finish i w name stale outcome now c r)
  show ?case by (rule rcw_inv_finish [OF rc_finish(4,1,2,3)])
next
  case (rc_abort i w name stale)
  show ?case using rcw_inv_quiet [OF rc_abort(3,1), of TAborted] by (simp add: rc_abort(2) task_ok_def)
next
  case (rc_cancel i w n name notify)
  show ?case using rcw_inv_quiet [OF rc_cancel(3,1), of TAborted] by (simp add: rc_cancel(2) task_ok_def)
qed

lemma rcw_inv_reach:
  assumes "(rc_step config)\<^sup>*\<^sup>* (rcw_init config) w"
  shows "rcw_inv config w"
  using assms
proof (induction rule: rtranclp_induct)
  case base
  show ?case by (simp add: rcw_inv_def rcw_init_def cache_new_def keys_ok_def entries_ok_def)
qed (rule rcw_inv_step)

section \<open>Eviction and ordering\<close>

text \<open>\<open>evict_locked\<close> keeps every live placeholder, drops everything past its deadline, makes room
  unless only placeholders are left, and drops no unexpired entry used later than one it keeps.\<close>

lemma evict_locked_correct:
  assumes "keys_ok c" and "max_entries \<le> length (rc_inner c)"
    and "m = rc_inner (evict_locked c now max_entries abandon_after)"
  shows "set m \<subseteq> {x \<in> set (rc_inner c). retained now abandon_after (snd x)}"
    and "length m < max_entries \<or> (\<forall>x \<in> set m. entry_last_access (snd x) = None)"
    and "x \<in> set (rc_inner c) \<Longrightarrow> retained now abandon_after (snd x) \<Longrightarrow>
      entry_last_access (snd x) = None \<Longrightarrow> x \<in> set m"
    and "x \<in> set (rc_inner c) \<Longrightarrow> retained now abandon_after (snd x) \<Longrightarrow> x \<notin> set m \<Longrightarrow> y \<in> set m \<Longrightarrow>
      entry_last_access (snd x) = Some a \<Longrightarrow> entry_last_access (snd y) = Some b \<Longrightarrow> a \<le> b"
proof -
  let ?kept = "filter (\<lambda>(k, e). retained now abandon_after e) (rc_inner c)"
  have d: "distinct (map fst (rc_inner c))" using assms(1) by (simp add: keys_ok_def)
  have ev: "m = evict_lru ?kept max_entries" using assms(2,3) by (simp add: evict_locked_def Let_def)
  note I = evicts_lruD [OF evict_lru_correct [OF distinct_map_filter [OF d], of "\<lambda>(k, e). retained now abandon_after e"
      max_entries], folded ev]
  show "set m \<subseteq> {x \<in> set (rc_inner c). retained now abandon_after (snd x)}" using I(2) by auto
  show "length m < max_entries \<or> (\<forall>x \<in> set m. entry_last_access (snd x) = None)" by (rule I(4))
  show "x \<in> set m" if "x \<in> set (rc_inner c)" "retained now abandon_after (snd x)" "entry_last_access (snd x) = None"
    using I(3) [of x] that by (simp add: case_prod_unfold)
  show "a \<le> b" if "x \<in> set (rc_inner c)" "retained now abandon_after (snd x)" "x \<notin> set m" "y \<in> set m"
    "entry_last_access (snd x) = Some a" "entry_last_access (snd y) = Some b"
    using I(5) [of x y a b] that by (simp add: case_prod_unfold)
qed

lemma order_by_family_split:
  "order_by_family addrs p = filter (\<lambda>a. is_ipv6 a = p) addrs @ filter (\<lambda>a. is_ipv6 a \<noteq> p) addrs"
  by (cases p) (simp_all add: order_by_family_def comp_def)

lemma order_by_family_correct:
  "mset (order_by_family addrs p) = mset addrs \<and>
   filter is_ipv6 (order_by_family addrs p) = filter is_ipv6 addrs \<and>
   filter (\<lambda>a. \<not> is_ipv6 a) (order_by_family addrs p) = filter (\<lambda>a. \<not> is_ipv6 a) addrs"
proof -
  have "mset (order_by_family addrs p) = mset addrs"
    unfolding order_by_family_split by (simp flip: multiset_partition)
  then show ?thesis by (cases p) (simp_all add: order_by_family_split)
qed

lemma order_by_family_sorted:
  "sorted (map (\<lambda>a. if is_ipv6 a = p then 0 else 1 :: nat) (order_by_family addrs p))"
proof -
  have "map (\<lambda>a. if is_ipv6 a = p then 0 else 1 :: nat) (filter (\<lambda>a. is_ipv6 a = p) addrs) =
      replicate (length (filter (\<lambda>a. is_ipv6 a = p) addrs)) 0"
    by (rule replicate_eqI) auto
  moreover have "map (\<lambda>a. if is_ipv6 a = p then 0 else 1 :: nat) (filter (\<lambda>a. is_ipv6 a \<noteq> p) addrs) =
      replicate (length (filter (\<lambda>a. is_ipv6 a \<noteq> p) addrs)) 1"
    by (rule replicate_eqI) auto
  ultimately show ?thesis unfolding order_by_family_split map_append by (simp add: sorted_append)
qed

lemma dial_addrs_find: "dial_addrs dials addrs = find dials addrs"
  by (induction addrs) simp_all

section \<open>Properties\<close>

text \<open>C33 (resolver_serves_known_answers): in every interleaving of callers, finished resolves and
  dropped callers, an address list handed to a caller is never empty and is always one the
  resolver answered for that name: a fresh one at the moment it was answered, a cached one for
  less than the TTL ceiling after that, and a stale one only within the grace window after a
  failed refresh.\<close>

theorem resolver_serves_known_answers:
  assumes "(rc_step config)\<^sup>*\<^sup>* (rcw_init config) w"
    and "i < length (rcw_tasks w)" and "rcw_tasks w ! i = TDone name now (Inr r)"
  shows "cr_addrs r \<noteq> [] \<and>
    (case cr_source r of
       Fresh \<Rightarrow> (now, name, cr_addrs r) \<in> set (rcw_answers w)
     | Cached \<Rightarrow> (\<exists>t. (t, name, cr_addrs r) \<in> set (rcw_answers w) \<and> now < t + cache_ceiling config)
     | Stale \<Rightarrow> (\<exists>t. (t, name, cr_addrs r) \<in> set (rcw_answers w)) \<and>
         (\<exists>f. (f, name) \<in> set (rcw_failures w) \<and> now \<le> f + stale_while_error_grace config))"
proof -
  have "task_ok config w (rcw_tasks w ! i)"
    using rcw_inv_reach [OF assms(1)] assms(2) by (simp add: rcw_inv_def)
  then show ?thesis by (simp add: assms(3) task_ok_def served_ok_def)
qed

lemma run_cached:
  fixes h :: Hostname and ip :: IpAddr
  shows "(rc_step resolver_config_default)\<^sup>*\<^sup>* (rcw_init resolver_config_default)
    \<lparr>rcw_cache = \<lparr>rc_inner = [(h, CResolved [ip] (secs 61) (secs 2))], rc_slots = 64, rc_next_notify = 1, rc_woken = [0]\<rparr>,
     rcw_tasks = [TDone h (secs 1) (Inr \<lparr>cr_addrs = [ip], cr_source = Fresh\<rparr>),
       TDone h (secs 2) (Inr \<lparr>cr_addrs = [ip], cr_source = Cached\<rparr>)],
     rcw_answers = [(secs 1, h, [ip])], rcw_failures = []\<rparr>" (is "?S\<^sup>*\<^sup>* ?w0 ?w5")
proof -
  let ?w1 = "?w0\<lparr>rcw_tasks := [TRound 4 h]\<rparr>"
  let ?w2 = "\<lparr>rcw_cache = \<lparr>rc_inner = [(h, CPending 0 0)], rc_slots = 63, rc_next_notify = 1, rc_woken = []\<rparr>,
    rcw_tasks = [TResolving h None], rcw_answers = [], rcw_failures = []\<rparr>"
  let ?w3 = "\<lparr>rcw_cache = \<lparr>rc_inner = [(h, CResolved [ip] (secs 61) (secs 1))], rc_slots = 64, rc_next_notify = 1, rc_woken = [0]\<rparr>,
    rcw_tasks = [TDone h (secs 1) (Inr \<lparr>cr_addrs = [ip], cr_source = Fresh\<rparr>)],
    rcw_answers = [(secs 1, h, [ip])], rcw_failures = []\<rparr>"
  let ?w4 = "?w3\<lparr>rcw_tasks := rcw_tasks ?w3 @ [TRound 4 h]\<rparr>"
  note defs = rcw_init_def cache_new_def cache_lookup_def begin_resolve_def evict_locked_def install_pending_def
    resolver_config_default_def apply_refresh_def put_entry_def clamp_ttl_def log_outcome_def
  have "?S ?w0 ?w1" using rc_call [of resolver_config_default ?w0 h] by (simp add: rcw_init_def)
  moreover have "?S ?w1 ?w2" using rc_lock [of 0 ?w1 3 h 0 resolver_config_default] by (simp add: defs)
  moreover have "?S ?w2 ?w3"
    using rc_finish [of 0 ?w2 h None "Inr \<lparr>ra_addrs = [ip], ra_ttl = secs 60\<rparr>" resolver_config_default "secs 1"]
    by (simp add: defs)
  moreover have "?S ?w3 ?w4" by (rule rc_call)
  moreover have "?S ?w4 ?w5" using rc_lock [of 1 ?w4 3 h "secs 2" resolver_config_default] by (simp add: defs)
  ultimately show ?thesis by (meson rtranclp.rtrancl_refl rtranclp.rtrancl_into_rtrancl)
qed

theorem resolver_serves_known_answers_witness:
  "\<exists>t. (t, Hostname ''a.example'', [IpV4 (Ipv4 10 0 0 1)]) \<in> set [(secs 1, Hostname ''a.example'', [IpV4 (Ipv4 10 0 0 1)])] \<and>
     secs 2 < t + cache_ceiling resolver_config_default"
  using resolver_serves_known_answers [OF run_cached [of "Hostname ''a.example''" "IpV4 (Ipv4 10 0 0 1)"],
      of 1 "Hostname ''a.example''" "secs 2" "\<lparr>cr_addrs = [IpV4 (Ipv4 10 0 0 1)], cr_source = Cached\<rparr>"]
  by simp

text \<open>C34 (resolver_no_lost_wakeup): whatever the interleaving, a caller waiting for somebody else's
  resolve has either been woken, or the placeholder it waits on is still in the cache, so that
  whoever replaces it wakes the caller; and the free permits plus the resolves in flight always
  make up the configured maximum.\<close>

theorem resolver_no_lost_wakeup:
  assumes "(rc_step config)\<^sup>*\<^sup>* (rcw_init config) w"
  shows "rc_slots (rcw_cache w) + length (filter (\<lambda>t. \<exists>name stale. t = TResolving name stale) (rcw_tasks w)) =
      max_concurrent_resolves config \<and>
    (\<forall>i n name notify. i < length (rcw_tasks w) \<longrightarrow> rcw_tasks w ! i = TWait n name notify \<longrightarrow>
       notify \<in> set (rc_woken (rcw_cache w)) \<or>
       (\<exists>h s. map_of (rc_inner (rcw_cache w)) h = Some (CPending notify s)))"
proof -
  have I: "rcw_inv config w" by (rule rcw_inv_reach [OF assms])
  have "sum_list (map resolving ts) = length (filter (\<lambda>t. \<exists>name stale. t = TResolving name stale) ts)" for ts
  proof (induction ts)
    case (Cons t ts)
    then show ?case by (cases t) simp_all
  qed simp
  moreover have "wake_ok (rcw_cache w) notify"
    if i: "i < length (rcw_tasks w)" "rcw_tasks w ! i = TWait n name notify" for i n name notify
  proof -
    have "task_ok config w (rcw_tasks w ! i)" using I i(1) by (simp add: rcw_inv_def)
    then show ?thesis by (simp add: i(2) task_ok_def)
  qed
  ultimately show ?thesis using I by (simp add: rcw_inv_def wake_ok_def)
qed

lemma run_stuck:
  fixes h :: Hostname
  shows "(rc_step resolver_config_default)\<^sup>*\<^sup>* (rcw_init resolver_config_default)
    \<lparr>rcw_cache = \<lparr>rc_inner = [(h, CPending 0 0)], rc_slots = 64, rc_next_notify = 1, rc_woken = []\<rparr>,
     rcw_tasks = [TAborted, TWait 3 h 0], rcw_answers = [], rcw_failures = []\<rparr>" (is "?S\<^sup>*\<^sup>* ?w0 ?w5")
proof -
  let ?w1 = "?w0\<lparr>rcw_tasks := [TRound 4 h]\<rparr>"
  let ?w2 = "?w0\<lparr>rcw_tasks := [TRound 4 h, TRound 4 h]\<rparr>"
  let ?w3 = "?w5\<lparr>rcw_cache := (rcw_cache ?w5)\<lparr>rc_slots := 63\<rparr>, rcw_tasks := [TResolving h None, TRound 4 h]\<rparr>"
  let ?w4 = "?w3\<lparr>rcw_tasks := [TResolving h None, TWait 3 h 0]\<rparr>"
  note defs = rcw_init_def cache_new_def cache_lookup_def begin_resolve_def evict_locked_def install_pending_def
    resolver_config_default_def
  have "?S ?w0 ?w1" using rc_call [of resolver_config_default ?w0 h] by (simp add: rcw_init_def)
  moreover have "?S ?w1 ?w2" using rc_call [of resolver_config_default ?w1 h] by simp
  moreover have "?S ?w2 ?w3" using rc_lock [of 0 ?w2 3 h 0 resolver_config_default] by (simp add: defs)
  moreover have "?S ?w3 ?w4" using rc_lock [of 1 ?w3 3 h 1 resolver_config_default] by (simp add: defs)
  moreover have "?S ?w4 ?w5" using rc_abort [of 0 ?w4 h None resolver_config_default] by simp
  ultimately show ?thesis by (meson rtranclp.rtrancl_refl rtranclp.rtrancl_into_rtrancl)
qed

theorem resolver_no_lost_wakeup_witness:
  "0 \<in> set [] \<or> (\<exists>h s. map_of [(Hostname ''a'', CPending 0 0)] h = Some (CPending 0 s))"
  using resolver_no_lost_wakeup [OF run_stuck [of "Hostname ''a''"]] by fastforce

text \<open>Waiting has no time bound of its own.  When the caller that
  was resolving is dropped, the callers waiting for it stay blocked until somebody looks the name
  up again: the state reached has a waiter, no resolve in flight and a free permit, and every
  step out of it is either a new call or the cancellation of the waiter.\<close>

lemma resolver_waiter_needs_a_caller:
  "\<exists>w. (rc_step resolver_config_default)\<^sup>*\<^sup>* (rcw_init resolver_config_default) w \<and>
     rcw_tasks w = [TAborted, TWait 3 name 0] \<and> rc_slots (rcw_cache w) = 64 \<and>
     {w'. rc_step resolver_config_default w w'} =
       {w\<lparr>rcw_tasks := rcw_tasks w @ [TRound 4 h]\<rparr> | h. True} \<union> {w\<lparr>rcw_tasks := [TAborted, TAborted]\<rparr>}"
proof -
  let ?w = "\<lparr>rcw_cache = \<lparr>rc_inner = [(name, CPending 0 0)], rc_slots = 64, rc_next_notify = 1, rc_woken = []\<rparr>,
     rcw_tasks = [TAborted, TWait 3 name 0], rcw_answers = [], rcw_failures = []\<rparr>"
  let ?S = "rc_step resolver_config_default"
  have "(\<exists>h. w' = ?w\<lparr>rcw_tasks := rcw_tasks ?w @ [TRound 4 h]\<rparr>) \<or> w' = ?w\<lparr>rcw_tasks := [TAborted, TAborted]\<rparr>"
    if "?S ?w w'" for w'
    using that by (cases rule: rc_step.cases) (auto simp: less_Suc_eq nth_Cons')
  moreover have "?S ?w (?w\<lparr>rcw_tasks := rcw_tasks ?w @ [TRound 4 h]\<rparr>)" for h by (rule rc_call)
  moreover have "?S ?w (?w\<lparr>rcw_tasks := [TAborted, TAborted]\<rparr>)"
    using rc_cancel [of 1 ?w 3 name 0 resolver_config_default] by simp
  ultimately have "{w'. ?S ?w w'} =
      {?w\<lparr>rcw_tasks := rcw_tasks ?w @ [TRound 4 h]\<rparr> | h. True} \<union> {?w\<lparr>rcw_tasks := [TAborted, TAborted]\<rparr>}"
    by blast
  then show ?thesis using run_stuck [of name] by (intro exI [of _ ?w]) simp
qed

text \<open>Connecting to a DNS target succeeds exactly when some answered
  address can be dialled, and then reaches the first such address in preferred-family-first
  order, which permutes the answer and keeps the resolver's order inside each family; otherwise
  the error counts the addresses tried, and a resolver error passes through unchanged.\<close>

lemma connect_target_correct:
  "connect_target (TgtDns name) port prefer_ipv6 cached dials =
     (case cached name of
        Inl e \<Rightarrow> Inl (CeResolution e)
      | Inr r \<Rightarrow>
          if cr_addrs r = [] then Inl (CeResolution EmptyAnswer)
          else case find (\<lambda>ip. dials (socket_addr ip port)) (order_by_family (cr_addrs r) prefer_ipv6) of
            Some ip \<Rightarrow> Inr (socket_addr ip port, cr_source r)
          | None \<Rightarrow> Inl (CeAllAddrsUnreachable (length (cr_addrs r)))) \<and>
   mset (order_by_family addrs prefer_ipv6) = mset addrs \<and>
   filter is_ipv6 (order_by_family addrs prefer_ipv6) = filter is_ipv6 addrs \<and>
   filter (\<lambda>a. \<not> is_ipv6 a) (order_by_family addrs prefer_ipv6) = filter (\<lambda>a. \<not> is_ipv6 a) addrs \<and>
   sorted (map (\<lambda>a. if is_ipv6 a = prefer_ipv6 then 0 else 1 :: nat) (order_by_family addrs prefer_ipv6))"
proof -
  have "find dials (map (\<lambda>ip. socket_addr ip port) as) =
      map_option (\<lambda>ip. socket_addr ip port) (find (\<lambda>ip. dials (socket_addr ip port)) as)" for as
    by (induction as) simp_all
  moreover have "length (order_by_family as p) = length as" for as p
    using order_by_family_correct [of as p] by (metis size_mset)
  ultimately show ?thesis
    using order_by_family_correct [of addrs prefer_ipv6]
    by (auto simp: connect_target_def dial_addrs_find order_by_family_sorted
        split: sum.splits option.splits)
qed

end
