(* ===== verification/Client_Hello.thy ===== *)
theory Client_Hello
  imports Rust_Str Prelude
begin

text \<open>
  The TLS ClientHello parser (crates/portunus-forwarder/src/forwarder/sni/client_hello.rs) and
  the loop that reads a ClientHello from an accepted stream (sni/peek.rs).

  A byte is a \<^typ>\<open>char\<close>, its value \<^term>\<open>cc c\<close>.  The parser is shown to be the inverse of
  an encoder of well-formed ClientHellos with arbitrary extensions, and its verdict not to
  change when later bytes arrive; from the latter, the verdict of the reading loop does not
  depend on how the peer's bytes are cut into reads.
\<close>

section \<open>The cursor\<close>

datatype ParseError = NotTls | Malformed

datatype ParseOutcome = Truncated | ParseOk "string option"

record Cursor =
  cur_buf :: string
  cur_pos :: nat

definition cur_new :: "string \<Rightarrow> Cursor" where
  "cur_new buf = \<lparr>cur_buf = buf, cur_pos = 0\<rparr>"

definition is_eof :: "Cursor \<Rightarrow> bool" where
  "is_eof c \<longleftrightarrow> cur_pos c \<ge> length (cur_buf c)"

definition be16 :: "char \<Rightarrow> char \<Rightarrow> nat" where
  "be16 a b = cc a * 256 + cc b"

definition read_u8 :: "Cursor \<Rightarrow> (ParseError, nat \<times> Cursor) result" where
  "read_u8 c =
     (if cur_pos c + 1 > length (cur_buf c) then Inl Malformed
      else Inr (cc (cur_buf c ! cur_pos c), c\<lparr>cur_pos := cur_pos c + 1\<rparr>))"

definition read_u16 :: "Cursor \<Rightarrow> (ParseError, nat \<times> Cursor) result" where
  "read_u16 c =
     (if cur_pos c + 2 > length (cur_buf c) then Inl Malformed
      else Inr (be16 (cur_buf c ! cur_pos c) (cur_buf c ! (cur_pos c + 1)), c\<lparr>cur_pos := cur_pos c + 2\<rparr>))"

definition skip :: "Cursor \<Rightarrow> nat \<Rightarrow> (ParseError, Cursor) result" where
  "skip c n =
     (if cur_pos c + n > length (cur_buf c) then Inl Malformed else Inr (c\<lparr>cur_pos := cur_pos c + n\<rparr>))"

definition take_bytes :: "Cursor \<Rightarrow> nat \<Rightarrow> (ParseError, string \<times> Cursor) result" where
  "take_bytes c n =
     (if cur_pos c + n > length (cur_buf c) then Inl Malformed
      else Inr (take n (drop (cur_pos c) (cur_buf c)), c\<lparr>cur_pos := cur_pos c + n\<rparr>))"

text \<open>What is left to read.\<close>

definition cur_left :: "Cursor \<Rightarrow> nat" where
  "cur_left c = length (cur_buf c) - cur_pos c"

lemma read_u8_left: "read_u8 c = Inr (v, c') \<Longrightarrow> cur_left c' < cur_left c"
  by (auto simp: read_u8_def cur_left_def split: if_splits)

lemma read_u16_left: "read_u16 c = Inr (v, c') \<Longrightarrow> cur_left c' < cur_left c"
  by (auto simp: read_u16_def cur_left_def split: if_splits)

lemma take_bytes_left: "take_bytes c n = Inr (v, c') \<Longrightarrow> cur_left c' \<le> cur_left c"
  by (auto simp: take_bytes_def cur_left_def split: if_splits)

lemma rbind_cong [fundef_cong]:
  "x = y \<Longrightarrow> (\<And>a. y = Inr a \<Longrightarrow> f a = g a) \<Longrightarrow> rbind x f = rbind y g"
  by (cases y) simp_all

section \<open>The parser\<close>

definition MAX_HANDSHAKE_BODY :: nat where
  "MAX_HANDSHAKE_BODY = 16384"

definition RECORD_TYPE_HANDSHAKE :: nat where
  "RECORD_TYPE_HANDSHAKE = 22"

definition HS_MSG_CLIENT_HELLO :: nat where
  "HS_MSG_CLIENT_HELLO = 1"

definition EXT_SERVER_NAME :: nat where
  "EXT_SERVER_NAME = 0"

definition SNI_NAME_TYPE_HOST :: nat where
  "SNI_NAME_TYPE_HOST = 0"

text \<open>The loop over the entries of a \<open>server_name_list\<close>.\<close>

function walk_names :: "Cursor \<Rightarrow> (ParseError, ParseOutcome) result" where
  "walk_names lc =
     (if is_eof lc then Inr (ParseOk None)
      else
        rbind (read_u8 lc) (\<lambda>(name_type, lc1).
        rbind (read_u16 lc1) (\<lambda>(name_len, lc2).
        rbind (take_bytes lc2 name_len) (\<lambda>(name_bytes, lc3).
        if name_type = SNI_NAME_TYPE_HOST \<and> name_bytes \<noteq> [] then
          (if \<not> utf8_valid name_bytes then Inl Malformed
           else
             let raw = trim_end_matches CHR ''.'' (trim name_bytes) in
             if raw = [] then walk_names lc3 else Inr (ParseOk (Some (to_ascii_lowercase raw))))
        else walk_names lc3))))"
  by pat_completeness auto
termination
  by (relation "measure cur_left")
    (auto dest!: read_u8_left read_u16_left take_bytes_left)

text \<open>The loop over the extensions: the first \<open>server_name\<close> extension decides.\<close>

function walk_extensions :: "Cursor \<Rightarrow> (ParseError, ParseOutcome) result" where
  "walk_extensions ec =
     (if is_eof ec then Inr (ParseOk None)
      else
        rbind (read_u16 ec) (\<lambda>(ext_type, ec1).
        rbind (read_u16 ec1) (\<lambda>(ext_data_len, ec2).
        rbind (take_bytes ec2 ext_data_len) (\<lambda>(ext_data, ec3).
        if ext_type \<noteq> EXT_SERVER_NAME then walk_extensions ec3
        else
          rbind (read_u16 (cur_new ext_data)) (\<lambda>(list_len, sc1).
          rbind (take_bytes sc1 list_len) (\<lambda>(list_bytes, sc2).
          walk_names (cur_new list_bytes)))))))"
  by pat_completeness auto
termination
  by (relation "measure cur_left")
    (auto dest!: read_u16_left take_bytes_left)

declare walk_names.simps [simp del]
declare walk_extensions.simps [simp del]

definition parse_body :: "string \<Rightarrow> (ParseError, ParseOutcome) result" where
  "parse_body body =
     (if length body < 34 then Inl Malformed
      else
        rbind (read_u8 (cur_new (drop 34 body))) (\<lambda>(sid_len, c1).
        rbind (skip c1 sid_len) (\<lambda>c2.
        rbind (read_u16 c2) (\<lambda>(cipher_suites_len, c3).
        rbind (skip c3 cipher_suites_len) (\<lambda>c4.
        rbind (read_u8 c4) (\<lambda>(compression_methods_len, c5).
        rbind (skip c5 compression_methods_len) (\<lambda>c6.
        if is_eof c6 then Inr (ParseOk None)
        else
          rbind (read_u16 c6) (\<lambda>(ext_total, c7).
          rbind (take_bytes c7 ext_total) (\<lambda>(ext_bytes, c8).
          walk_extensions (cur_new ext_bytes))))))))))"

definition parse_handshake :: "string \<Rightarrow> (ParseError, ParseOutcome) result" where
  "parse_handshake fragment =
     (if length fragment < 4 then Inl Malformed
      else if cc (fragment ! 0) \<noteq> HS_MSG_CLIENT_HELLO then Inl Malformed
      else
        let hs_len = cc (fragment ! 1) * 65536 + cc (fragment ! 2) * 256 + cc (fragment ! 3) in
        if hs_len > length fragment - 4 then Inl Malformed
        else parse_body (take hs_len (drop 4 fragment)))"

definition parse_hello :: "string \<Rightarrow> (ParseError, ParseOutcome) result" where
  "parse_hello bytes =
     (if length bytes < 5 then Inr Truncated
      else if cc (bytes ! 0) \<noteq> RECORD_TYPE_HANDSHAKE then Inl NotTls
      else if cc (bytes ! 1) \<noteq> 3 then Inl NotTls
      else
        let record_len = be16 (bytes ! 3) (bytes ! 4) in
        if record_len = 0 \<or> record_len > MAX_HANDSHAKE_BODY then Inl Malformed
        else if length bytes < 5 + record_len then Inr Truncated
        else parse_handshake (take record_len (drop 5 bytes)))"

text \<open>The fixture builder of the test suites: \<^const>\<open>None\<close> is the panic of its checked
  conversions, the \<open>mod\<close>s are its clamping casts.\<close>

definition enc16 :: "nat \<Rightarrow> string" where
  "enc16 n = [char_of (n div 256 mod 256), char_of (n mod 256)]"

definition enc24 :: "nat \<Rightarrow> string" where
  "enc24 n = [char_of (n div 65536 mod 256), char_of (n div 256 mod 256), char_of (n mod 256)]"

definition bytes_of :: "nat list \<Rightarrow> string" where
  "bytes_of = map char_of"

definition build_client_hello :: "string option \<Rightarrow> string option" where
  "build_client_hello sni =
     (let exts = (case sni of
            None \<Rightarrow> []
          | Some host \<Rightarrow>
              (let sn_list = bytes_of [0] @ enc16 (length host) @ host;
                   sn_ext_data = enc16 (length sn_list) @ sn_list
               in bytes_of [0, 0] @ enc16 (length sn_ext_data) @ sn_ext_data));
          body = bytes_of [3, 3] @ replicate 32 (char_of (171 :: nat)) @ bytes_of [0] @
            bytes_of [0, 2, 19, 1] @ bytes_of [1, 0] @ enc16 (length exts) @ exts;
          hs = bytes_of [1] @ enc24 (length body) @ body
      in if (case sni of None \<Rightarrow> False | Some host \<Rightarrow> length host > 65535) \<or> length exts > 65535 then None
         else Some (bytes_of [22] @ bytes_of [3, 1] @ enc16 (length hs) @ hs))"

section \<open>Reading a ClientHello (peek.rs)\<close>

datatype PeekError = PeekTimeout nat | PeekNotTls | PeekMalformed | PeekSizeCap | PeekIo

definition PEEK_TIMEOUT :: nat where
  "PEEK_TIMEOUT = 3 * 1000000000"

definition PEEK_BYTE_CAP :: nat where
  "PEEK_BYTE_CAP = 64 * 1024"

definition CHUNK :: nat where
  "CHUNK = 4 * 1024"

text \<open>What the stream does at a read: bytes wait in its receive buffer (the read takes at most
  \<open>want\<close> of them and leaves the rest), the peer has closed, the read fails, or nothing arrives
  before the deadline.  Each comes with the clock reading of the iteration; once the list is
  exhausted the peer stays silent.\<close>

datatype peek_read = Arrived string | PeerClosed | ReadFailed | Elapsed

definition leave_unread ::
  "nat \<Rightarrow> nat \<Rightarrow> string \<Rightarrow> (nat \<times> peek_read) list \<Rightarrow> (nat \<times> peek_read) list" where
  "leave_unread want now bs rest =
     (if length bs \<le> want then rest else (now, Arrived (drop want bs)) # rest)"

function peek_loop ::
  "nat \<Rightarrow> nat \<Rightarrow> string \<Rightarrow> (nat \<times> peek_read) list
   \<Rightarrow> (PeekError, string \<times> string option) result \<times> (nat \<times> peek_read) list" where
  "peek_loop deadline cap buf stream =
     (case parse_hello buf of
        Inr (ParseOk sni) \<Rightarrow> (Inr (buf, sni), stream)
      | Inl NotTls \<Rightarrow> (Inl PeekNotTls, stream)
      | Inl Malformed \<Rightarrow> (Inl PeekMalformed, stream)
      | Inr Truncated \<Rightarrow>
          if length buf \<ge> cap then (Inl PeekSizeCap, stream)
          else
            (case stream of
               [] \<Rightarrow> (Inl (PeekTimeout (length buf)), [])
             | (now, ev) # rest \<Rightarrow>
                 if now \<ge> deadline then (Inl (PeekTimeout (length buf)), stream)
                 else
                   (let want = min CHUNK (cap - length buf) in
                    case ev of
                      PeerClosed \<Rightarrow> (Inl PeekIo, rest)
                    | ReadFailed \<Rightarrow> (Inl PeekIo, rest)
                    | Elapsed \<Rightarrow> (Inl (PeekTimeout (length buf)), rest)
                    | Arrived bs \<Rightarrow>
                        if bs = [] then (Inl PeekIo, rest)
                        else peek_loop deadline cap (buf @ take want bs)
                               (leave_unread want now bs rest))))"
  by pat_completeness auto
termination
  by (relation "measure (\<lambda>(deadline, cap, buf, stream). cap - length buf)")
    (auto simp: CHUNK_def neq_Nil_conv)

declare peek_loop.simps [simp del]

definition read_client_hello_with ::
  "nat \<Rightarrow> nat \<Rightarrow> nat \<Rightarrow> (nat \<times> peek_read) list
   \<Rightarrow> (PeekError, string \<times> string option) result \<times> (nat \<times> peek_read) list" where
  "read_client_hello_with start timeout cap stream = peek_loop (start + timeout) cap [] stream"

definition read_client_hello ::
  "nat \<Rightarrow> (nat \<times> peek_read) list
   \<Rightarrow> (PeekError, string \<times> string option) result \<times> (nat \<times> peek_read) list" where
  "read_client_hello start stream = read_client_hello_with start PEEK_TIMEOUT PEEK_BYTE_CAP stream"

section \<open>The cursor as a suffix\<close>

definition rest_of :: "Cursor \<Rightarrow> string" where
  "rest_of c = drop (cur_pos c) (cur_buf c)"

definition at_rest :: "Cursor \<Rightarrow> string \<Rightarrow> bool" where
  "at_rest c s \<longleftrightarrow> cur_pos c \<le> length (cur_buf c) \<and> rest_of c = s"

lemma at_rest_new [simp]: "at_rest (cur_new s) s"
  by (simp add: at_rest_def rest_of_def cur_new_def)

lemma at_rest_eof: "at_rest c s \<Longrightarrow> is_eof c \<longleftrightarrow> s = []"
  by (auto simp: at_rest_def rest_of_def is_eof_def)

lemma at_rest_length: "at_rest c s \<Longrightarrow> length (cur_buf c) = cur_pos c + length s"
  by (auto simp: at_rest_def rest_of_def)

lemma at_rest_nth: "at_rest c s \<Longrightarrow> i < length s \<Longrightarrow> cur_buf c ! (cur_pos c + i) = s ! i"
  by (auto simp: at_rest_def rest_of_def)

lemma at_rest_advance: "at_rest c s \<Longrightarrow> n \<le> length s \<Longrightarrow> at_rest (c\<lparr>cur_pos := cur_pos c + n\<rparr>) (drop n s)"
  by (auto simp: at_rest_def rest_of_def add.commute)

lemma at_rest_read_u8:
  assumes "at_rest c (x # s)"
  obtains c' where "read_u8 c = Inr (cc x, c')" "at_rest c' s"
  using assms at_rest_length [OF assms] at_rest_nth [OF assms, of 0] at_rest_advance [OF assms, of 1]
  by (simp add: read_u8_def)

lemma at_rest_read_u16:
  assumes "at_rest c (enc16 n @ s)" and "n < 65536"
  obtains c' where "read_u16 c = Inr (n, c')" "at_rest c' s"
proof -
  have "at_rest c (char_of (n div 256 mod 256) # char_of (n mod 256) # s)"
    using assms(1) by (simp add: enc16_def)
  note r = this
  have "be16 (char_of (n div 256 mod 256)) (char_of (n mod 256)) = n"
    using assms(2) by (simp add: be16_def cc_def)
  then show ?thesis
    using that r at_rest_length [OF r] at_rest_nth [OF r, of 0] at_rest_nth [OF r, of 1]
      at_rest_advance [OF r, of 2]
    by (simp add: read_u16_def)
qed

lemma at_rest_skip:
  assumes "at_rest c (a @ s)"
  obtains c' where "skip c (length a) = Inr c'" "at_rest c' s"
  using assms at_rest_length [OF assms] at_rest_advance [OF assms, of "length a"]
  by (simp add: skip_def)

lemma at_rest_take:
  assumes "at_rest c (a @ s)"
  obtains c' where "take_bytes c (length a) = Inr (a, c')" "at_rest c' s"
  using assms at_rest_length [OF assms] at_rest_advance [OF assms, of "length a"]
  by (auto simp: take_bytes_def at_rest_def rest_of_def)

section \<open>Well-formed ClientHellos\<close>

text \<open>The messages of RFC 8446, section 4.1.2, as data: what a client may send.  An extension is
  a \<open>server_name\<close> list or anything else.\<close>

datatype extn = ServerNames "(nat \<times> string) list" | OtherExt nat string

record hello =
  h_version :: string
  h_random :: string
  h_session :: string
  h_ciphers :: string
  h_compression :: string
  h_exts :: "extn list option"

fun enc_name :: "nat \<times> string \<Rightarrow> string" where
  "enc_name (ty, name) = char_of ty # enc16 (length name) @ name"

definition enc_names :: "(nat \<times> string) list \<Rightarrow> string" where
  "enc_names ns = concat (map enc_name ns)"

fun ext_data :: "extn \<Rightarrow> string" where
  "ext_data (ServerNames ns) = enc16 (length (enc_names ns)) @ enc_names ns"
| "ext_data (OtherExt ty d) = d"

fun ext_type :: "extn \<Rightarrow> nat" where
  "ext_type (ServerNames ns) = EXT_SERVER_NAME"
| "ext_type (OtherExt ty d) = ty"

definition enc_ext :: "extn \<Rightarrow> string" where
  "enc_ext e = enc16 (ext_type e) @ enc16 (length (ext_data e)) @ ext_data e"

definition enc_exts :: "extn list \<Rightarrow> string" where
  "enc_exts es = concat (map enc_ext es)"

definition enc_body :: "hello \<Rightarrow> string" where
  "enc_body h = h_version h @ h_random h @ char_of (length (h_session h)) # h_session h @
     enc16 (length (h_ciphers h)) @ h_ciphers h @
     char_of (length (h_compression h)) # h_compression h @
     (case h_exts h of None \<Rightarrow> [] | Some es \<Rightarrow> enc16 (length (enc_exts es)) @ enc_exts es)"

definition enc_handshake :: "hello \<Rightarrow> string" where
  "enc_handshake h = char_of HS_MSG_CLIENT_HELLO # enc24 (length (enc_body h)) @ enc_body h"

definition enc_hello :: "nat \<Rightarrow> hello \<Rightarrow> string" where
  "enc_hello minor h =
     [char_of RECORD_TYPE_HANDSHAKE, char_of (3 :: nat), char_of minor] @
     enc16 (length (enc_handshake h)) @ enc_handshake h"

definition names_wf :: "(nat \<times> string) list \<Rightarrow> bool" where
  "names_wf ns = list_all (\<lambda>(ty, name). ty < 256 \<and> length name < 65536 \<and> utf8_valid name) ns"

fun ext_wf :: "extn \<Rightarrow> bool" where
  "ext_wf (ServerNames ns) = (names_wf ns \<and> length (enc_names ns) + 2 < 65536)"
| "ext_wf (OtherExt ty d) = (ty \<noteq> EXT_SERVER_NAME \<and> ty < 65536 \<and> length d < 65536)"

definition hello_wf :: "hello \<Rightarrow> bool" where
  "hello_wf h \<longleftrightarrow> length (h_version h) = 2 \<and> length (h_random h) = 32 \<and>
     length (h_session h) < 256 \<and> length (h_ciphers h) < 65536 \<and> length (h_compression h) < 256 \<and>
     (case h_exts h of None \<Rightarrow> True | Some es \<Rightarrow> list_all ext_wf es \<and> length (enc_exts es) < 65536) \<and>
     length (enc_handshake h) \<le> MAX_HANDSHAKE_BODY"

text \<open>The host a ClientHello asks for: the first usable name of its first \<open>server_name\<close>
  extension, without surrounding space and trailing dots, in lower case.\<close>

definition host_of :: "string \<Rightarrow> string" where
  "host_of name = trim_end_matches CHR ''.'' (trim name)"

fun sni_of_names :: "(nat \<times> string) list \<Rightarrow> string option" where
  "sni_of_names [] = None"
| "sni_of_names ((ty, name) # ns) =
     (if ty = SNI_NAME_TYPE_HOST \<and> host_of name \<noteq> [] then Some (to_ascii_lowercase (host_of name))
      else sni_of_names ns)"

fun sni_of_exts :: "extn list \<Rightarrow> string option" where
  "sni_of_exts [] = None"
| "sni_of_exts (ServerNames ns # es) = sni_of_names ns"
| "sni_of_exts (OtherExt ty d # es) = sni_of_exts es"

definition sni_of :: "hello \<Rightarrow> string option" where
  "sni_of h = (case h_exts h of None \<Rightarrow> None | Some es \<Rightarrow> sni_of_exts es)"

section \<open>Parsing what was encoded\<close>

lemma host_of_Nil [simp]: "host_of [] = []"
  by (simp add: host_of_def trim_def trim_end_matches_def)

lemma length_enc16 [simp]: "length (enc16 n) = 2"
  by (simp add: enc16_def)

lemma length_enc24 [simp]: "length (enc24 n) = 3"
  by (simp add: enc24_def)

lemma cc_of_nat [simp]: "cc (char_of n) = n mod 256" for n :: nat
  by (simp add: cc_def)

lemma at_rest_read_length:
  assumes "at_rest c (char_of n # s)" and "n < 256"
  obtains c' where "read_u8 c = Inr (n, c')" "at_rest c' s"
  using at_rest_read_u8 [OF assms(1)] assms(2) by (metis cc_of_nat mod_less)

lemma walk_names_encoded:
  "names_wf ns \<Longrightarrow> at_rest c (enc_names ns) \<Longrightarrow> walk_names c = Inr (ParseOk (sni_of_names ns))"
proof (induction ns arbitrary: c)
  case Nil
  then show ?case
    by (simp add: walk_names.simps [of c] at_rest_eof enc_names_def)
next
  case (Cons n ns)
  obtain ty name where n: "n = (ty, name)" by fastforce
  have wf: "ty < 256" "length name < 65536" "utf8_valid name" "names_wf ns"
    using Cons.prems(1) n by (simp_all add: names_wf_def)
  have r: "at_rest c (char_of ty # enc16 (length name) @ name @ enc_names ns)"
    using Cons.prems(2) n by (simp add: enc_names_def)
  obtain c1 where c1: "read_u8 c = Inr (ty, c1)" "at_rest c1 (enc16 (length name) @ name @ enc_names ns)"
    using at_rest_read_length [OF r wf(1)] by blast
  obtain c2 where c2: "read_u16 c1 = Inr (length name, c2)" "at_rest c2 (name @ enc_names ns)"
    using at_rest_read_u16 [OF c1(2) wf(2)] by blast
  obtain c3 where c3: "take_bytes c2 (length name) = Inr (name, c3)" "at_rest c3 (enc_names ns)"
    using at_rest_take [OF c2(2)] by blast
  have "\<not> is_eof c" using at_rest_eof [OF r] by simp
  then show ?case
    using Cons.IH [OF wf(4) c3(2)] wf(3) n
    by (subst walk_names.simps) (auto simp: c1(1) c2(1) c3(1) Let_def host_of_def [symmetric])
qed

lemma walk_extensions_encoded:
  "list_all ext_wf es \<Longrightarrow> at_rest c (enc_exts es) \<Longrightarrow> walk_extensions c = Inr (ParseOk (sni_of_exts es))"
proof (induction es arbitrary: c)
  case Nil
  then show ?case
    by (simp add: walk_extensions.simps [of c] at_rest_eof enc_exts_def)
next
  case (Cons e es)
  have wf: "ext_wf e" "list_all ext_wf es" using Cons.prems(1) by simp_all
  have ty: "ext_type e < 65536" "length (ext_data e) < 65536"
    using wf(1) by (cases e; simp add: EXT_SERVER_NAME_def)+
  have r: "at_rest c (enc16 (ext_type e) @ enc16 (length (ext_data e)) @ ext_data e @ enc_exts es)"
    using Cons.prems(2) by (simp add: enc_exts_def enc_ext_def)
  obtain c1 where c1: "read_u16 c = Inr (ext_type e, c1)"
    "at_rest c1 (enc16 (length (ext_data e)) @ ext_data e @ enc_exts es)"
    using at_rest_read_u16 [OF r ty(1)] by blast
  obtain c2 where c2: "read_u16 c1 = Inr (length (ext_data e), c2)" "at_rest c2 (ext_data e @ enc_exts es)"
    using at_rest_read_u16 [OF c1(2) ty(2)] by blast
  obtain c3 where c3: "take_bytes c2 (length (ext_data e)) = Inr (ext_data e, c3)" "at_rest c3 (enc_exts es)"
    using at_rest_take [OF c2(2)] by blast
  have ne: "\<not> is_eof c" using at_rest_eof [OF r] by (simp add: enc16_def)
  show ?case
  proof (cases e)
    case (OtherExt ty d)
    then show ?thesis
      using Cons.IH [OF wf(2) c3(2)] wf(1) ne c1(1) c2(1) c3(1)
      by (subst walk_extensions.simps) simp
  next
    case (ServerNames ns)
    have nw: "names_wf ns" "length (enc_names ns) < 65536" using wf(1) ServerNames by simp_all
    have s0: "at_rest (cur_new (ext_data e)) (enc16 (length (enc_names ns)) @ enc_names ns @ [])"
      using ServerNames at_rest_new [of "ext_data e"] by simp
    obtain s1 where s1: "read_u16 (cur_new (ext_data e)) = Inr (length (enc_names ns), s1)"
      "at_rest s1 (enc_names ns @ [])"
      using at_rest_read_u16 [OF s0 nw(2)] by blast
    obtain s2 where s2: "take_bytes s1 (length (enc_names ns)) = Inr (enc_names ns, s2)"
      using at_rest_take [OF s1(2)] by blast
    have "walk_names (cur_new (enc_names ns)) = Inr (ParseOk (sni_of_names ns))"
      by (rule walk_names_encoded [OF nw(1)]) simp
    then show ?thesis
      using ServerNames ne c1(1) c2(1) c3(1) s1(1) s2
      by (subst walk_extensions.simps) simp
  qed
qed

lemma parse_body_encoded:
  assumes "hello_wf h"
  shows "parse_body (enc_body h) = Inr (ParseOk (sni_of h))"
proof -
  have wf: "length (h_version h) = 2" "length (h_random h) = 32" "length (h_session h) < 256"
    "length (h_ciphers h) < 65536" "length (h_compression h) < 256"
    using assms by (simp_all add: hello_wf_def)
  let ?x = "case h_exts h of None \<Rightarrow> [] | Some es \<Rightarrow> enc16 (length (enc_exts es)) @ enc_exts es"
  have d: "drop 34 (enc_body h) = char_of (length (h_session h)) # h_session h @
     enc16 (length (h_ciphers h)) @ h_ciphers h @ char_of (length (h_compression h)) # h_compression h @ ?x"
    using wf(1,2) by (simp add: enc_body_def)
  have r0: "at_rest (cur_new (drop 34 (enc_body h))) (char_of (length (h_session h)) # h_session h @
     enc16 (length (h_ciphers h)) @ h_ciphers h @ char_of (length (h_compression h)) # h_compression h @ ?x)"
    by (simp add: d)
  obtain c1 where c1: "read_u8 (cur_new (drop 34 (enc_body h))) = Inr (length (h_session h), c1)"
    "at_rest c1 (h_session h @ enc16 (length (h_ciphers h)) @ h_ciphers h @
       char_of (length (h_compression h)) # h_compression h @ ?x)"
    using at_rest_read_length [OF r0 wf(3)] by blast
  obtain c2 where c2: "skip c1 (length (h_session h)) = Inr c2"
    "at_rest c2 (enc16 (length (h_ciphers h)) @ h_ciphers h @ char_of (length (h_compression h)) # h_compression h @ ?x)"
    using at_rest_skip [OF c1(2)] by blast
  obtain c3 where c3: "read_u16 c2 = Inr (length (h_ciphers h), c3)"
    "at_rest c3 (h_ciphers h @ char_of (length (h_compression h)) # h_compression h @ ?x)"
    using at_rest_read_u16 [OF c2(2) wf(4)] by blast
  obtain c4 where c4: "skip c3 (length (h_ciphers h)) = Inr c4"
    "at_rest c4 (char_of (length (h_compression h)) # h_compression h @ ?x)"
    using at_rest_skip [OF c3(2)] by blast
  obtain c5 where c5: "read_u8 c4 = Inr (length (h_compression h), c5)" "at_rest c5 (h_compression h @ ?x)"
    using at_rest_read_length [OF c4(2) wf(5)] by blast
  obtain c6 where c6: "skip c5 (length (h_compression h)) = Inr c6" "at_rest c6 ?x"
    using at_rest_skip [OF c5(2)] by blast
  have len: "\<not> length (enc_body h) < 34" using wf(1,2) by (simp add: enc_body_def)
  note steps = c1(1) c2(1) c3(1) c4(1) c5(1) c6(1)
  show ?thesis
  proof (cases "h_exts h")
    case None
    then have "is_eof c6" using at_rest_eof [OF c6(2)] by simp
    then show ?thesis using None len by (simp add: parse_body_def steps sni_of_def)
  next
    case (Some es)
    then have es: "list_all ext_wf es" "length (enc_exts es) < 65536"
      using assms by (simp_all add: hello_wf_def)
    have r6: "at_rest c6 (enc16 (length (enc_exts es)) @ enc_exts es @ [])" using c6(2) Some by simp
    have ne: "\<not> is_eof c6" by (simp add: at_rest_eof [OF r6] enc16_def)
    obtain c7 where c7: "read_u16 c6 = Inr (length (enc_exts es), c7)" "at_rest c7 (enc_exts es @ [])"
      using at_rest_read_u16 [OF r6 es(2)] by blast
    obtain c8 where c8: "take_bytes c7 (length (enc_exts es)) = Inr (enc_exts es, c8)"
      using at_rest_take [OF c7(2)] by blast
    show ?thesis
      using len ne Some walk_extensions_encoded [OF es(1) at_rest_new]
      by (simp add: parse_body_def steps c7(1) c8 sni_of_def)
  qed
qed

lemma parse_handshake_encoded:
  assumes "hello_wf h"
  shows "parse_handshake (enc_handshake h) = Inr (ParseOk (sni_of h))"
proof -
  let ?n = "length (enc_body h)"
  have n: "?n < 65536" using assms by (simp add: hello_wf_def enc_handshake_def MAX_HANDSHAKE_BODY_def)
  have "?n div 256 mod 256 * 256 + ?n mod 256 = ?n" "?n div 65536 mod 256 = 0"
    using n by simp_all
  then have "cc (enc_handshake h ! 1) * 65536 + cc (enc_handshake h ! 2) * 256 + cc (enc_handshake h ! 3) = ?n"
    by (simp add: enc_handshake_def enc24_def)
  moreover have "cc (enc_handshake h ! 0) = HS_MSG_CLIENT_HELLO"
    by (simp add: enc_handshake_def HS_MSG_CLIENT_HELLO_def)
  moreover have "length (enc_handshake h) = ?n + 4" "drop 4 (enc_handshake h) = enc_body h"
    by (simp_all add: enc_handshake_def enc24_def)
  ultimately show ?thesis
    using parse_body_encoded [OF assms] by (simp add: parse_handshake_def Let_def)
qed

lemma parse_hello_encoded:
  assumes "hello_wf h"
  shows "parse_hello (enc_hello minor h @ later) = Inr (ParseOk (sni_of h))"
proof -
  let ?b = "enc_hello minor h @ later" and ?n = "length (enc_handshake h)"
  have n: "?n \<le> MAX_HANDSHAKE_BODY" "?n \<noteq> 0" "?n < 65536"
    using assms by (simp_all add: hello_wf_def enc_handshake_def MAX_HANDSHAKE_BODY_def)
  have "be16 (?b ! 3) (?b ! 4) = ?n"
    using n(3) by (simp add: enc_hello_def enc16_def be16_def)
  moreover have "cc (?b ! 0) = RECORD_TYPE_HANDSHAKE" "cc (?b ! 1) = 3"
    by (simp_all add: enc_hello_def RECORD_TYPE_HANDSHAKE_def)
  moreover have "length ?b = 5 + ?n + length later" "take ?n (drop 5 ?b) = enc_handshake h"
    by (simp_all add: enc_hello_def enc16_def)
  ultimately show ?thesis
    using parse_handshake_encoded [OF assms] n(1,2) by (simp add: parse_hello_def Let_def)
qed

section \<open>Verdicts are final\<close>

lemma parse_hello_append:
  assumes "parse_hello bs \<noteq> Inr Truncated"
  shows "parse_hello (bs @ later) = parse_hello bs"
proof -
  have 5: "\<not> length bs < 5" using assms by (auto simp: parse_hello_def)
  then have nth: "(bs @ later) ! i = bs ! i" if "i < 5" for i using that by (simp add: nth_append)
  show ?thesis
    using assms 5 nth [of 0] nth [of 1] nth [of 3] nth [of 4]
    by (auto simp: parse_hello_def Let_def split: if_splits)
qed

lemma parse_hello_prefix:
  assumes "parse_hello bs \<noteq> Inr Truncated" and "length bs \<le> cap"
  shows "parse_hello (take cap (bs @ later)) = parse_hello bs"
  using parse_hello_append [OF assms(1), of "take (cap - length bs) later"] assms(2) by simp

text \<open>The bytes the peer sends until it closes, fails or falls silent.\<close>

fun stream_bytes :: "(nat \<times> peek_read) list \<Rightarrow> string" where
  "stream_bytes ((now, Arrived bs) # rest) = (if bs = [] then [] else bs @ stream_bytes rest)"
| "stream_bytes _ = []"

definition timely :: "nat \<Rightarrow> nat \<times> peek_read \<Rightarrow> bool" where
  "timely deadline ev = (fst ev < deadline \<and> (case snd ev of Arrived bs \<Rightarrow> bs \<noteq> [] | _ \<Rightarrow> False))"

fun peek_verdict :: "nat \<Rightarrow> string \<Rightarrow> (PeekError, string option) result" where
  "peek_verdict cap bytes =
     (case parse_hello (take cap bytes) of
        Inr (ParseOk sni) \<Rightarrow> Inr sni
      | Inl NotTls \<Rightarrow> Inl PeekNotTls
      | Inl Malformed \<Rightarrow> Inl PeekMalformed
      | Inr Truncated \<Rightarrow> Inl (if length bytes \<ge> cap then PeekSizeCap else PeekTimeout (length bytes)))"

lemma unread_bytes [simp]:
  "bs \<noteq> [] \<Longrightarrow> take want bs @ stream_bytes (leave_unread want now bs rest) = bs @ stream_bytes rest"
  by (simp add: leave_unread_def)

lemma unread_timely:
  "timely deadline (now, Arrived bs) \<Longrightarrow> list_all (timely deadline) rest \<Longrightarrow>
   list_all (timely deadline) (leave_unread want now bs rest)"
  by (simp add: leave_unread_def timely_def)

lemma peek_loop_reads:
  assumes "parse_hello buf = Inr Truncated" "length buf < cap" "now < deadline" "bs \<noteq> []"
  defines "want \<equiv> min CHUNK (cap - length buf)"
  shows "peek_loop deadline cap buf ((now, Arrived bs) # rest) =
    peek_loop deadline cap (buf @ take want bs) (leave_unread want now bs rest)"
  using assms by (subst peek_loop.simps) (simp add: Let_def)

lemma want_progress:
  "length buf < cap \<Longrightarrow> bs \<noteq> [] \<Longrightarrow>
   cap - length (buf @ take (min CHUNK (cap - length buf)) bs) < cap - length buf \<and>
   length (buf @ take (min CHUNK (cap - length buf)) bs) \<le> cap"
  by (cases bs) (auto simp: CHUNK_def)

lemma peek_loop_final:
  assumes "parse_hello buf \<noteq> Inr Truncated" and "length buf \<le> cap"
  shows "peek_loop deadline cap buf stream =
    (case peek_verdict cap (buf @ later) of Inr sni \<Rightarrow> Inr (buf, sni) | Inl e \<Rightarrow> Inl e, stream)"
  using assms parse_hello_prefix [OF assms, of later]
  by (subst peek_loop.simps) (auto split: sum.splits ParseError.splits ParseOutcome.splits)

text \<open>Whatever the stream does, a successful read has taken a prefix of the peer's bytes and
  left the rest.\<close>

lemma peek_loop_captures:
  "peek_loop deadline cap buf stream = (Inr (b, sni), stream') \<Longrightarrow> length buf \<le> cap \<Longrightarrow>
   b @ stream_bytes stream' = buf @ stream_bytes stream \<and> length b \<le> cap \<and>
   parse_hello b = Inr (ParseOk sni)"
proof (induction "cap - length buf" arbitrary: buf stream rule: less_induct)
  case less
  show ?case
  proof (cases "parse_hello buf = Inr Truncated")
    case False
    then show ?thesis
      using less.prems by (subst (asm) peek_loop.simps)
        (simp split: sum.splits ParseError.splits ParseOutcome.splits)
  next
    case True
    obtain now bs rest where s: "stream = (now, Arrived bs) # rest" "bs \<noteq> []" "now < deadline" "length buf < cap"
      using less.prems True
      by (subst (asm) peek_loop.simps)
        (simp add: Let_def split: list.splits prod.splits if_splits peek_read.splits)
    let ?want = "min CHUNK (cap - length buf)"
    have run: "peek_loop deadline cap (buf @ take ?want bs) (leave_unread ?want now bs rest) = (Inr (b, sni), stream')"
      using less.prems(1) peek_loop_reads [OF True s(4,3,2)] s(1) by simp
    show ?thesis
      using less.hyps [OF _ run] want_progress [OF s(4,2)] unread_bytes [OF s(2)] s(1,2) by simp
  qed
qed

text \<open>When the peer's bytes arrive in time, the verdict is that of parsing them in one piece.\<close>

lemma peek_loop_verdict:
  "list_all (timely deadline) stream \<Longrightarrow> length buf \<le> cap \<Longrightarrow>
   map_prod (map_sum id snd) id (peek_loop deadline cap buf stream) =
     (peek_verdict cap (buf @ stream_bytes stream), snd (peek_loop deadline cap buf stream))"
proof (induction "cap - length buf" arbitrary: buf stream rule: less_induct)
  case less
  show ?case
  proof (cases "parse_hello buf = Inr Truncated")
    case False
    then show ?thesis
      using peek_loop_final [OF False less.prems(2), of deadline stream "stream_bytes stream"]
      by (simp split: sum.splits)
  next
    case True
    show ?thesis
    proof (cases "length buf < cap \<and> stream \<noteq> []")
      case False
      then show ?thesis
        using True less.prems(2) by (subst peek_loop.simps, subst peek_loop.simps) (cases stream; auto)
    next
      case False': True
      then obtain now bs rest where s: "stream = (now, Arrived bs) # rest" "bs \<noteq> []" "now < deadline"
        using less.prems(1) by (cases stream) (auto simp: timely_def split: peek_read.splits)
      let ?want = "min CHUNK (cap - length buf)"
      have lt: "length buf < cap" using False' by simp
      have t: "list_all (timely deadline) (leave_unread ?want now bs rest)"
        using less.prems(1) s(1) by (simp add: unread_timely)
      show ?thesis
        using less.hyps [OF _ t] want_progress [OF lt s(2)] unread_bytes [OF s(2)] s(1,2)
          peek_loop_reads [OF True lt s(3,2)]
        by (simp del: peek_verdict.simps)
    qed
  qed
qed

lemma parse_hello_short:
  assumes "n < length (enc_hello minor h)" and "hello_wf h"
  shows "parse_hello (take n (enc_hello minor h)) = Inr Truncated"
proof (cases "n < 5")
  case False
  let ?b = "enc_hello minor h" and ?m = "length (enc_handshake h)"
  have m: "?m \<le> MAX_HANDSHAKE_BODY" "?m \<noteq> 0" "?m < 65536"
    using assms(2) by (simp_all add: hello_wf_def enc_handshake_def MAX_HANDSHAKE_BODY_def)
  have nth: "take n ?b ! i = ?b ! i" if "i < 5" for i using that False by simp
  have "be16 (?b ! 3) (?b ! 4) = ?m"
    using m(3) by (simp add: enc_hello_def enc16_def be16_def)
  moreover have "cc (?b ! 0) = RECORD_TYPE_HANDSHAKE" "cc (?b ! 1) = 3"
    by (simp_all add: enc_hello_def RECORD_TYPE_HANDSHAKE_def)
  moreover have "length ?b = 5 + ?m" by (simp add: enc_hello_def)
  ultimately show ?thesis
    using assms(1) m(1,2) nth [of 0] nth [of 1] nth [of 3] nth [of 4]
    by (simp add: parse_hello_def Let_def)
next
  case True
  then have "length (take n (enc_hello minor h)) < 5" by simp
  then show ?thesis by (simp only: parse_hello_def if_True)
qed

text \<open>The fixture is a well-formed ClientHello, so parsing it gives the host back.\<close>

definition fixture :: "string \<Rightarrow> hello" where
  "fixture host = \<lparr>h_version = bytes_of [3, 3], h_random = replicate 32 (char_of (171 :: nat)), h_session = [],
     h_ciphers = bytes_of [19, 1], h_compression = bytes_of [0],
     h_exts = Some [ServerNames [(0, host)]]\<rparr>"

lemma fixture_encoded:
  assumes "length host \<le> 16000"
  shows "build_client_hello (Some host) = Some (enc_hello 1 (fixture host))"
  using assms
  by (simp add: build_client_hello_def fixture_def enc_hello_def enc_handshake_def enc_body_def enc_exts_def
      enc_ext_def enc_names_def bytes_of_def enc16_def HS_MSG_CLIENT_HELLO_def RECORD_TYPE_HANDSHAKE_def
      EXT_SERVER_NAME_def Let_def)

lemma fixture_wf:
  assumes "length host \<le> 16000" and "utf8_valid host"
  shows "hello_wf (fixture host)"
  using assms
  by (simp add: hello_wf_def fixture_def enc_handshake_def enc_body_def enc_exts_def names_wf_def
      enc_ext_def enc_names_def bytes_of_def MAX_HANDSHAKE_BODY_def)

section \<open>Properties\<close>

text \<open>C35 (client_hello_parsed_exactly): for every well-formed ClientHello, with any other
  extensions around its server names, the parser asks for more bytes until the record is
  complete, and then yields the host the client asks for (or none when it names none),
  whatever bytes follow.\<close>

theorem client_hello_parsed_exactly:
  assumes "hello_wf h"
  shows "parse_hello (enc_hello minor h @ later) = Inr (ParseOk (sni_of h)) \<and>
    (\<forall>n < length (enc_hello minor h). parse_hello (take n (enc_hello minor h)) = Inr Truncated)"
  using parse_hello_encoded [OF assms] parse_hello_short [OF _ assms] by simp

theorem client_hello_parsed_exactly_witness:
  "parse_hello (enc_hello 1 (fixture ''A.b.'') @ ''x'') = Inr (ParseOk (Some ''a.b''))"
proof -
  have "hello_wf (fixture ''A.b.'')" by (rule fixture_wf) (simp, code_simp)
  from client_hello_parsed_exactly [OF this, THEN conjunct1]
  have "parse_hello (enc_hello 1 (fixture ''A.b.'') @ ''x'') = Inr (ParseOk (sni_of (fixture ''A.b.'')))" .
  moreover have "sni_of (fixture ''A.b.'') = Some ''a.b''" by code_simp
  ultimately show ?thesis by simp
qed

text \<open>Parsing what \<open>build_client_hello\<close> builds for a host of
  at most 16000 bytes gives the host back in lower case, without surrounding space and
  trailing dots.\<close>

lemma client_hello_builder_round_trip:
  assumes "length host \<le> 16000" and "utf8_valid host" and "host_of host \<noteq> []"
  shows "\<exists>bytes. build_client_hello (Some host) = Some bytes \<and>
    parse_hello bytes = Inr (ParseOk (Some (to_ascii_lowercase (host_of host))))"
proof -
  have "sni_of (fixture host) = Some (to_ascii_lowercase (host_of host))"
    using assms(3) by (simp add: sni_of_def fixture_def SNI_NAME_TYPE_HOST_def)
  then show ?thesis
    using fixture_encoded [OF assms(1)] parse_hello_encoded [OF fixture_wf [OF assms(1,2)], of 1 "[]"] by simp
qed

text \<open>However the peer's bytes are cut into reads, as long as
  they arrive before the deadline the verdict is that of parsing the first \<open>cap\<close> of them in
  one piece; and a successful read has captured a prefix of what the peer sent, to be
  replayed, of at most \<open>cap\<close> bytes, leaving the rest in the stream.\<close>

lemma peek_independent_of_chunking:
  assumes "list_all (timely (start + timeout)) stream"
    and "read_client_hello_with start timeout cap stream = (r, stream')"
  shows "map_sum id snd r = peek_verdict cap (stream_bytes stream) \<and>
    (\<forall>b sni. r = Inr (b, sni) \<longrightarrow>
       b @ stream_bytes stream' = stream_bytes stream \<and> length b \<le> cap)"
  using peek_loop_verdict [OF assms(1), of "[]" cap] peek_loop_captures [of "start + timeout" cap "[]" stream]
    assms(2)
  by (auto simp: read_client_hello_with_def simp del: peek_verdict.simps)

end
