(* ===== verification/Sni_Routes.thy ===== *)
theory Sni_Routes
  imports Rust_Str Prelude
begin

text \<open>
  The routing table of an SNI listener (crates/portunus-forwarder/src/forwarder/sni/route_table.rs):
  its construction from the members of a port group, and the lookup by host name.  The lookup
  is shown to implement the precedence exact, then single-label wildcard, then fallback over
  the members the table was built from.
\<close>

datatype SniMatchKind = SniExact | SniWildcard | SniFallback

datatype SniMatch = SniHit nat SniMatchKind | SniMiss

datatype BuildError = DuplicateExact string | DuplicateWildcard string | DuplicateFallback

record SniRoutingTable =
  srt_exact :: "string \<rightharpoonup> nat"
  srt_wildcards :: "(string \<times> nat) list"
  srt_fallback :: "nat option"

definition srt_empty :: SniRoutingTable where
  "srt_empty = \<lparr>srt_exact = Map.empty, srt_wildcards = [], srt_fallback = None\<rparr>"

text \<open>One member added to the slots built so far.\<close>

definition add_member :: "string option \<times> nat \<Rightarrow> SniRoutingTable \<Rightarrow> (BuildError, SniRoutingTable) result" where
  "add_member m t =
     (case m of
        (None, rid) \<Rightarrow>
          if srt_fallback t \<noteq> None then Inl DuplicateFallback
          else Inr (t\<lparr>srt_fallback := Some rid\<rparr>)
      | (Some p, rid) \<Rightarrow>
          (let lowered = to_ascii_lowercase p in
           case strip_prefix ''*.'' lowered of
             Some suffix \<Rightarrow>
               (let needle = CHR ''.'' # suffix in
                if list_ex (\<lambda>(n, _). n = needle) (srt_wildcards t) then Inl (DuplicateWildcard suffix)
                else Inr (t\<lparr>srt_wildcards := srt_wildcards t @ [(needle, rid)]\<rparr>))
           | None \<Rightarrow>
               if srt_exact t lowered \<noteq> None then Inl (DuplicateExact lowered)
               else Inr (t\<lparr>srt_exact := (srt_exact t)(lowered \<mapsto> rid)\<rparr>)))"

fun add_members ::
  "(string option \<times> nat) list \<Rightarrow> SniRoutingTable \<Rightarrow> (BuildError, SniRoutingTable) result" where
  "add_members [] t = Inr t"
| "add_members (m # ms) t = rbind (add_member m t) (add_members ms)"

text \<open>\<open>sort_by\<close> is stable, and so is \<^const>\<open>sort_key\<close>.\<close>

definition from_members :: "(string option \<times> nat) list \<Rightarrow> (BuildError, SniRoutingTable) result" where
  "from_members members =
     rbind (add_members members srt_empty)
       (\<lambda>t. Inr (t\<lparr>srt_wildcards := sort_key (\<lambda>(n, _). - int (length n)) (srt_wildcards t)\<rparr>))"

definition wildcard_matches :: "string \<Rightarrow> string \<Rightarrow> bool" where
  "wildcard_matches host_lc needle =
     (case strip_suffix needle host_lc of
        None \<Rightarrow> False
      | Some prefix \<Rightarrow> if prefix = [] then False else CHR ''.'' \<notin> set prefix)"

definition lookup_fallback :: "SniRoutingTable \<Rightarrow> SniMatch" where
  "lookup_fallback t = (case srt_fallback t of Some rid \<Rightarrow> SniHit rid SniFallback | None \<Rightarrow> SniMiss)"

definition sni_lookup :: "SniRoutingTable \<Rightarrow> string option \<Rightarrow> SniMatch" where
  "sni_lookup t sni =
     (case sni of
        None \<Rightarrow> lookup_fallback t
      | Some host \<Rightarrow>
          (let host_lc = (if list_ex is_ascii_upper host then to_ascii_lowercase host else host) in
           case srt_exact t host_lc of
             Some rid \<Rightarrow> SniHit rid SniExact
           | None \<Rightarrow>
               (case find (\<lambda>(needle, _). wildcard_matches host_lc needle) (srt_wildcards t) of
                  Some (_, rid) \<Rightarrow> SniHit rid SniWildcard
                | None \<Rightarrow> lookup_fallback t)))"

section \<open>The routing rule\<close>

text \<open>A wildcard covers the hosts with exactly one more, non-empty, label.\<close>

definition wild_covers :: "string \<Rightarrow> string \<Rightarrow> bool" where
  "wild_covers pat host =
     (let label = takeWhile (\<lambda>c. c \<noteq> CHR ''.'') host; tail = dropWhile (\<lambda>c. c \<noteq> CHR ''.'') host
      in label \<noteq> [] \<and> tail \<noteq> [] \<and> pat = CHR ''*'' # tail)"

definition is_wildcard :: "string \<Rightarrow> bool" where
  "is_wildcard pat = (strip_prefix ''*.'' pat \<noteq> None)"

fun applies :: "string option \<Rightarrow> string option \<Rightarrow> SniMatchKind \<Rightarrow> bool" where
  "applies (Some p) (Some host) SniExact =
     (\<not> is_wildcard (to_ascii_lowercase p) \<and> to_ascii_lowercase p = to_ascii_lowercase host)"
| "applies (Some p) (Some host) SniWildcard =
     wild_covers (to_ascii_lowercase p) (to_ascii_lowercase host)"
| "applies None sni SniFallback = True"
| "applies _ _ _ = False"

fun kind_rank :: "SniMatchKind \<Rightarrow> nat" where
  "kind_rank SniExact = 0"
| "kind_rank SniWildcard = 1"
| "kind_rank SniFallback = 2"

abbreviation member_key :: "string option \<times> nat \<Rightarrow> string option" where
  "member_key m \<equiv> map_option to_ascii_lowercase (fst m)"

text \<open>What the slots hold after the members \<open>ms\<close>.\<close>

definition holds_members :: "(string option \<times> nat) list \<Rightarrow> SniRoutingTable \<Rightarrow> bool" where
  "holds_members ms t \<longleftrightarrow>
     (\<forall>rid. srt_fallback t = Some rid \<longleftrightarrow> (None, rid) \<in> set ms) \<and>
     (\<forall>k rid. srt_exact t k = Some rid \<longleftrightarrow>
        (\<exists>p. (Some p, rid) \<in> set ms \<and> to_ascii_lowercase p = k \<and> \<not> is_wildcard k)) \<and>
     (\<forall>n rid. (n, rid) \<in> set (srt_wildcards t) \<longleftrightarrow>
        (\<exists>p s. (Some p, rid) \<in> set ms \<and> to_ascii_lowercase p = ''*.'' @ s \<and> n = CHR ''.'' # s)) \<and>
     distinct (map member_key ms)"

lemma holds_empty: "holds_members [] srt_empty"
  by (simp add: holds_members_def srt_empty_def)

lemma strip_star: "strip_prefix ''*.'' (CHR ''*'' # CHR ''.'' # s) = Some s"
  by simp

lemma key_in_members:
  "Some k \<in> member_key ` set ms \<longleftrightarrow> (\<exists>q rid. (Some q, rid) \<in> set ms \<and> to_ascii_lowercase q = k)"
proof
  assume "Some k \<in> member_key ` set ms"
  then obtain a rid where "(a, rid) \<in> set ms" "Some k = map_option to_ascii_lowercase a" by auto
  then show "\<exists>q rid. (Some q, rid) \<in> set ms \<and> to_ascii_lowercase q = k" by (cases a) auto
next
  assume "\<exists>q rid. (Some q, rid) \<in> set ms \<and> to_ascii_lowercase q = k"
  then obtain q rid where q: "(Some q, rid) \<in> set ms" "to_ascii_lowercase q = k" by blast
  have "member_key (Some q, rid) \<in> member_key ` set ms" by (rule imageI [OF q(1)])
  then show "Some k \<in> member_key ` set ms" using q(2) by simp
qed

lemma add_member_ok:
  assumes h: "holds_members ms t"
  shows "(\<exists>t'. add_member m t = Inr t') \<longleftrightarrow> member_key m \<notin> member_key ` set ms"
proof (cases m)
  case (Pair pat rid)
  show ?thesis
  proof (cases pat)
    case None
    have "srt_fallback t \<noteq> None \<longleftrightarrow> (\<exists>rid. (None, rid) \<in> set ms)"
      using h unfolding holds_members_def by (metis not_Some_eq)
    moreover have "None \<in> member_key ` set ms \<longleftrightarrow> (\<exists>rid. (None, rid) \<in> set ms)" by force
    ultimately show ?thesis using Pair None by (auto simp: add_member_def)
  next
    case (Some p)
    let ?k = "to_ascii_lowercase p"
    have mem: "Some ?k \<in> member_key ` set ms \<longleftrightarrow> (\<exists>q rid. (Some q, rid) \<in> set ms \<and> to_ascii_lowercase q = ?k)"
      by (rule key_in_members)
    show ?thesis
    proof (cases "strip_prefix ''*.'' ?k")
      case (Some s)
      then have k: "?k = ''*.'' @ s" using strip_prefix_Some by blast
      have "list_ex (\<lambda>(n, _). n = CHR ''.'' # s) (srt_wildcards t) \<longleftrightarrow>
          (\<exists>rid. (CHR ''.'' # s, rid) \<in> set (srt_wildcards t))"
        by (auto simp: list_ex_iff)
      also have "\<dots> \<longleftrightarrow> (\<exists>q rid. (Some q, rid) \<in> set ms \<and> to_ascii_lowercase q = ?k)"
        using h k unfolding holds_members_def by fastforce
      finally show ?thesis
        using Pair \<open>pat = Some p\<close> Some mem by (simp add: add_member_def Let_def)
    next
      case None
      then have "srt_exact t ?k \<noteq> None \<longleftrightarrow> (\<exists>q rid. (Some q, rid) \<in> set ms \<and> to_ascii_lowercase q = ?k)"
        using h unfolding holds_members_def is_wildcard_def by (metis not_Some_eq)
      then show ?thesis
        using Pair \<open>pat = Some p\<close> None mem by (simp add: add_member_def Let_def)
    qed
  qed
qed

lemma add_member_holds:
  assumes h: "holds_members ms t" and a: "add_member m t = Inr t'"
  shows "holds_members (ms @ [m]) t'"
proof -
  have d: "distinct (map member_key (ms @ [m]))"
    using h a add_member_ok [OF h, of m] by (auto simp: holds_members_def)
  obtain pat rid where m: "m = (pat, rid)" by fastforce
  show ?thesis
  proof (cases pat)
    case None
    then have t': "t' = t\<lparr>srt_fallback := Some rid\<rparr>" "srt_fallback t = None"
      using a m by (auto simp: add_member_def split: if_splits)
    then show ?thesis
      using h d m None unfolding holds_members_def by auto
  next
    case (Some p)
    let ?k = "to_ascii_lowercase p"
    show ?thesis
    proof (cases "strip_prefix ''*.'' ?k")
      case s: (Some s)
      then have k: "?k = ''*.'' @ s" using strip_prefix_Some by blast
      have t': "t' = t\<lparr>srt_wildcards := srt_wildcards t @ [(CHR ''.'' # s, rid)]\<rparr>"
        using a m Some s by (auto simp: add_member_def Let_def split: if_splits)
      show ?thesis
        using h d m Some k unfolding holds_members_def t' by (auto simp: is_wildcard_def)
    next
      case None
      have t': "t' = t\<lparr>srt_exact := (srt_exact t)(?k \<mapsto> rid)\<rparr>" and f: "srt_exact t ?k = None"
        using a m Some None by (auto simp: add_member_def Let_def split: if_splits)
      have nw: "\<not> is_wildcard ?k" using None by (simp add: is_wildcard_def)
      then have "?k \<noteq> ''*.'' @ s" for s using None strip_prefix_Some [of "''*.''" ?k s] by simp
      moreover have "\<nexists>q rid'. (Some q, rid') \<in> set ms \<and> to_ascii_lowercase q = ?k"
        using f h nw unfolding holds_members_def by (metis option.distinct(1))
      ultimately show ?thesis
        using h d m Some nw unfolding holds_members_def t' by auto
    qed
  qed
qed

lemma add_members_holds:
  "holds_members ms t \<Longrightarrow> add_members ms' t = Inr t' \<Longrightarrow> holds_members (ms @ ms') t'"
proof (induction ms' arbitrary: ms t)
  case Nil
  then show ?case by simp
next
  case (Cons m ms')
  then obtain t1 where t1: "add_member m t = Inr t1" "add_members ms' t1 = Inr t'"
    by (cases "add_member m t") auto
  show ?case
    using Cons.IH [OF add_member_holds [OF Cons.prems(1) t1(1)] t1(2)] by simp
qed

lemma add_members_ok:
  "holds_members ms t \<Longrightarrow> (\<exists>t'. add_members ms' t = Inr t') \<longleftrightarrow> distinct (map member_key (ms @ ms'))"
proof (induction ms' arbitrary: ms t)
  case Nil
  then show ?case by (simp add: holds_members_def)
next
  case (Cons m ms')
  show ?case
  proof (cases "add_member m t")
    case (Inl e)
    then have "member_key m \<in> member_key ` set ms" using add_member_ok [OF Cons.prems, of m] by auto
    then show ?thesis using Inl by auto
  next
    case (Inr t1)
    then show ?thesis using Cons.IH [OF add_member_holds [OF Cons.prems Inr]] by simp
  qed
qed

lemma from_members_holds: "from_members ms = Inr t \<Longrightarrow> holds_members ms t"
  using add_members_holds [OF holds_empty, of ms]
  by (cases "add_members ms srt_empty") (auto simp: from_members_def holds_members_def)

lemma wildcard_matches_covers:
  "wildcard_matches host (CHR ''.'' # s) \<longleftrightarrow> wild_covers (''*.'' @ s) host"
proof
  assume "wildcard_matches host (CHR ''.'' # s)"
  then obtain label where l: "host = label @ CHR ''.'' # s" "label \<noteq> []" "CHR ''.'' \<notin> set label"
    by (auto simp: wildcard_matches_def strip_suffix_Some split: option.splits if_splits)
  have "\<And>x. x \<in> set label \<Longrightarrow> x \<noteq> CHR ''.''" using l(3) by auto
  then have "takeWhile (\<lambda>c. c \<noteq> CHR ''.'') host = label" "dropWhile (\<lambda>c. c \<noteq> CHR ''.'') host = CHR ''.'' # s"
    unfolding l(1) by (subst takeWhile_append2 dropWhile_append2; simp)+
  then show "wild_covers (''*.'' @ s) host" using l(2) by (simp add: wild_covers_def)
next
  assume "wild_covers (''*.'' @ s) host"
  then have w: "takeWhile (\<lambda>c. c \<noteq> CHR ''.'') host \<noteq> []" "dropWhile (\<lambda>c. c \<noteq> CHR ''.'') host = CHR ''.'' # s"
    by (simp_all add: wild_covers_def Let_def)
  have "host = takeWhile (\<lambda>c. c \<noteq> CHR ''.'') host @ CHR ''.'' # s"
    using takeWhile_dropWhile_id [of "\<lambda>c. c \<noteq> CHR ''.''" host] w(2) by simp
  then have "strip_suffix (CHR ''.'' # s) host = Some (takeWhile (\<lambda>c. c \<noteq> CHR ''.'') host)"
    by (simp only: strip_suffix_Some)
  then show "wildcard_matches host (CHR ''.'' # s)"
    using w(1) by (auto simp: wildcard_matches_def dest: set_takeWhileD)
qed

lemma applies_wildcard_iff:
  assumes h: "holds_members ms t"
  shows "(\<exists>n. (n, rid) \<in> set (srt_wildcards t) \<and> wildcard_matches (to_ascii_lowercase host) n) \<longleftrightarrow>
    (\<exists>p. (p, rid) \<in> set ms \<and> applies p (Some host) SniWildcard)"
proof
  assume "\<exists>n. (n, rid) \<in> set (srt_wildcards t) \<and> wildcard_matches (to_ascii_lowercase host) n"
  then obtain n where n: "(n, rid) \<in> set (srt_wildcards t)" "wildcard_matches (to_ascii_lowercase host) n" by blast
  then obtain p s where "(Some p, rid) \<in> set ms" "to_ascii_lowercase p = ''*.'' @ s" "n = CHR ''.'' # s"
    using h unfolding holds_members_def by meson
  then show "\<exists>p. (p, rid) \<in> set ms \<and> applies p (Some host) SniWildcard"
    using n(2) wildcard_matches_covers by (metis applies.simps(2))
next
  assume "\<exists>p. (p, rid) \<in> set ms \<and> applies p (Some host) SniWildcard"
  then obtain p where p: "(p, rid) \<in> set ms" "applies p (Some host) SniWildcard" by blast
  then obtain q where q: "p = Some q" "wild_covers (to_ascii_lowercase q) (to_ascii_lowercase host)"
    by (cases p) auto
  have "\<exists>s. to_ascii_lowercase q = ''*.'' @ s"
  proof -
    have w: "to_ascii_lowercase q = CHR ''*'' # dropWhile (\<lambda>c. c \<noteq> CHR ''.'') (to_ascii_lowercase host)"
      "dropWhile (\<lambda>c. c \<noteq> CHR ''.'') (to_ascii_lowercase host) \<noteq> []"
      using q(2) by (simp_all add: wild_covers_def Let_def)
    obtain c s where "dropWhile (\<lambda>c. c \<noteq> CHR ''.'') (to_ascii_lowercase host) = c # s"
      using w(2) by (cases "dropWhile (\<lambda>c. c \<noteq> CHR ''.'') (to_ascii_lowercase host)") auto
    moreover from this have "c = CHR ''.''"
      using hd_dropWhile [of "\<lambda>c. c \<noteq> CHR ''.''" "to_ascii_lowercase host"] by simp
    ultimately show ?thesis using w(1) by simp
  qed
  then obtain s where s: "to_ascii_lowercase q = ''*.'' @ s" by blast
  have "(CHR ''.'' # s, rid) \<in> set (srt_wildcards t)"
    using h p(1) q(1) s unfolding holds_members_def by blast
  moreover have "wildcard_matches (to_ascii_lowercase host) (CHR ''.'' # s)"
    using q(2) s wildcard_matches_covers by simp
  ultimately show "\<exists>n. (n, rid) \<in> set (srt_wildcards t) \<and> wildcard_matches (to_ascii_lowercase host) n"
    by blast
qed

lemma applies_exact_iff:
  assumes "holds_members ms t"
  shows "srt_exact t (to_ascii_lowercase host) = Some rid \<longleftrightarrow>
    (\<exists>p. (p, rid) \<in> set ms \<and> applies p (Some host) SniExact)"
proof -
  have "(\<exists>p. (p, rid) \<in> set ms \<and> applies p (Some host) SniExact) \<longleftrightarrow>
      (\<exists>q. (Some q, rid) \<in> set ms \<and> applies (Some q) (Some host) SniExact)"
    by (metis applies.simps(4) not_Some_eq)
  then show ?thesis
    using assms unfolding holds_members_def by (auto simp: eq_commute)
qed

lemma applies_fallback_iff:
  assumes "holds_members ms t"
  shows "srt_fallback t = Some rid \<longleftrightarrow> (\<exists>p. (p, rid) \<in> set ms \<and> applies p sni SniFallback)"
proof -
  have "applies p sni SniFallback \<longleftrightarrow> p = None" for p
    by (cases p; cases sni) simp_all
  then show ?thesis using assms unfolding holds_members_def by simp
qed

lemma lowered_host:
  "(if list_ex is_ascii_upper host then to_ascii_lowercase host else host) = to_ascii_lowercase host"
  by (auto simp: list_ex_iff to_ascii_lowercase_id)

lemma applies_no_host: "applies p None kind \<longleftrightarrow> p = None \<and> kind = SniFallback"
  by (cases p; cases kind) simp_all

text \<open>The candidate rules of each kind, and the lookup as the first kind that has one.\<close>

definition candidate :: "(string option \<times> nat) list \<Rightarrow> string option \<Rightarrow> SniMatchKind \<Rightarrow> nat \<Rightarrow> bool" where
  "candidate ms sni kind rid \<longleftrightarrow> (\<exists>p. (p, rid) \<in> set ms \<and> applies p sni kind)"

lemma lookup_candidate:
  assumes h: "holds_members ms t"
  shows "case sni_lookup t sni of
      SniHit rid kind \<Rightarrow> candidate ms sni kind rid \<and>
        (\<forall>kind' rid'. candidate ms sni kind' rid' \<longrightarrow> kind_rank kind \<le> kind_rank kind')
    | SniMiss \<Rightarrow> \<forall>kind rid. \<not> candidate ms sni kind rid"
proof -
  have fb: "srt_fallback t = Some rid \<longleftrightarrow> candidate ms sni SniFallback rid" for rid
    unfolding candidate_def by (rule applies_fallback_iff [OF h])
  show ?thesis
  proof (cases sni)
    case None
    then have "k = SniFallback" if "candidate ms sni k r" for k r
      using that by (auto simp: candidate_def applies_no_host)
    then have "candidate ms sni k r \<longleftrightarrow> k = SniFallback \<and> srt_fallback t = Some r" for k r
      using fb by blast
    then show ?thesis
      using None by (simp add: sni_lookup_def lookup_fallback_def split: option.split)
  next
    case (Some host)
    have ex: "srt_exact t (to_ascii_lowercase host) = Some rid \<longleftrightarrow> candidate ms sni SniExact rid" for rid
      unfolding candidate_def Some by (rule applies_exact_iff [OF h])
    have wc: "(\<exists>n. (n, rid) \<in> set (srt_wildcards t) \<and> wildcard_matches (to_ascii_lowercase host) n) \<longleftrightarrow>
        candidate ms sni SniWildcard rid" for rid
      unfolding candidate_def Some by (rule applies_wildcard_iff [OF h])
    let ?find = "find (\<lambda>(needle, _). wildcard_matches (to_ascii_lowercase host) needle) (srt_wildcards t)"
    have lk: "sni_lookup t sni = (case srt_exact t (to_ascii_lowercase host) of
        Some rid \<Rightarrow> SniHit rid SniExact
      | None \<Rightarrow> (case ?find of Some (_, rid) \<Rightarrow> SniHit rid SniWildcard | None \<Rightarrow> lookup_fallback t))"
      using Some by (simp add: sni_lookup_def lowered_host Let_def)
    show ?thesis
    proof (cases "srt_exact t (to_ascii_lowercase host)")
      case e: (Some rid)
      then have "sni_lookup t sni = SniHit rid SniExact" using lk by simp
      then show ?thesis using ex [of rid] e by simp
    next
      case e: None
      then have noex: "\<not> candidate ms sni SniExact rid" for rid using ex by (metis option.distinct(1))
      show ?thesis
      proof (cases ?find)
        case f: (Some nr)
        obtain n rid where nr: "nr = (n, rid)" by fastforce
        have "(n, rid) \<in> set (srt_wildcards t) \<and> wildcard_matches (to_ascii_lowercase host) n"
          using f nr by (auto simp: find_Some_iff dest: nth_mem)
        then have "candidate ms sni SniWildcard rid" using wc by blast
        moreover have "kind_rank SniWildcard \<le> kind_rank k" if "candidate ms sni k r" for k r
          using that noex by (cases k) auto
        ultimately show ?thesis using lk e f nr by auto
      next
        case f: None
        then have nowc: "\<not> candidate ms sni SniWildcard rid" for rid
          using wc [of rid] by (auto simp: find_None_iff)
        have "k = SniFallback" if "candidate ms sni k r" for k r
          using that noex nowc by (cases k) auto
        then have "candidate ms sni k r \<longleftrightarrow> k = SniFallback \<and> srt_fallback t = Some r" for k r
          using fb by blast
        then show ?thesis
          using lk e f by (simp add: lookup_fallback_def split: option.split)
      qed
    qed
  qed
qed

lemma candidate_unique:
  assumes h: "holds_members ms t" and "candidate ms sni kind rid" and "candidate ms sni kind rid'"
  shows "rid = rid'"
proof -
  obtain p p' where p: "(p, rid) \<in> set ms" "applies p sni kind" "(p', rid') \<in> set ms" "applies p' sni kind"
    using assms(2,3) by (auto simp: candidate_def)
  have "member_key (p, rid) = member_key (p', rid')"
    using p(2,4) by (cases p; cases p'; cases sni; cases kind) (auto simp: wild_covers_def Let_def)
  moreover have "inj_on member_key (set ms)"
    using h by (simp add: holds_members_def distinct_map)
  ultimately have "(p, rid) = (p', rid')" using p(1,3) by (meson inj_onD)
  then show ?thesis by simp
qed

lemma kind_rank_inj: "kind_rank k = kind_rank k' \<Longrightarrow> k = k'"
  by (cases k; cases k') simp_all

section \<open>Properties\<close>

text \<open>The lookup finds a rule exactly when some member of the group
  applies to the host: the member with that name, else the wildcard that covers the host with
  one non-empty label, else the fallback; a peer without a host name only reaches the
  fallback.  Which one is found does not depend on the order of the members.\<close>

lemma sni_lookup_precedence:
  assumes "from_members ms = Inr t"
  shows "(sni_lookup t sni = SniHit rid kind \<longleftrightarrow>
      candidate ms sni kind rid \<and>
      (\<forall>kind' rid'. candidate ms sni kind' rid' \<longrightarrow> kind_rank kind \<le> kind_rank kind')) \<and>
    (sni_lookup t sni = SniMiss \<longleftrightarrow> (\<forall>kind rid. \<not> candidate ms sni kind rid))"
proof -
  note h = from_members_holds [OF assms]
  note c = lookup_candidate [OF h, of sni]
  show ?thesis
  proof (cases "sni_lookup t sni")
    case SniMiss
    then show ?thesis using c by auto
  next
    case (SniHit r k)
    then have r: "candidate ms sni k r"
      "\<And>k' r'. candidate ms sni k' r' \<Longrightarrow> kind_rank k \<le> kind_rank k'" using c by auto
    have "kind = k \<and> rid = r" if "candidate ms sni kind rid"
      "\<forall>kind' rid'. candidate ms sni kind' rid' \<longrightarrow> kind_rank kind \<le> kind_rank kind'"
    proof -
      have "kind = k" using that r by (meson kind_rank_inj order_antisym)
      then show ?thesis using candidate_unique [OF h] that(1) r(1) by blast
    qed
    then show ?thesis using SniHit r by auto
  qed
qed

definition sample_members :: "(string option \<times> nat) list" where
  "sample_members = [(None, 3), (Some ''*.b.c'', 1), (Some ''a.b.c'', 2)]"

text \<open>A table can be built from a group exactly when no two
  members have the same pattern up to case, the missing pattern of the fallback included.\<close>

lemma sni_table_builds_iff_distinct:
  "is_ok (from_members ms) \<longleftrightarrow> distinct (map member_key ms)"
proof -
  have "is_ok (from_members ms) \<longleftrightarrow> (\<exists>t. add_members ms srt_empty = Inr t)"
    by (cases "add_members ms srt_empty") (simp_all add: from_members_def is_ok_def)
  then show ?thesis using add_members_ok [OF holds_empty, of ms] by simp
qed

end
