(* ===== verification/Sni_Listener.thy ===== *)
theory Sni_Listener
  imports Client_Hello Sni_Routes Rate_Stats Host_Target
begin

text \<open>
  The SNI listener (crates/portunus-forwarder/src/forwarder/sni/listener.rs) with the peek
  histogram (portunus-core/src/peek_histogram.rs): the accept loop with its cap on concurrent
  peeks, and the handling of one accepted connection up to the hand-over to the proxy.

  Counters and accumulators shared through \<open>Arc\<close>s live in lists; a slot holds indices into
  them.  The connections of a listener interleave at the points where the code awaits: accepting,
  and the end of a peek.
\<close>

section \<open>The peek histogram\<close>

text \<open>The bucket boundaries in nanoseconds: the comparison of \<open>as_secs_f64\<close> values with these
  boundaries agrees with the comparison of whole nanoseconds.\<close>

definition PEEK_HISTOGRAM_BUCKETS :: "nat list" where
  "PEEK_HISTOGRAM_BUCKETS =
     [100000, 250000, 500000, 1000000, 2500000, 5000000, 10000000, 25000000, 50000000, 100000000,
      250000000, 500000000, 1000000000, 2000000000, 3000000000]"

definition bucket_count :: nat where
  "bucket_count = length PEEK_HISTOGRAM_BUCKETS"

definition bucket_index :: "nat \<Rightarrow> nat option" where
  "bucket_index elapsed = find_index_from 0 (\<lambda>upper. elapsed \<le> upper) PEEK_HISTOGRAM_BUCKETS"

record PeekDurationHistogram =
  ph_buckets :: "nat list"
  ph_sum_micros :: nat
  ph_count :: nat

definition ph_default :: PeekDurationHistogram where
  "ph_default = \<lparr>ph_buckets = replicate bucket_count 0, ph_sum_micros = 0, ph_count = 0\<rparr>"

definition ph_observe :: "PeekDurationHistogram \<Rightarrow> nat \<Rightarrow> PeekDurationHistogram" where
  "ph_observe h elapsed =
     (let buckets = (case bucket_index elapsed of
            None \<Rightarrow> ph_buckets h
          | Some idx \<Rightarrow> take idx (ph_buckets h) @ map (\<lambda>b. wrap64 (b + 1)) (drop idx (ph_buckets h)))
      in h\<lparr>ph_buckets := buckets, ph_sum_micros := wrap64 (ph_sum_micros h + try_u64 (elapsed div 1000)),
           ph_count := wrap64 (ph_count h + 1)\<rparr>)"

definition ph_snapshot :: "PeekDurationHistogram \<Rightarrow> nat list \<times> nat \<times> nat" where
  "ph_snapshot h = (ph_buckets h, ph_sum_micros h, ph_count h)"

section \<open>The listener\<close>

definition MAX_INFLIGHT_PEEKS :: nat where
  "MAX_INFLIGHT_PEEKS = 1024"

record SniListenerCounters =
  sc_miss :: nat
  sc_parse_failures :: nat
  sc_peek_capacity_rejections :: nat
  sc_peek_histogram :: PeekDurationHistogram

definition sc_default :: SniListenerCounters where
  "sc_default = \<lparr>sc_miss = 0, sc_parse_failures = 0, sc_peek_capacity_rejections = 0,
     sc_peek_histogram = ph_default\<rparr>"

record SniListenerStatsSnapshot =
  sls_listen_port :: u16
  sls_sni_route_miss_total :: nat
  sls_client_hello_parse_failures_total :: nat
  sls_client_hello_peek_bucket_counts :: "nat list"
  sls_client_hello_peek_sum_micros :: nat
  sls_client_hello_peek_count :: nat

definition sc_snapshot :: "SniListenerCounters \<Rightarrow> u16 \<Rightarrow> SniListenerStatsSnapshot" where
  "sc_snapshot c listen_port =
     (case ph_snapshot (sc_peek_histogram c) of (buckets, sum_micros, cnt) \<Rightarrow>
        \<lparr>sls_listen_port = listen_port, sls_sni_route_miss_total = sc_miss c,
         sls_client_hello_parse_failures_total = sc_parse_failures c,
         sls_client_hello_peek_bucket_counts = buckets,
         sls_client_hello_peek_sum_micros = sum_micros,
         sls_client_hello_peek_count = cnt\<rparr>)"

text \<open>A slot: the fields the dispatch reads.  The three totals and the two accumulators are
  indices into the listener's lists; the limiter handles are the registry keys.\<close>

record SniRuleSlot =
  slot_rule_id :: nat
  slot_target :: Target
  slot_target_port :: u16
  slot_proxy_protocol :: "ProxyProtocolVersion option"
  slot_prefer_ipv6 :: bool
  slot_listen_port :: u16
  slot_exact_total :: nat
  slot_wildcard_total :: nat
  slot_fallback_total :: nat
  slot_rate_limit :: "nat option"
  slot_rate_limit_stats :: "nat option"
  slot_owner_rate_limit :: "string option"
  slot_owner_rate_limit_stats :: "nat option"

record SniDispatchState =
  ds_table :: SniRoutingTable
  ds_slots :: "nat \<rightharpoonup> SniRuleSlot"

record sni_shared =
  sn_counters :: SniListenerCounters
  sn_permits :: nat
  sn_totals :: "nat list"
  sn_accs :: "RateLimitStatsAccumulator list"
  sn_store :: rl_store

text \<open>What becomes of a connection; a proxied one carries the bytes to replay and its guards.\<close>

datatype sni_outcome =
    SniCapacityRefused
  | SniPeeking
  | SniPeekFailed PeekError
  | SniNoRoute
  | SniNoLocalAddr
  | SniRateRejected
  | SniProxied SniRuleSlot string "nat option" "nat option"

definition bump_miss :: "sni_shared \<Rightarrow> sni_shared" where
  "bump_miss w = w\<lparr>sn_counters := (sn_counters w)\<lparr>sc_miss := wrap64 (sc_miss (sn_counters w) + 1)\<rparr>\<rparr>"

definition bump_total :: "sni_shared \<Rightarrow> nat \<Rightarrow> sni_shared" where
  "bump_total w i = w\<lparr>sn_totals := (sn_totals w)[i := wrap64 (sn_totals w ! i + 1)]\<rparr>"

fun slot_total :: "SniRuleSlot \<Rightarrow> SniMatchKind \<Rightarrow> nat" where
  "slot_total slot SniExact = slot_exact_total slot"
| "slot_total slot SniWildcard = slot_wildcard_total slot"
| "slot_total slot SniFallback = slot_fallback_total slot"

definition note_reject :: "sni_shared \<Rightarrow> nat option \<Rightarrow> RejectReason \<Rightarrow> sni_shared" where
  "note_reject w acc reason =
     (case acc of None \<Rightarrow> w | Some i \<Rightarrow> w\<lparr>sn_accs := (sn_accs w)[i := record_reject (sn_accs w ! i) reason]\<rparr>)"

text \<open>The accept arm of the loop: a permit for the peek, or a refusal.\<close>

definition accept_conn :: "sni_shared \<Rightarrow> sni_shared \<times> sni_outcome" where
  "accept_conn w =
     (if sn_permits w = 0
      then (w\<lparr>sn_counters := (sn_counters w)
              \<lparr>sc_peek_capacity_rejections := wrap64 (sc_peek_capacity_rejections (sn_counters w) + 1)\<rparr>\<rparr>,
            SniCapacityRefused)
      else (w\<lparr>sn_permits := sn_permits w - 1\<rparr>, SniPeeking))"

text \<open>The end of the peek: the permit is released on success and on every early return.\<close>

definition observe_peek :: "sni_shared \<Rightarrow> nat \<Rightarrow> sni_shared" where
  "observe_peek w elapsed =
     w\<lparr>sn_permits := sn_permits w + 1,
       sn_counters := (sn_counters w)
         \<lparr>sc_peek_histogram := ph_observe (sc_peek_histogram (sn_counters w)) elapsed\<rparr>\<rparr>"

definition peek_failed :: "sni_shared \<Rightarrow> sni_shared" where
  "peek_failed w =
     w\<lparr>sn_counters := (sn_counters w)\<lparr>sc_parse_failures := wrap64 (sc_parse_failures (sn_counters w) + 1)\<rparr>\<rparr>"

text \<open>Admission and hand-over, once the rule is known.\<close>

definition admit_routed ::
  "SniRuleSlot \<Rightarrow> string \<Rightarrow> bool \<Rightarrow> nat \<Rightarrow> sni_shared \<Rightarrow> sni_shared \<times> sni_outcome" where
  "admit_routed slot preread local_addr_ok now w =
     (if slot_proxy_protocol slot \<noteq> None \<and> \<not> local_addr_ok then (w, SniNoLocalAddr)
      else
        (case try_acquire_layered (sn_store w) (slot_owner_rate_limit slot) (slot_rate_limit slot) False now of
           (st, LayerGranted owner_guard rule_guard) \<Rightarrow>
             (w\<lparr>sn_store := st\<rparr>, SniProxied slot preread owner_guard rule_guard)
         | (st, OwnerRejected reason) \<Rightarrow>
             (note_reject (w\<lparr>sn_store := st\<rparr>) (slot_owner_rate_limit_stats slot) reason, SniRateRejected)
         | (st, RuleRejected reason) \<Rightarrow>
             (note_reject (w\<lparr>sn_store := st\<rparr>) (slot_rate_limit_stats slot) reason, SniRateRejected)))"

definition route_conn ::
  "SniDispatchState \<Rightarrow> string \<Rightarrow> string option \<Rightarrow> bool \<Rightarrow> nat \<Rightarrow> sni_shared \<Rightarrow> sni_shared \<times> sni_outcome" where
  "route_conn ds preread sni local_addr_ok now w =
     (case sni_lookup (ds_table ds) sni of
        SniMiss \<Rightarrow> (bump_miss w, SniNoRoute)
      | SniHit rid kind \<Rightarrow>
          (case ds_slots ds rid of
             None \<Rightarrow> (bump_miss w, SniNoRoute)
           | Some slot \<Rightarrow> admit_routed slot preread local_addr_ok now (bump_total w (slot_total slot kind))))"

definition handle_accept ::
  "SniDispatchState \<Rightarrow> (PeekError, string \<times> string option) result \<Rightarrow> nat \<Rightarrow> bool \<Rightarrow> nat \<Rightarrow> sni_shared
   \<Rightarrow> sni_shared \<times> sni_outcome" where
  "handle_accept ds peeked elapsed local_addr_ok now w =
     (case peeked of
        Inl e \<Rightarrow> (peek_failed (observe_peek w elapsed), SniPeekFailed e)
      | Inr (preread, sni) \<Rightarrow> route_conn ds preread sni local_addr_ok now (observe_peek w elapsed))"

section \<open>The listener as a transition system\<close>

text \<open>Each connection in its peek holds the dispatch state published when it was accepted.
  \<open>snw_accepted\<close> counts the accepted connections.\<close>

record sni_world =
  snw_shared :: sni_shared
  snw_published :: SniDispatchState
  snw_inflight :: "SniDispatchState list"
  snw_accepted :: nat

definition slots_ok :: "SniDispatchState \<Rightarrow> nat \<Rightarrow> bool" where
  "slots_ok ds n \<longleftrightarrow> (\<forall>rid slot kind. ds_slots ds rid = Some slot \<longrightarrow> slot_total slot kind < n)"

definition sni_init :: "nat \<Rightarrow> rl_store \<Rightarrow> RateLimitStatsAccumulator list \<Rightarrow> sni_world" where
  "sni_init max_inflight_peeks st accs =
     \<lparr>snw_shared = \<lparr>sn_counters = sc_default, sn_permits = max_inflight_peeks, sn_totals = [], sn_accs = accs,
        sn_store = st\<rparr>,
      snw_published = \<lparr>ds_table = srt_empty, ds_slots = Map.empty\<rparr>, snw_inflight = [], snw_accepted = 0\<rparr>"

inductive sni_step :: "sni_world \<Rightarrow> sni_world \<Rightarrow> bool" where
  refuse:
    "accept_conn (snw_shared w) = (sh, SniCapacityRefused) \<Longrightarrow>
     sni_step w (w\<lparr>snw_shared := sh, snw_accepted := snw_accepted w + 1\<rparr>)"
| spawn:
    "accept_conn (snw_shared w) = (sh, SniPeeking) \<Longrightarrow>
     sni_step w (w\<lparr>snw_shared := sh, snw_accepted := snw_accepted w + 1,
       snw_inflight := snw_inflight w @ [snw_published w]\<rparr>)"
| finish:
    "i < length (snw_inflight w) \<Longrightarrow>
     handle_accept (snw_inflight w ! i) peeked elapsed local_addr_ok now (snw_shared w) = (sh, outcome) \<Longrightarrow>
     sni_step w (w\<lparr>snw_shared := sh,
       snw_inflight := take i (snw_inflight w) @ drop (Suc i) (snw_inflight w)\<rparr>)"
| publish:
    "slots_ok ds (length (sn_totals (snw_shared w)) + k) \<Longrightarrow>
     sni_step w (w\<lparr>snw_published := ds,
       snw_shared := (snw_shared w)\<lparr>sn_totals := sn_totals (snw_shared w) @ replicate k 0\<rparr>\<rparr>)"

definition counted :: "sni_shared \<Rightarrow> nat" where
  "counted sh = sc_peek_capacity_rejections (sn_counters sh) + sc_parse_failures (sn_counters sh) +
     sc_miss (sn_counters sh) + sum_list (sn_totals sh)"

definition sni_inv :: "nat \<Rightarrow> sni_world \<Rightarrow> bool" where
  "sni_inv max_inflight_peeks w \<longleftrightarrow>
     sn_permits (snw_shared w) + length (snw_inflight w) = max_inflight_peeks \<and>
     (\<forall>ds \<in> set (snw_published w # snw_inflight w). slots_ok ds (length (sn_totals (snw_shared w)))) \<and>
     wrap64 (counted (snw_shared w) + length (snw_inflight w)) = wrap64 (snw_accepted w)"

text \<open>Every handled connection is counted once, modulo the wrap, and gives its permit back.\<close>

definition counts_one :: "sni_shared \<Rightarrow> sni_shared \<Rightarrow> bool" where
  "counts_one sh sh' \<longleftrightarrow> length (sn_totals sh') = length (sn_totals sh) \<and>
     wrap64 (counted sh') = wrap64 (counted sh + 1)"

lemma wrap64_one: "wrap64 (a + wrap64 (b + 1) + c) = wrap64 (a + b + c + 1)"
proof -
  have "(a + (b + 1) mod m + c) mod m = (a + b + c + 1) mod m" for m :: nat
    by (metis (no_types, opaque_lifting) add.assoc add.commute mod_add_left_eq)
  then show ?thesis unfolding wrap64_def .
qed

lemma bump_miss_counts: "counts_one sh (bump_miss sh) \<and> sn_permits (bump_miss sh) = sn_permits sh"
  using wrap64_one [of "sc_peek_capacity_rejections (sn_counters sh) + sc_parse_failures (sn_counters sh)"
      "sc_miss (sn_counters sh)" "sum_list (sn_totals sh)"]
  by (simp add: counts_one_def counted_def bump_miss_def)

lemma sum_list_bump:
  assumes "i < length xs"
  shows "wrap64 (a + sum_list (xs[i := wrap64 (xs ! i + 1)])) = wrap64 (a + sum_list xs + 1)"
proof -
  have x: "xs = take i xs @ xs ! i # drop (Suc i) xs" using assms by (rule id_take_nth_drop)
  have "sum_list (xs[i := v]) = sum_list (take i xs) + v + sum_list (drop (Suc i) xs)" for v
    using assms by (simp add: upd_conv_take_nth_drop)
  moreover have "sum_list xs = sum_list (take i xs) + xs ! i + sum_list (drop (Suc i) xs)"
    by (subst x) simp
  ultimately show ?thesis
    using wrap64_one [of "a + sum_list (take i xs)" "xs ! i" "sum_list (drop (Suc i) xs)"] by (simp add: add_ac)
qed

lemma bump_total_counts:
  "i < length (sn_totals sh) \<Longrightarrow>
   counts_one sh (bump_total sh i) \<and> sn_permits (bump_total sh i) = sn_permits sh"
  using sum_list_bump [of i "sn_totals sh" "sc_peek_capacity_rejections (sn_counters sh) +
      sc_parse_failures (sn_counters sh) + sc_miss (sn_counters sh)"]
  by (simp add: counts_one_def counted_def bump_total_def)

lemma note_reject_keeps [simp]:
  "sn_counters (note_reject sh a r) = sn_counters sh" "sn_totals (note_reject sh a r) = sn_totals sh"
  "sn_permits (note_reject sh a r) = sn_permits sh"
  by (simp_all add: note_reject_def split: option.split)

lemma admit_routed_keeps:
  "admit_routed slot preread la now sh = (sh', out) \<Longrightarrow>
   sn_counters sh' = sn_counters sh \<and> sn_totals sh' = sn_totals sh \<and> sn_permits sh' = sn_permits sh"
  by (auto simp: admit_routed_def split: if_splits prod.splits LayeredAcquire.splits)

lemma route_conn_counts:
  assumes "slots_ok ds (length (sn_totals sh))" and "route_conn ds preread sni la now sh = (sh', out)"
  shows "counts_one sh sh' \<and> sn_permits sh' = sn_permits sh"
proof (cases "sni_lookup (ds_table ds) sni")
  case SniMiss
  then show ?thesis using assms(2) bump_miss_counts by (auto simp: route_conn_def)
next
  case (SniHit rid kind)
  show ?thesis
  proof (cases "ds_slots ds rid")
    case None
    then show ?thesis using assms(2) SniHit bump_miss_counts by (auto simp: route_conn_def)
  next
    case (Some slot)
    then have "slot_total slot kind < length (sn_totals sh)" using assms(1) by (simp add: slots_ok_def)
    then have "counts_one sh (bump_total sh (slot_total slot kind)) \<and>
        sn_permits (bump_total sh (slot_total slot kind)) = sn_permits sh"
      by (rule bump_total_counts)
    moreover have "admit_routed slot preread la now (bump_total sh (slot_total slot kind)) = (sh', out)"
      using assms(2) SniHit Some by (simp add: route_conn_def)
    ultimately show ?thesis
      using admit_routed_keeps by (fastforce simp: counts_one_def counted_def)
  qed
qed

lemma observe_peek_keeps [simp]:
  "counted (observe_peek sh e) = counted sh" "sn_totals (observe_peek sh e) = sn_totals sh"
  "sn_permits (observe_peek sh e) = sn_permits sh + 1"
  by (simp_all add: observe_peek_def counted_def)

lemma handle_accept_counts:
  assumes "slots_ok ds (length (sn_totals sh))" and "handle_accept ds peeked elapsed la now sh = (sh', out)"
  shows "counts_one sh sh' \<and> sn_permits sh' = sn_permits sh + 1"
proof (cases peeked)
  case (Inl e)
  then have sh': "sh' = peek_failed (observe_peek sh elapsed)" using assms(2) by (simp add: handle_accept_def)
  have "counts_one (observe_peek sh elapsed) sh' \<and> sn_permits sh' = sn_permits sh + 1"
    using wrap64_one [of "sc_peek_capacity_rejections (sn_counters sh)" "sc_parse_failures (sn_counters sh)"
        "sc_miss (sn_counters sh) + sum_list (sn_totals sh)"]
    by (simp add: sh' counts_one_def counted_def peek_failed_def observe_peek_def add_ac)
  then show ?thesis by (simp add: counts_one_def)
next
  case (Inr ps)
  then show ?thesis
    using assms route_conn_counts [of ds "observe_peek sh elapsed"]
    by (cases ps) (auto simp: handle_accept_def counts_one_def)
qed

lemma sni_inv_init: "sni_inv m (sni_init m st accs)"
  by (simp add: sni_inv_def sni_init_def counted_def sc_default_def slots_ok_def)

lemma slots_ok_mono: "slots_ok ds n \<Longrightarrow> n \<le> m \<Longrightarrow> slots_ok ds m"
  unfolding slots_ok_def by (meson less_le_trans)

lemma wrap64_add: "wrap64 a = wrap64 b \<Longrightarrow> wrap64 (a + c) = wrap64 (b + c)"
  unfolding wrap64_def by (metis mod_add_left_eq)

lemma sni_inv_step:
  assumes "sni_step w w'" and inv: "sni_inv m w"
  shows "sni_inv m w'"
  using assms(1)
proof (cases rule: sni_step.cases)
  case (refuse sh)
  then have sh: "sh = (snw_shared w)\<lparr>sn_counters := (sn_counters (snw_shared w))
      \<lparr>sc_peek_capacity_rejections := wrap64 (sc_peek_capacity_rejections (sn_counters (snw_shared w)) + 1)\<rparr>\<rparr>"
    by (auto simp: accept_conn_def split: if_splits)
  have "wrap64 (counted sh + length (snw_inflight w)) =
      wrap64 (counted (snw_shared w) + length (snw_inflight w) + 1)"
    using wrap64_one [of 0 "sc_peek_capacity_rejections (sn_counters (snw_shared w))"
        "sc_parse_failures (sn_counters (snw_shared w)) + sc_miss (sn_counters (snw_shared w)) +
          sum_list (sn_totals (snw_shared w)) + length (snw_inflight w)"]
    by (simp add: sh counted_def add_ac)
  also have "\<dots> = wrap64 (snw_accepted w + 1)"
    using inv by (intro wrap64_add) (simp add: sni_inv_def)
  finally show ?thesis
    using refuse(1) inv by (simp add: sni_inv_def sh)
next
  case (spawn sh)
  then have sh: "sh = (snw_shared w)\<lparr>sn_permits := sn_permits (snw_shared w) - 1\<rparr>"
    "sn_permits (snw_shared w) \<noteq> 0"
    by (auto simp: accept_conn_def split: if_splits)
  have "wrap64 (counted (snw_shared w) + length (snw_inflight w) + 1) = wrap64 (snw_accepted w + 1)"
    using inv by (intro wrap64_add) (simp add: sni_inv_def)
  then show ?thesis
    using spawn(1) inv sh by (simp add: sni_inv_def counted_def)
next
  case (finish i peeked elapsed la now sh out)
  let ?fl = "snw_inflight w"
  have ok: "slots_ok (?fl ! i) (length (sn_totals (snw_shared w)))"
    using inv finish(2) nth_mem by (fastforce simp: sni_inv_def)
  note c = handle_accept_counts [OF ok finish(3)]
  have sub: "set (take i ?fl @ drop (Suc i) ?fl) \<subseteq> set ?fl"
    using set_take_subset set_drop_subset by (metis Un_least set_append)
  have len: "length (take i ?fl @ drop (Suc i) ?fl) + 1 = length ?fl" using finish(2) by simp
  let ?l = "length (take i ?fl @ drop (Suc i) ?fl)"
  have "wrap64 (counted sh + ?l) = wrap64 (counted (snw_shared w) + 1 + ?l)"
    using c by (intro wrap64_add) (simp add: counts_one_def)
  also have "counted (snw_shared w) + 1 + ?l = counted (snw_shared w) + length ?fl" using len by simp
  also have "wrap64 \<dots> = wrap64 (snw_accepted w)" using inv by (simp add: sni_inv_def)
  finally have acc: "wrap64 (counted sh + ?l) = wrap64 (snw_accepted w)" .
  have "\<forall>ds \<in> set (snw_published w # take i ?fl @ drop (Suc i) ?fl). slots_ok ds (length (sn_totals sh))"
    using inv c sub by (auto simp: sni_inv_def counts_one_def)
  moreover have "sn_permits sh + ?l = m" using inv c len by (simp add: sni_inv_def)
  ultimately show ?thesis
    using acc by (simp add: finish(1) sni_inv_def)
next
  case (publish ds k)
  then show ?thesis
    using inv by (auto simp: sni_inv_def counted_def sum_list_replicate intro: slots_ok_mono)
qed

lemma sni_inv_reachable: "sni_step\<^sup>*\<^sup>* w w' \<Longrightarrow> sni_inv m w \<Longrightarrow> sni_inv m w'"
  by (induction rule: rtranclp_induct) (auto intro: sni_inv_step)

section \<open>One connection, end to end\<close>

lemma enc_hello_bound: "hello_wf h \<Longrightarrow> length (enc_hello minor h) \<le> PEEK_BYTE_CAP"
  by (simp add: hello_wf_def enc_hello_def PEEK_BYTE_CAP_def MAX_HANDSHAKE_BODY_def)

lemma peek_well_formed:
  assumes "hello_wf h" and "list_all (timely (start + PEEK_TIMEOUT)) stream"
    and "stream_bytes stream = enc_hello minor h @ payload"
    and "read_client_hello start stream = (peeked, stream')"
  shows "\<exists>b. peeked = Inr (b, sni_of h) \<and> b @ stream_bytes stream' = stream_bytes stream"
proof -
  let ?cap = PEEK_BYTE_CAP
  have "peek_verdict ?cap (stream_bytes stream) = Inr (sni_of h)"
    using parse_hello_encoded [OF assms(1), of minor "take (?cap - length (enc_hello minor h)) payload"]
      enc_hello_bound [OF assms(1), of minor] assms(3) by simp
  moreover have run: "peek_loop (start + PEEK_TIMEOUT) ?cap [] stream = (peeked, stream')"
    using assms(4) by (simp add: read_client_hello_def read_client_hello_with_def)
  ultimately have v: "map_sum id snd peeked = Inr (sni_of h)"
    using peek_loop_verdict [OF assms(2), of "[]" ?cap] by (simp del: peek_verdict.simps)
  then obtain b where b: "peeked = Inr (b, sni_of h)" by (cases peeked) auto
  then show ?thesis
    using peek_loop_captures [of "start + PEEK_TIMEOUT" ?cap "[]" stream b "sni_of h" stream'] run by simp
qed

lemma admit_routed_outcome:
  "snd (admit_routed slot preread True now w) = SniRateRejected \<or>
   (\<exists>og rg. snd (admit_routed slot preread True now w) = SniProxied slot preread og rg)"
  by (auto simp: admit_routed_def split: prod.splits LayeredAcquire.splits)

lemma route_conn_outcome:
  assumes "from_members ms = Inr (ds_table ds)"
  shows "case snd (route_conn ds preread sni True now w) of
      SniProxied slot preread' og rg \<Rightarrow> preread' = preread \<and>
        (\<exists>rid kind. ds_slots ds rid = Some slot \<and> candidate ms sni kind rid \<and>
           (\<forall>kind' rid'. candidate ms sni kind' rid' \<longrightarrow> kind_rank kind \<le> kind_rank kind'))
    | SniNoRoute \<Rightarrow> (\<exists>rid kind. candidate ms sni kind rid \<and> ds_slots ds rid = None) \<or>
        (\<forall>kind rid. \<not> candidate ms sni kind rid)
    | SniRateRejected \<Rightarrow> True
    | _ \<Rightarrow> False"
proof -
  note c = lookup_candidate [OF from_members_holds [OF assms], of sni]
  show ?thesis
  proof (cases "sni_lookup (ds_table ds) sni")
    case SniMiss
    then show ?thesis using c by (simp add: route_conn_def)
  next
    case (SniHit rid kind)
    show ?thesis
    proof (cases "ds_slots ds rid")
      case None
      then show ?thesis using SniHit c by (auto simp: route_conn_def)
    next
      case (Some slot)
      then show ?thesis
        using SniHit c admit_routed_outcome [of slot preread now "bump_total w (slot_total slot kind)"]
        by (fastforce simp: route_conn_def)
    qed
  qed
qed

section \<open>Properties\<close>

text \<open>C10 (sni_connections_accounted): however accepts, peeks and reconfigurations interleave, at
  most \<open>max_inflight_peeks\<close> connections are in their peek, and every accepted connection is
  counted exactly once (modulo the 64-bit wrap): as refused, as a failed peek, as a routing
  miss, or under the rule and match kind it was routed to.\<close>

theorem sni_connections_accounted:
  assumes "sni_step\<^sup>*\<^sup>* (sni_init max_inflight_peeks st accs) w"
  shows "length (snw_inflight w) \<le> max_inflight_peeks \<and>
    sn_permits (snw_shared w) = max_inflight_peeks - length (snw_inflight w) \<and>
    wrap64 (counted (snw_shared w) + length (snw_inflight w)) = wrap64 (snw_accepted w)"
  using sni_inv_reachable [OF assms sni_inv_init] by (auto simp: sni_inv_def)

theorem sni_connections_accounted_witness:
  "\<exists>w. sni_step (sni_init 0 store_empty []) w \<and> snw_accepted w = 1 \<and>
     wrap64 (counted (snw_shared w) + length (snw_inflight w)) = wrap64 (snw_accepted w)"
proof -
  obtain sh where "accept_conn (snw_shared (sni_init 0 store_empty [])) = (sh, SniCapacityRefused)"
    by (simp add: accept_conn_def sni_init_def)
  from sni_step.refuse [OF this] obtain w where
    w: "sni_step (sni_init 0 store_empty []) w" "snw_accepted w = 1"
    by (auto simp: sni_init_def)
  from sni_connections_accounted [OF r_into_rtranclp, OF w(1)] w show ?thesis by blast
qed

end
