(* ===== verification/Udp_Flows.thy ===== *)
theory Udp_Flows
  imports Quota Failover Rust_Net "HOL-Library.AList"
begin

text \<open>
  UDP flows (crates/portunus-forwarder/src/forwarder/udp): the per-flow state (flow.rs), the
  classification of socket errors (error.rs), the per-rule registry with its reservations
  (registry.rs), the idle reaper (reaper.rs) and the per-listener flow table (table.rs).

  Flows are shared through \<open>Arc\<close>s: they live in a list and every holder has an index.  The
  concurrent maps are association lists, whose order stands for the unspecified iteration
  order.  Registry calls interleave at the granularity of map accesses and atomics.
\<close>

section \<open>Flows (flow.rs)\<close>

record UdpFlow =
  fl_source_addr :: SocketAddr
  fl_upstream_addrs :: "SocketAddr list"
  fl_current_addr_idx :: nat
  fl_last_seen_nanos :: nat
  fl_bytes_in :: nat
  fl_bytes_out :: nat
  fl_datagrams_in :: nat
  fl_datagrams_out :: nat
  fl_cancelled :: bool
  fl_target_idx :: "nat option"

definition now_nanos :: "nat \<Rightarrow> nat \<Rightarrow> nat" where
  "now_nanos baseline now = try_u64 (now - baseline)"

definition instant_from_nanos :: "nat \<Rightarrow> nat \<Rightarrow> nat" where
  "instant_from_nanos baseline nanos = baseline + nanos"

text \<open>\<^const>\<open>None\<close> is the panic on an empty candidate list; \<open>nanos\<close> is \<open>now_nanos()\<close>.\<close>

definition flow_new :: "SocketAddr \<Rightarrow> SocketAddr list \<Rightarrow> nat \<Rightarrow> UdpFlow option" where
  "flow_new source_addr upstream_addrs nanos =
     (if upstream_addrs = [] then None
      else Some \<lparr>fl_source_addr = source_addr, fl_upstream_addrs = upstream_addrs, fl_current_addr_idx = 0,
        fl_last_seen_nanos = nanos, fl_bytes_in = 0, fl_bytes_out = 0, fl_datagrams_in = 0,
        fl_datagrams_out = 0, fl_cancelled = False, fl_target_idx = None\<rparr>)"

definition flow_new_multi_target :: "SocketAddr \<Rightarrow> SocketAddr list \<Rightarrow> nat \<Rightarrow> nat \<Rightarrow> UdpFlow option" where
  "flow_new_multi_target source_addr upstream_addrs target_idx nanos =
     (if upstream_addrs = [] then None
      else Some \<lparr>fl_source_addr = source_addr, fl_upstream_addrs = upstream_addrs, fl_current_addr_idx = 0,
        fl_last_seen_nanos = nanos, fl_bytes_in = 0, fl_bytes_out = 0, fl_datagrams_in = 0,
        fl_datagrams_out = 0, fl_cancelled = False, fl_target_idx = Some target_idx\<rparr>)"

definition quota_allows :: "QuotaHandle option \<Rightarrow> bool" where
  "quota_allows quota = (case quota of None \<Rightarrow> True | Some q \<Rightarrow> \<not> qh_exhausted q)"

definition i64_of_u64 :: "nat \<Rightarrow> int" where
  "i64_of_u64 n = (if int n \<le> i64_max then int n else i64_max)"

definition quota_try_consume :: "QuotaHandle option \<Rightarrow> nat \<Rightarrow> QuotaHandle option \<times> bool" where
  "quota_try_consume quota n =
     (case quota of
        None \<Rightarrow> (None, True)
      | Some q \<Rightarrow> (let (q', r) = consume q (i64_of_u64 n) in (Some q', r = QGranted)))"

definition quota_consume_after_send :: "QuotaHandle option \<Rightarrow> nat \<Rightarrow> QuotaHandle option \<times> bool" where
  "quota_consume_after_send quota n =
     (case quota of
        None \<Rightarrow> (None, True)
      | Some q \<Rightarrow> (let (q', r) = consume q (i64_of_u64 n) in (Some q', r = QGranted)))"

definition quota_restore :: "QuotaHandle option \<Rightarrow> nat \<Rightarrow> QuotaHandle option" where
  "quota_restore quota n = (case quota of None \<Rightarrow> None | Some q \<Rightarrow> Some (restore q (i64_of_u64 n)))"

definition current_upstream :: "UdpFlow \<Rightarrow> SocketAddr" where
  "current_upstream f = fl_upstream_addrs f ! min (fl_current_addr_idx f) (length (fl_upstream_addrs f) - 1)"

definition advance_upstream :: "UdpFlow \<Rightarrow> UdpFlow \<times> SocketAddr option" where
  "advance_upstream f =
     (let nxt = fl_current_addr_idx f + 1 in
      if nxt \<ge> length (fl_upstream_addrs f)
      then (f\<lparr>fl_current_addr_idx := length (fl_upstream_addrs f) - 1\<rparr>, None)
      else (f\<lparr>fl_current_addr_idx := nxt\<rparr>, Some (fl_upstream_addrs f ! nxt)))"

definition credit_target ::
  "(HealthState \<Rightarrow> nat \<Rightarrow> HealthState) \<Rightarrow> UdpFlow \<Rightarrow> nat \<Rightarrow> HealthState list \<Rightarrow> HealthState list" where
  "credit_target add f n states =
     (case fl_target_idx f of
        None \<Rightarrow> states
      | Some idx \<Rightarrow> if idx < length states then states[idx := add (states ! idx) n] else states)"

definition bump_inbound :: "UdpFlow \<Rightarrow> nat \<Rightarrow> nat \<Rightarrow> HealthState list \<Rightarrow> UdpFlow \<times> HealthState list" where
  "bump_inbound f n nanos states =
     (f\<lparr>fl_bytes_in := wrap64 (fl_bytes_in f + n), fl_datagrams_in := wrap64 (fl_datagrams_in f + 1),
        fl_last_seen_nanos := nanos\<rparr>, credit_target add_bytes_in f n states)"

definition bump_outbound :: "UdpFlow \<Rightarrow> nat \<Rightarrow> nat \<Rightarrow> HealthState list \<Rightarrow> UdpFlow \<times> HealthState list" where
  "bump_outbound f n nanos states =
     (f\<lparr>fl_bytes_out := wrap64 (fl_bytes_out f + n), fl_datagrams_out := wrap64 (fl_datagrams_out f + 1),
        fl_last_seen_nanos := nanos\<rparr>, credit_target add_bytes_out f n states)"

definition last_seen_at :: "nat \<Rightarrow> UdpFlow \<Rightarrow> nat" where
  "last_seen_at baseline f = instant_from_nanos baseline (fl_last_seen_nanos f)"

definition cancel_flow :: "UdpFlow list \<Rightarrow> nat \<Rightarrow> UdpFlow list" where
  "cancel_flow flows f = flows[f := (flows ! f)\<lparr>fl_cancelled := True\<rparr>]"

section \<open>Socket errors (error.rs)\<close>

datatype UdpAction = ActWouldBlock | ActMessageTooLarge | ActEvict | ActTransient

datatype io_kind =
    KWouldBlock | KConnectionRefused | KConnectionAborted | KConnectionReset
  | KHostUnreachable | KNetworkUnreachable | KInterrupted | KOther

datatype os_errno = EMSGSIZE | EHOSTUNREACH | ENETUNREACH | ECONNREFUSED | OtherErrno int

definition classify_udp_error :: "io_kind \<Rightarrow> os_errno option \<Rightarrow> UdpAction" where
  "classify_udp_error kind raw =
     (case kind of
        KWouldBlock \<Rightarrow> ActWouldBlock
      | KConnectionRefused \<Rightarrow> ActEvict
      | KConnectionAborted \<Rightarrow> ActEvict
      | KConnectionReset \<Rightarrow> ActEvict
      | KHostUnreachable \<Rightarrow> ActEvict
      | KNetworkUnreachable \<Rightarrow> ActEvict
      | KInterrupted \<Rightarrow> ActTransient
      | KOther \<Rightarrow>
          (case raw of
             None \<Rightarrow> ActTransient
           | Some errno \<Rightarrow>
               if errno = EMSGSIZE then ActMessageTooLarge
               else if errno = EHOSTUNREACH \<or> errno = ENETUNREACH \<or> errno = ECONNREFUSED then ActEvict
               else ActTransient))"

section \<open>The registry (registry.rs)\<close>

record FlowKey =
  fk_listen_port :: u16
  fk_src :: SocketAddr

datatype Slot = SlotPending | SlotLive nat

record UdpFlowRegistry =
  ur_inner :: "(FlowKey \<times> Slot) list"
  ur_cap :: nat
  ur_dropped_overflow :: nat
  ur_occupancy :: nat

datatype TryGetOrReserve = TgExisting nat | TgReserved | TgCapExhausted | TgPending

definition ur_new :: "nat \<Rightarrow> UdpFlowRegistry" where
  "ur_new cap = \<lparr>ur_inner = [], ur_cap = cap, ur_dropped_overflow = 0, ur_occupancy = 0\<rparr>"

definition occ_add :: "UdpFlowRegistry \<Rightarrow> UdpFlowRegistry" where
  "occ_add r = r\<lparr>ur_occupancy := wrap64 (ur_occupancy r + 1)\<rparr>"

definition occ_sub :: "UdpFlowRegistry \<Rightarrow> UdpFlowRegistry" where
  "occ_sub r = r\<lparr>ur_occupancy := wrap_sub64 (ur_occupancy r) 1\<rparr>"

definition ur_put :: "UdpFlowRegistry \<Rightarrow> FlowKey \<Rightarrow> Slot \<Rightarrow> UdpFlowRegistry" where
  "ur_put r key slot = r\<lparr>ur_inner := AList.update key slot (ur_inner r)\<rparr>"

definition ur_delete :: "UdpFlowRegistry \<Rightarrow> FlowKey \<Rightarrow> UdpFlowRegistry" where
  "ur_delete r key = r\<lparr>ur_inner := AList.delete key (ur_inner r)\<rparr>"

definition ur_get :: "UdpFlowRegistry \<Rightarrow> FlowKey \<Rightarrow> nat option" where
  "ur_get r key = (case map_of (ur_inner r) key of Some (SlotLive f) \<Rightarrow> Some f | _ \<Rightarrow> None)"

definition try_get_or_reserve :: "UdpFlowRegistry \<Rightarrow> FlowKey \<Rightarrow> UdpFlowRegistry \<times> TryGetOrReserve" where
  "try_get_or_reserve r key =
     (case map_of (ur_inner r) key of
        Some (SlotLive f) \<Rightarrow> (r, TgExisting f)
      | Some SlotPending \<Rightarrow> (r, TgPending)
      | None \<Rightarrow>
          (let new_occ = ur_occupancy r + 1; r1 = occ_add r in
           if new_occ > ur_cap r
           then ((occ_sub r1)\<lparr>ur_dropped_overflow := wrap64 (ur_dropped_overflow r + 1)\<rparr>, TgCapExhausted)
           else (ur_put r1 key SlotPending, TgReserved)))"

definition ur_commit :: "UdpFlowRegistry \<Rightarrow> FlowKey \<Rightarrow> nat \<Rightarrow> UdpFlowRegistry" where
  "ur_commit r key f =
     (case map_of (ur_inner r) key of
        Some _ \<Rightarrow> ur_put r key (SlotLive f)
      | None \<Rightarrow> occ_add (ur_put r key (SlotLive f)))"

definition ur_remove :: "UdpFlowRegistry \<Rightarrow> FlowKey \<Rightarrow> UdpFlowRegistry \<times> nat option" where
  "ur_remove r key =
     (case map_of (ur_inner r) key of
        Some (SlotLive f) \<Rightarrow> (occ_sub (ur_delete r key), Some f)
      | Some SlotPending \<Rightarrow> (occ_sub (ur_delete r key), None)
      | None \<Rightarrow> (r, None))"

definition reservation_drop :: "UdpFlowRegistry \<Rightarrow> FlowKey \<Rightarrow> UdpFlowRegistry" where
  "reservation_drop r key =
     (case map_of (ur_inner r) key of
        Some SlotPending \<Rightarrow> occ_sub (ur_delete r key)
      | _ \<Rightarrow> r)"

fun drain_keys :: "FlowKey list \<Rightarrow> UdpFlowRegistry \<Rightarrow> UdpFlow list \<Rightarrow> UdpFlowRegistry \<times> UdpFlow list" where
  "drain_keys [] r flows = (r, flows)"
| "drain_keys (k # ks) r flows =
     (case map_of (ur_inner r) k of
        None \<Rightarrow> drain_keys ks r flows
      | Some (SlotLive f) \<Rightarrow> drain_keys ks (occ_sub (ur_delete r k)) (cancel_flow flows f)
      | Some SlotPending \<Rightarrow> drain_keys ks (occ_sub (ur_delete r k)) flows)"

definition ur_drain :: "UdpFlowRegistry \<Rightarrow> UdpFlow list \<Rightarrow> UdpFlowRegistry \<times> UdpFlow list" where
  "ur_drain r flows = drain_keys (map fst (ur_inner r)) r flows"

definition snapshot_live :: "UdpFlowRegistry \<Rightarrow> (FlowKey \<times> nat) list" where
  "snapshot_live r =
     List.map_filter (\<lambda>(k, s). case s of SlotLive f \<Rightarrow> Some (k, f) | SlotPending \<Rightarrow> None) (ur_inner r)"

section \<open>The reaper (reaper.rs)\<close>

text \<open>The loop of \<open>sweep_once\<close> over a snapshot.\<close>

fun sweep_entries ::
  "nat \<Rightarrow> nat \<Rightarrow> nat \<Rightarrow> (FlowKey \<times> nat) list \<Rightarrow> UdpFlowRegistry \<Rightarrow> UdpFlow list
   \<Rightarrow> UdpFlowRegistry \<times> UdpFlow list" where
  "sweep_entries baseline now idle_window [] r flows = (r, flows)"
| "sweep_entries baseline now idle_window ((key, f) # snap) r flows =
     (if now - last_seen_at baseline (flows ! f) > idle_window
      then (case ur_remove r key of
              (r', Some _) \<Rightarrow> sweep_entries baseline now idle_window snap r' (cancel_flow flows f)
            | (r', None) \<Rightarrow> sweep_entries baseline now idle_window snap r' flows)
      else sweep_entries baseline now idle_window snap r flows)"

definition sweep_once ::
  "nat \<Rightarrow> nat \<Rightarrow> nat \<Rightarrow> UdpFlowRegistry \<Rightarrow> UdpFlow list \<Rightarrow> UdpFlowRegistry \<times> UdpFlow list" where
  "sweep_once baseline now idle_window r flows =
     sweep_entries baseline now idle_window (snapshot_live r) r flows"

text \<open>The sweep period: a quarter of the window, at least 25 ms; no reaper for a zero window.\<close>

definition reaper_period :: "nat \<Rightarrow> nat option" where
  "reaper_period idle_window =
     (if idle_window = 0 then None else Some (max (idle_window div 4) 25000000))"

section \<open>The flow table (table.rs)\<close>

record UdpFlowTable =
  ft_inner :: "(SocketAddr \<times> nat) list"
  ft_cap :: nat
  ft_dropped_overflow :: nat

definition ft_new :: "nat \<Rightarrow> UdpFlowTable" where
  "ft_new cap = \<lparr>ft_inner = [], ft_cap = max cap 1, ft_dropped_overflow = 0\<rparr>"

text \<open>\<open>build\<close> is the index of the flow the closure makes; \<^const>\<open>Inl\<close> carries the refused source.\<close>

definition lookup_or_insert ::
  "UdpFlowTable \<Rightarrow> SocketAddr \<Rightarrow> nat \<Rightarrow> UdpFlowTable \<times> (SocketAddr + nat)" where
  "lookup_or_insert t source build =
     (case map_of (ft_inner t) source of
        Some f \<Rightarrow> (t, Inr f)
      | None \<Rightarrow>
          if length (ft_inner t) \<ge> ft_cap t
          then (t\<lparr>ft_dropped_overflow := wrap64 (ft_dropped_overflow t + 1)\<rparr>, Inl source)
          else (t\<lparr>ft_inner := AList.update source build (ft_inner t)\<rparr>, Inr build))"

definition ft_get :: "UdpFlowTable \<Rightarrow> SocketAddr \<Rightarrow> nat option" where
  "ft_get t source = map_of (ft_inner t) source"

definition ft_evict :: "UdpFlowTable \<Rightarrow> UdpFlow list \<Rightarrow> SocketAddr \<Rightarrow> UdpFlowTable \<times> UdpFlow list \<times> bool" where
  "ft_evict t flows source =
     (case map_of (ft_inner t) source of
        Some f \<Rightarrow> (t\<lparr>ft_inner := AList.delete source (ft_inner t)\<rparr>, cancel_flow flows f, True)
      | None \<Rightarrow> (t, flows, False))"

definition ft_drain :: "UdpFlowTable \<Rightarrow> UdpFlow list \<Rightarrow> UdpFlowTable \<times> UdpFlow list" where
  "ft_drain t flows = (t\<lparr>ft_inner := []\<rparr>, foldl (\<lambda>fs (_, f). cancel_flow fs f) flows (ft_inner t))"

definition ft_stale :: "nat \<Rightarrow> nat \<Rightarrow> nat \<Rightarrow> UdpFlow list \<Rightarrow> (SocketAddr \<times> nat) list \<Rightarrow> SocketAddr list" where
  "ft_stale baseline now idle_window flows snap =
     map fst (filter (\<lambda>(a, f). now - last_seen_at baseline (flows ! f) \<ge> idle_window) snap)"

fun ft_remove_stale :: "SocketAddr list \<Rightarrow> UdpFlowTable \<Rightarrow> UdpFlow list \<Rightarrow> UdpFlowTable \<times> UdpFlow list \<times> nat" where
  "ft_remove_stale [] t flows = (t, flows, 0)"
| "ft_remove_stale (a # stale) t flows =
     (case ft_evict t flows a of
        (t', flows', hit) \<Rightarrow>
          (case ft_remove_stale stale t' flows' of
             (t'', flows'', n) \<Rightarrow> (t'', flows'', (if hit then n + 1 else n))))"

text \<open>One sweep without interference between its two locked sections.\<close>

definition ft_sweep ::
  "nat \<Rightarrow> nat \<Rightarrow> nat \<Rightarrow> UdpFlowTable \<Rightarrow> UdpFlow list \<Rightarrow> UdpFlowTable \<times> UdpFlow list \<times> nat" where
  "ft_sweep baseline now idle_window t flows =
     ft_remove_stale (ft_stale baseline now idle_window flows (ft_inner t)) t flows"

section \<open>Concurrent registry calls\<close>

text \<open>The program counter of a task between its accesses to the registry.  With \<open>strict\<close>, a
  removal only hits live slots; without it, it may also remove the pending slot another task
  has reserved in the meantime.\<close>

datatype ur_pc =
    UIdle | UMissed FlowKey | UOver | UClaimed FlowKey | URollback | UReserved FlowKey | UCommitAdd | URelease

record ur_world =
  uw_reg :: UdpFlowRegistry
  uw_pcs :: "ur_pc list"

abbreviation at_pc :: "ur_world \<Rightarrow> nat \<Rightarrow> ur_pc \<Rightarrow> bool" where
  "at_pc w i pc \<equiv> i < length (uw_pcs w) \<and> uw_pcs w ! i = pc"

abbreviation goto :: "ur_world \<Rightarrow> nat \<Rightarrow> UdpFlowRegistry \<Rightarrow> ur_pc \<Rightarrow> ur_world" where
  "goto w i r pc \<equiv> w\<lparr>uw_reg := r, uw_pcs := (uw_pcs w)[i := pc]\<rparr>"

inductive ur_step :: "bool \<Rightarrow> ur_world \<Rightarrow> ur_world \<Rightarrow> bool" for strict :: bool where
  ur_miss: "at_pc w i UIdle \<Longrightarrow> map_of (ur_inner (uw_reg w)) key = None \<Longrightarrow>
    ur_step strict w (goto w i (uw_reg w) (UMissed key))"
| ur_claim: "at_pc w i (UMissed key) \<Longrightarrow> ur_occupancy (uw_reg w) + 1 \<le> ur_cap (uw_reg w) \<Longrightarrow>
    ur_step strict w (goto w i (occ_add (uw_reg w)) (UClaimed key))"
| ur_over: "at_pc w i (UMissed key) \<Longrightarrow> ur_occupancy (uw_reg w) + 1 > ur_cap (uw_reg w) \<Longrightarrow>
    ur_step strict w (goto w i (occ_add (uw_reg w)) UOver)"
| ur_refuse: "at_pc w i UOver \<Longrightarrow>
    ur_step strict w (goto w i ((occ_sub (uw_reg w))
      \<lparr>ur_dropped_overflow := wrap64 (ur_dropped_overflow (uw_reg w) + 1)\<rparr>) UIdle)"
| ur_insert: "at_pc w i (UClaimed key) \<Longrightarrow> map_of (ur_inner (uw_reg w)) key = None \<Longrightarrow>
    ur_step strict w (goto w i (ur_put (uw_reg w) key SlotPending) (UReserved key))"
| ur_lost: "at_pc w i (UClaimed key) \<Longrightarrow> map_of (ur_inner (uw_reg w)) key \<noteq> None \<Longrightarrow>
    ur_step strict w (goto w i (uw_reg w) URollback)"
| ur_rollback: "at_pc w i URollback \<Longrightarrow> ur_step strict w (goto w i (occ_sub (uw_reg w)) UIdle)"
| ur_commit_live: "at_pc w i (UReserved key) \<Longrightarrow> map_of (ur_inner (uw_reg w)) key \<noteq> None \<Longrightarrow>
    ur_step strict w (goto w i (ur_put (uw_reg w) key (SlotLive f)) UIdle)"
| ur_commit_vacant: "at_pc w i (UReserved key) \<Longrightarrow> map_of (ur_inner (uw_reg w)) key = None \<Longrightarrow>
    ur_step strict w (goto w i (ur_put (uw_reg w) key (SlotLive f)) UCommitAdd)"
| ur_commit_add: "at_pc w i UCommitAdd \<Longrightarrow> ur_step strict w (goto w i (occ_add (uw_reg w)) UIdle)"
| ur_abandon: "at_pc w i (UReserved key) \<Longrightarrow> map_of (ur_inner (uw_reg w)) key = Some SlotPending \<Longrightarrow>
    ur_step strict w (goto w i (ur_delete (uw_reg w) key) URelease)"
| ur_abandon_gone: "at_pc w i (UReserved key) \<Longrightarrow> map_of (ur_inner (uw_reg w)) key \<noteq> Some SlotPending \<Longrightarrow>
    ur_step strict w (goto w i (uw_reg w) UIdle)"
| ur_take: "at_pc w i UIdle \<Longrightarrow> map_of (ur_inner (uw_reg w)) key = Some slot \<Longrightarrow>
    (strict \<longrightarrow> slot \<noteq> SlotPending) \<Longrightarrow>
    ur_step strict w (goto w i (ur_delete (uw_reg w) key) URelease)"
| ur_release: "at_pc w i URelease \<Longrightarrow> ur_step strict w (goto w i (occ_sub (uw_reg w)) UIdle)"

definition uw_init :: "nat \<Rightarrow> nat \<Rightarrow> ur_world" where
  "uw_init cap tasks = \<lparr>uw_reg = ur_new cap, uw_pcs = replicate tasks UIdle\<rparr>"

text \<open>What a task adds to the occupancy beyond the map, and what of it holds a claim under the cap.\<close>

fun extra :: "ur_pc \<Rightarrow> nat" where
  "extra UOver = 1" | "extra (UClaimed key) = 1" | "extra URollback = 1" | "extra URelease = 1" | "extra _ = 0"

fun claims :: "ur_pc \<Rightarrow> nat" where
  "claims (UClaimed key) = 1" | "claims URollback = 1" | "claims URelease = 1" | "claims _ = 0"

definition ur_inv :: "ur_world \<Rightarrow> bool" where
  "ur_inv w \<longleftrightarrow>
     (let r = uw_reg w; pcs = uw_pcs w in
      distinct (map fst (ur_inner r)) \<and>
      ur_cap r + length pcs \<le> u64_max \<and>
      ur_occupancy r = length (ur_inner r) + sum_list (map extra pcs) \<and>
      length (ur_inner r) + sum_list (map claims pcs) \<le> ur_cap r \<and>
      (\<forall>i < length pcs. pcs ! i \<noteq> UCommitAdd) \<and>
      (\<forall>i key. i < length pcs \<longrightarrow> pcs ! i = UReserved key \<longrightarrow> map_of (ur_inner r) key = Some SlotPending) \<and>
      (\<forall>i j key. i < length pcs \<longrightarrow> j < length pcs \<longrightarrow> pcs ! i = UReserved key \<longrightarrow> pcs ! j = UReserved key
         \<longrightarrow> i = j))"

lemma length_put:
  "distinct (map fst xs) \<Longrightarrow>
   length (AList.update k v xs) = length xs + (if map_of xs k = None then 1 else 0) \<and>
   distinct (map fst (AList.update k v xs))"
  by (induction xs) (auto simp: dom_update map_of_eq_None_iff)

lemma length_delete:
  "distinct (map fst xs) \<Longrightarrow> map_of xs k \<noteq> None \<Longrightarrow>
   length (AList.delete k xs) + 1 = length xs \<and> distinct (map fst (AList.delete k xs))"
proof (induction xs)
  case (Cons x xs)
  show ?case
  proof (cases "fst x = k")
    case True
    then have "AList.delete k xs = xs" using Cons.prems(1) by (intro delete_id) auto
    then show ?thesis using True Cons.prems(1) by (cases x) simp
  next
    case False
    then show ?thesis using Cons by (cases x) (auto simp: delete_keys)
  qed
qed simp

lemma extra_claims: "claims pc \<le> extra pc" "extra pc \<le> 1"
  by (cases pc; simp)+

lemma extra_bound: "sum_list (map extra pcs) \<le> length pcs"
proof (induction pcs)
  case (Cons pc pcs)
  then show ?case using extra_claims(2) [of pc] by simp
qed simp

text \<open>One move of task \<open>i\<close>: what has to be checked.\<close>

lemma ur_inv_goto:
  assumes inv: "ur_inv w" and at: "at_pc w i pc"
    and cap: "ur_cap r' = ur_cap (uw_reg w)" and dis: "distinct (map fst (ur_inner r'))"
    and occ: "ur_occupancy r' + length (ur_inner (uw_reg w)) + extra pc =
      ur_occupancy (uw_reg w) + length (ur_inner r') + extra pc'"
    and bound: "length (ur_inner r') + claims pc' \<le> length (ur_inner (uw_reg w)) + claims pc \<or>
      length (ur_inner r') + sum_list (map claims (uw_pcs w)) + claims pc' \<le> ur_cap r' + claims pc"
    and "pc' \<noteq> UCommitAdd"
    and others: "\<And>j key. j < length (uw_pcs w) \<Longrightarrow> j \<noteq> i \<Longrightarrow> uw_pcs w ! j = UReserved key \<Longrightarrow>
      map_of (ur_inner r') key = Some SlotPending \<and> pc' \<noteq> UReserved key"
    and mine: "\<And>key. pc' = UReserved key \<Longrightarrow> map_of (ur_inner r') key = Some SlotPending"
  shows "ur_inv (goto w i r' pc')"
proof -
  let ?r = "uw_reg w" and ?pcs = "uw_pcs w"
  have i: "i < length ?pcs" "?pcs ! i = pc" using at by simp_all
  have e: "sum_list (map extra (?pcs[i := pc'])) + extra pc = sum_list (map extra ?pcs) + extra pc'"
    using sum_list_update_nat [OF i(1), of extra pc'] i(2) by simp
  have c: "sum_list (map claims (?pcs[i := pc'])) + claims pc = sum_list (map claims ?pcs) + claims pc'"
    using sum_list_update_nat [OF i(1), of claims pc'] i(2) by simp
  have I: "ur_cap ?r + length ?pcs \<le> u64_max"
    "ur_occupancy ?r = length (ur_inner ?r) + sum_list (map extra ?pcs)"
    "length (ur_inner ?r) + sum_list (map claims ?pcs) \<le> ur_cap ?r"
    "\<forall>i < length ?pcs. ?pcs ! i \<noteq> UCommitAdd"
    "\<And>i j key. i < length ?pcs \<Longrightarrow> j < length ?pcs \<Longrightarrow> ?pcs ! i = UReserved key \<Longrightarrow> ?pcs ! j = UReserved key \<Longrightarrow> i = j"
    using inv by (auto simp: ur_inv_def Let_def)
  have "ur_occupancy r' = length (ur_inner r') + sum_list (map extra (?pcs[i := pc']))"
    using occ I(2) e by linarith
  moreover have "length (ur_inner r') + sum_list (map claims (?pcs[i := pc'])) \<le> ur_cap r'"
    using bound I(3) c cap by linarith
  moreover have "\<forall>j < length ?pcs. (?pcs[i := pc']) ! j \<noteq> UCommitAdd"
    using I(4) assms(7) i(1) by (simp add: nth_list_update)
  moreover have "\<forall>j key. j < length ?pcs \<longrightarrow> (?pcs[i := pc']) ! j = UReserved key \<longrightarrow>
      map_of (ur_inner r') key = Some SlotPending"
    using others mine by (metis nth_list_update_eq nth_list_update_neq)
  moreover have "\<forall>j k key. j < length ?pcs \<longrightarrow> k < length ?pcs \<longrightarrow> (?pcs[i := pc']) ! j = UReserved key \<longrightarrow>
      (?pcs[i := pc']) ! k = UReserved key \<longrightarrow> j = k"
    using others I(5) by (metis nth_list_update_eq nth_list_update_neq)
  ultimately show ?thesis
    using dis I(1) cap by (simp add: ur_inv_def Let_def)
qed

lemma occ_sub_occ: "0 < ur_occupancy r \<Longrightarrow> ur_occupancy r \<le> u64_max \<Longrightarrow> ur_occupancy (occ_sub r) + 1 = ur_occupancy r"
  using wrap_sub64_id [of 1 "ur_occupancy r"] by (simp add: occ_sub_def)

lemma occ_add_occ: "ur_occupancy r < u64_max \<Longrightarrow> ur_occupancy (occ_add r) = ur_occupancy r + 1"
  by (simp add: occ_add_def)

lemma occ_simps [simp]:
  "ur_inner (occ_add r) = ur_inner r" "ur_inner (occ_sub r) = ur_inner r"
  "ur_cap (occ_add r) = ur_cap r" "ur_cap (occ_sub r) = ur_cap r"
  "ur_inner (ur_put r k s) = AList.update k s (ur_inner r)" "ur_inner (ur_delete r k) = AList.delete k (ur_inner r)"
  "ur_cap (ur_put r k s) = ur_cap r" "ur_cap (ur_delete r k) = ur_cap r"
  "ur_occupancy (ur_put r k s) = ur_occupancy r" "ur_occupancy (ur_delete r k) = ur_occupancy r"
  by (simp_all add: occ_add_def occ_sub_def ur_put_def ur_delete_def)

lemma ur_inv_facts:
  assumes "ur_inv w"
  shows "distinct (map fst (ur_inner (uw_reg w)))"
    "j < length (uw_pcs w) \<Longrightarrow> uw_pcs w ! j = UReserved key \<Longrightarrow> map_of (ur_inner (uw_reg w)) key = Some SlotPending"
    "j < length (uw_pcs w) \<Longrightarrow> uw_pcs w ! j \<noteq> UCommitAdd"
    "i < length (uw_pcs w) \<Longrightarrow> j < length (uw_pcs w) \<Longrightarrow> uw_pcs w ! i = UReserved key \<Longrightarrow>
       uw_pcs w ! j = UReserved key \<Longrightarrow> i = j"
    "ur_occupancy (uw_reg w) = length (ur_inner (uw_reg w)) + sum_list (map extra (uw_pcs w))"
    "length (ur_inner (uw_reg w)) + sum_list (map claims (uw_pcs w)) \<le> ur_cap (uw_reg w)"
    "ur_cap (uw_reg w) + length (uw_pcs w) \<le> u64_max"
  using assms unfolding ur_inv_def Let_def by blast+

lemma ur_occ_bound:
  assumes "ur_inv w" and "at_pc w i pc"
  shows "ur_occupancy (uw_reg w) \<le> u64_max" "extra pc = 0 \<Longrightarrow> ur_occupancy (uw_reg w) < u64_max"
    "extra pc \<le> ur_occupancy (uw_reg w)"
proof -
  note f = ur_inv_facts [OF assms(1)]
  let ?pcs = "uw_pcs w"
  show "ur_occupancy (uw_reg w) \<le> u64_max"
    using f(5,6,7) extra_bound [of ?pcs] by linarith
  have "extra pc \<le> sum_list (map extra ?pcs)"
    using assms(2) member_le_sum_list [of "extra pc" "map extra ?pcs"] by (force simp: in_set_conv_nth)
  then show "extra pc \<le> ur_occupancy (uw_reg w)" using f(5) by linarith
  show "ur_occupancy (uw_reg w) < u64_max" if "extra pc = 0"
  proof -
    have "sum_list (map extra (?pcs[i := UOver])) = sum_list (map extra ?pcs) + 1"
      using sum_list_update_nat [of i ?pcs extra UOver] assms(2) that by simp
    then have "sum_list (map extra ?pcs) < length ?pcs"
      using extra_bound [of "?pcs[i := UOver]"] by simp
    then show ?thesis using f(5,6,7) by linarith
  qed
qed

text \<open>The atomics and the map accesses of a move, in a state that satisfies the invariant.\<close>

lemma occ_add_at:
  "ur_inv w \<Longrightarrow> at_pc w i pc \<Longrightarrow> extra pc = 0 \<Longrightarrow>
   ur_occupancy (occ_add (uw_reg w)) = ur_occupancy (uw_reg w) + 1"
  using ur_occ_bound(2) by (intro occ_add_occ) blast

lemma occ_sub_at:
  "ur_inv w \<Longrightarrow> at_pc w i pc \<Longrightarrow> extra pc = 1 \<Longrightarrow>
   ur_occupancy (occ_sub (uw_reg w)) + 1 = ur_occupancy (uw_reg w)"
  using ur_occ_bound(1,3) [of w i pc] by (intro occ_sub_occ) simp_all

lemma put_at:
  "ur_inv w \<Longrightarrow> length (AList.update k v (ur_inner (uw_reg w))) =
     length (ur_inner (uw_reg w)) + (if map_of (ur_inner (uw_reg w)) k = None then 1 else 0) \<and>
   distinct (map fst (AList.update k v (ur_inner (uw_reg w))))"
  by (rule length_put) (rule ur_inv_facts(1))

lemma delete_at:
  "ur_inv w \<Longrightarrow> map_of (ur_inner (uw_reg w)) k = Some slot \<Longrightarrow>
   length (AList.delete k (ur_inner (uw_reg w))) + 1 = length (ur_inner (uw_reg w)) \<and>
   distinct (map fst (AList.delete k (ur_inner (uw_reg w))))"
  using length_delete [OF ur_inv_facts(1), of w k] by simp

lemma claim_fits:
  assumes "ur_inv w" and "ur_occupancy (uw_reg w) + 1 \<le> ur_cap (uw_reg w)"
  shows "length (ur_inner (uw_reg w)) + sum_list (map claims (uw_pcs w)) + 1 \<le> ur_cap (uw_reg w)"
proof -
  have "sum_list (map claims (uw_pcs w)) \<le> sum_list (map extra (uw_pcs w))"
    by (rule sum_list_mono) (rule extra_claims)
  then show ?thesis using ur_inv_facts(5) [OF assms(1)] assms(2) by linarith
qed

lemma ur_inv_step:
  assumes "ur_step True w w'" and inv: "ur_inv w"
  shows "ur_inv w'"
proof -
  note f = ur_inv_facts [OF inv] and move = ur_inv_goto [OF inv]
  from assms(1) show ?thesis
  proof (cases rule: ur_step.cases)
    case (ur_miss i key)
    show ?thesis unfolding ur_miss(1) by (rule move [OF ur_miss(2)]) (use f in auto)
  next
    case (ur_claim i key)
    show ?thesis unfolding ur_claim(1)
      by (rule move [OF ur_claim(2)]) (use f occ_add_at [OF inv ur_claim(2)] claim_fits [OF inv ur_claim(3)] in auto)
  next
    case (ur_over i key)
    show ?thesis unfolding ur_over(1)
      by (rule move [OF ur_over(2)]) (use f occ_add_at [OF inv ur_over(2)] in auto)
  next
    case (ur_refuse i)
    show ?thesis unfolding ur_refuse(1)
      by (rule move [OF ur_refuse(2)]) (use f occ_sub_at [OF inv ur_refuse(2)] in auto)
  next
    case (ur_insert i key)
    show ?thesis unfolding ur_insert(1)
      by (rule move [OF ur_insert(2)]) (use f(2) put_at [OF inv, of key] ur_insert(3) in \<open>auto simp: update_conv'\<close>)
  next
    case (ur_lost i key)
    show ?thesis unfolding ur_lost(1) by (rule move [OF ur_lost(2)]) (use f in auto)
  next
    case (ur_rollback i)
    show ?thesis unfolding ur_rollback(1)
      by (rule move [OF ur_rollback(2)]) (use f occ_sub_at [OF inv ur_rollback(2)] in auto)
  next
    case (ur_commit_live i key fl)
    show ?thesis unfolding ur_commit_live(1)
      by (rule move [OF ur_commit_live(2)])
        (use f(2,4) put_at [OF inv, of key] ur_commit_live(2,3) in \<open>auto simp: update_conv'\<close>)
  next
    case (ur_abandon i key)
    show ?thesis unfolding ur_abandon(1)
      by (rule move [OF ur_abandon(2)])
        (use f(2,4) delete_at [OF inv ur_abandon(3)] ur_abandon(2) in \<open>auto simp: delete_conv'\<close>)
  next
    case (ur_take i key slot)
    show ?thesis unfolding ur_take(1)
      by (rule move [OF ur_take(2)])
        (use f(2) delete_at [OF inv ur_take(3)] ur_take(3,4) in \<open>auto simp: delete_conv'\<close>)
  next
    case (ur_release i)
    show ?thesis unfolding ur_release(1)
      by (rule move [OF ur_release(2)]) (use f occ_sub_at [OF inv ur_release(2)] in auto)
  qed (use f(2,3) in auto)
qed

lemma ur_inv_reachable: "(ur_step True)\<^sup>*\<^sup>* w w' \<Longrightarrow> ur_inv w \<Longrightarrow> ur_inv w'"
  by (induction rule: rtranclp_induct) (auto intro: ur_inv_step)

lemma ur_inv_init: "cap + tasks \<le> u64_max \<Longrightarrow> ur_inv (uw_init cap tasks)"
  by (simp add: ur_inv_def uw_init_def ur_new_def Let_def sum_list_replicate)

section \<open>The reaper\<close>

definition idle :: "nat \<Rightarrow> nat \<Rightarrow> nat \<Rightarrow> UdpFlow list \<Rightarrow> nat \<Rightarrow> bool" where
  "idle baseline now idle_window flows f \<longleftrightarrow> now - last_seen_at baseline (flows ! f) > idle_window"

lemma cancel_flow_nth:
  "f < length flows \<Longrightarrow> cancel_flow flows f ! g =
     (if g = f then (flows ! f)\<lparr>fl_cancelled := True\<rparr> else flows ! g)"
  by (simp add: cancel_flow_def)

lemma cancel_flow_length [simp]: "length (cancel_flow flows f) = length flows"
  by (simp add: cancel_flow_def)

lemma idle_cancel:
  "idle baseline now idle_window (cancel_flow flows f) g = idle baseline now idle_window flows g"
  by (cases "f < length flows")
    (auto simp: idle_def last_seen_at_def cancel_flow_def nth_list_update list_update_beyond)

definition sized :: "UdpFlowRegistry \<Rightarrow> bool" where
  "sized r \<longleftrightarrow> distinct (map fst (ur_inner r)) \<and> ur_occupancy r = length (ur_inner r) \<and>
     ur_occupancy r \<le> u64_max"

lemma sized_remove:
  assumes "sized r" and "map_of (ur_inner r) k = Some slot"
  shows "sized (occ_sub (ur_delete r k))"
proof -
  have l: "length (AList.delete k (ur_inner r)) + 1 = length (ur_inner r) \<and>
      distinct (map fst (AList.delete k (ur_inner r)))"
    using length_delete [of "ur_inner r" k] assms by (simp add: sized_def)
  have "ur_inner r \<noteq> []" using assms(2) by auto
  then have "ur_occupancy (occ_sub (ur_delete r k)) + 1 = ur_occupancy r"
    using occ_sub_occ [of "ur_delete r k"] assms(1) by (simp add: sized_def)
  then show ?thesis using l assms(1) by (simp add: sized_def)
qed

lemma sweep_entries_exact:
  assumes "distinct (map fst snap)" and "sized r"
    and "\<forall>(k, f) \<in> set snap. map_of (ur_inner r) k = Some (SlotLive f) \<and> f < length flows"
    and "sweep_entries baseline now idle_window snap r flows = (r', flows')"
  shows "sized r' \<and>
    (\<forall>k. map_of (ur_inner r') k =
       (if \<exists>f. (k, f) \<in> set snap \<and> idle baseline now idle_window flows f then None else map_of (ur_inner r) k)) \<and>
    (\<forall>g. fl_cancelled (flows' ! g) = (fl_cancelled (flows ! g) \<or>
       idle baseline now idle_window flows g \<and> (\<exists>k. (k, g) \<in> set snap)))"
  using assms
proof (induction snap arbitrary: r flows)
  case Nil
  then show ?case by simp
next
  case (Cons e snap)
  obtain k f where e: "e = (k, f)" by fastforce
  have kf: "map_of (ur_inner r) k = Some (SlotLive f)" "f < length flows" using Cons.prems(3) e by auto
  have nk: "(k, g) \<notin> set snap" for g using Cons.prems(1) e by force
  show ?case
  proof (cases "idle baseline now idle_window flows f")
    case False
    then have "sweep_entries baseline now idle_window snap r flows = (r', flows')"
      using Cons.prems(4) e by (simp add: idle_def)
    then show ?thesis
      using Cons.IH [of r flows] Cons.prems(1-3) e False by auto
  next
    case True
    let ?r = "occ_sub (ur_delete r k)" and ?fl = "cancel_flow flows f"
    have run: "sweep_entries baseline now idle_window snap ?r ?fl = (r', flows')"
      using Cons.prems(4) e True kf(1) by (simp add: idle_def ur_remove_def)
    have live: "\<forall>(k', f') \<in> set snap. map_of (ur_inner ?r) k' = Some (SlotLive f') \<and> f' < length ?fl"
      using Cons.prems(3) nk by (auto simp: delete_conv')
    have d: "distinct (map fst snap)" using Cons.prems(1) by simp
    note IH = Cons.IH [OF d sized_remove [OF Cons.prems(2) kf(1)] live run, unfolded idle_cancel]
    have m: "map_of (ur_inner r') j =
        (if \<exists>g. (j, g) \<in> set (e # snap) \<and> idle baseline now idle_window flows g then None
         else map_of (ur_inner r) j)" for j
      using IH True e nk by (cases "j = k") (auto simp: delete_conv')
    have c: "fl_cancelled (flows' ! g) = (fl_cancelled (flows ! g) \<or>
        idle baseline now idle_window flows g \<and> (\<exists>k. (k, g) \<in> set (e # snap)))" for g
      using IH True e by (auto simp: cancel_flow_nth [OF kf(2)])
    show ?thesis using IH m c by simp
  qed
qed

lemma snapshot_live_set:
  assumes "distinct (map fst (ur_inner r))"
  shows "(k, f) \<in> set (snapshot_live r) \<longleftrightarrow> map_of (ur_inner r) k = Some (SlotLive f)"
proof -
  have "(k, f) \<in> set (snapshot_live r) \<longleftrightarrow> (k, SlotLive f) \<in> set (ur_inner r)"
    by (force simp: snapshot_live_def List.map_filter_def split: Slot.splits)
  then show ?thesis using assms by simp
qed

lemma snapshot_live_keys:
  assumes "distinct (map fst (ur_inner r))"
  shows "distinct (map fst (snapshot_live r))"
proof -
  have "map fst (List.map_filter (\<lambda>(k, s). case s of SlotLive f \<Rightarrow> Some (k, f) | SlotPending \<Rightarrow> None) xs) =
      map fst (filter (\<lambda>(k, s). s \<noteq> SlotPending) xs)" for xs :: "(FlowKey \<times> Slot) list"
    by (induction xs) (auto simp: List.map_filter_simps split: Slot.splits)
  then show ?thesis using assms by (simp add: snapshot_live_def distinct_map_filter)
qed

section \<open>The flow table and the candidate walk\<close>

lemma table_cap:
  assumes "length (ft_inner t) \<le> ft_cap t" and "distinct (map fst (ft_inner t))"
  shows "length (ft_inner (fst (lookup_or_insert t source build))) \<le> ft_cap t \<and>
    distinct (map fst (ft_inner (fst (lookup_or_insert t source build))))"
  using assms length_put [of "ft_inner t" source build]
  by (auto simp: lookup_or_insert_def split: option.split)

text \<open>A full table still serves its flows, and only turns away new sources.\<close>

lemma table_full:
  assumes "length (ft_inner t) \<ge> ft_cap t"
  shows "snd (lookup_or_insert t source build) =
    (case ft_get t source of Some f \<Rightarrow> Inr f | None \<Rightarrow> Inl source)"
  using assms by (simp add: lookup_or_insert_def ft_get_def split: option.split)

text \<open>The walk over the candidate addresses visits each once and then stays on the last.\<close>

lemma advance_walk:
  assumes "fl_current_addr_idx f < length (fl_upstream_addrs f)"
  shows "fl_current_addr_idx (fst (advance_upstream f)) < length (fl_upstream_addrs f) \<and>
    (snd (advance_upstream f) = None \<longleftrightarrow> fl_current_addr_idx f + 1 = length (fl_upstream_addrs f)) \<and>
    (\<forall>a. snd (advance_upstream f) = Some a \<longrightarrow> current_upstream (fst (advance_upstream f)) = a)"
  using assms by (auto simp: advance_upstream_def current_upstream_def Let_def min_def)

section \<open>Properties\<close>

text \<open>C36 (registry_cap_holds): however any number of tasks interleave their lookups, claims,
  reservations, commits and removals of live flows, the registry never holds more slots than
  its cap, and whenever no call is under way the occupancy counter equals the number of
  slots.\<close>

theorem registry_cap_holds:
  assumes "(ur_step True)\<^sup>*\<^sup>* (uw_init cap tasks) w" and "cap + tasks \<le> u64_max"
  shows "length (ur_inner (uw_reg w)) \<le> cap \<and>
    ((\<forall>i < length (uw_pcs w). uw_pcs w ! i = UIdle) \<longrightarrow>
       ur_occupancy (uw_reg w) = length (ur_inner (uw_reg w)))"
proof -
  have inv: "ur_inv w" using ur_inv_reachable [OF assms(1) ur_inv_init [OF assms(2)]] .
  have cap: "ur_cap (uw_reg w) = cap"
    using assms(1) by (induction rule: rtranclp_induct) (auto simp: uw_init_def ur_new_def elim!: ur_step.cases)
  have "sum_list (map extra (uw_pcs w)) = 0" if "\<forall>i < length (uw_pcs w). uw_pcs w ! i = UIdle"
    using that by (auto simp: sum_list_eq_0_iff in_set_conv_nth)
  then show ?thesis using ur_inv_facts(5,6) [OF inv] cap by auto
qed

lemma one_reservation:
  assumes "map_of (ur_inner r) key = None" and "ur_occupancy r + 1 \<le> ur_cap r"
    and "i < length pcs" and "pcs ! i = UIdle"
  shows "(ur_step strict)\<^sup>*\<^sup>* \<lparr>uw_reg = r, uw_pcs = pcs\<rparr>
    \<lparr>uw_reg = ur_put (occ_add r) key SlotPending, uw_pcs = pcs[i := UReserved key]\<rparr>"
proof -
  let ?w = "\<lambda>r pc. \<lparr>uw_reg = r, uw_pcs = pcs[i := pc]\<rparr>"
  have "pcs = pcs[i := UIdle]" using assms(3,4) by (metis list_update_id)
  then have "\<lparr>uw_reg = r, uw_pcs = pcs\<rparr> = ?w r UIdle" by simp
  moreover have "ur_step strict (?w r UIdle) (?w r (UMissed key))"
    using ur_step.ur_miss [of i "?w r UIdle" key strict] assms(1,3) by simp
  moreover have "ur_step strict (?w r (UMissed key)) (?w (occ_add r) (UClaimed key))"
    using ur_step.ur_claim [of i "?w r (UMissed key)" key strict] assms(2,3) by simp
  moreover have "ur_step strict (?w (occ_add r) (UClaimed key)) (?w (ur_put (occ_add r) key SlotPending) (UReserved key))"
    using ur_step.ur_insert [of i "?w (occ_add r) (UClaimed key)" key strict] assms(1,3) by simp
  ultimately show ?thesis
    by (metis (no_types, lifting) converse_rtranclp_into_rtranclp rtranclp.rtrancl_refl)
qed

definition key_a :: FlowKey where
  "key_a = \<lparr>fk_listen_port = 53, fk_src = SockV4 (Ipv4 10 0 0 1) 1000\<rparr>"

definition key_b :: FlowKey where
  "key_b = \<lparr>fk_listen_port = 53, fk_src = SockV4 (Ipv4 10 0 0 2) 1000\<rparr>"

theorem registry_cap_holds_witness:
  "length (ur_inner (ur_put (occ_add (ur_new 1)) key_a SlotPending)) \<le> 1"
proof -
  have i: "uw_init 1 1 = \<lparr>uw_reg = ur_new 1, uw_pcs = [UIdle]\<rparr>" by (simp add: uw_init_def)
  have "(ur_step True)\<^sup>*\<^sup>* (uw_init 1 1)
      \<lparr>uw_reg = ur_put (occ_add (ur_new 1)) key_a SlotPending, uw_pcs = [UIdle][0 := UReserved key_a]\<rparr>"
    unfolding i by (rule one_reservation) (simp_all add: ur_new_def)
  from registry_cap_holds [OF this] show ?thesis by (simp add: u64_max_def)
qed

text \<open>When a removal hits the pending slot of a reservation in
  flight (a reaper or an eviction working on a key it saw live earlier), the commit inserts
  the flow all the same, and a registry of cap one ends up with two slots.\<close>

lemma registry_cap_can_be_overshot:
  "\<exists>w. (ur_step False)\<^sup>*\<^sup>* (uw_init 1 3) w \<and> length (ur_inner (uw_reg w)) = 2 \<and> ur_cap (uw_reg w) = 1"
proof -
  let ?w = "\<lambda>r a b c. \<lparr>uw_reg = r, uw_pcs = [a, b, c]\<rparr>"
  let ?r0 = "ur_new 1"
  let ?r1 = "ur_put (occ_add ?r0) key_a SlotPending"
  let ?r2 = "occ_sub (ur_delete ?r1 key_a)"
  let ?r3 = "ur_put (occ_add ?r2) key_b SlotPending"
  have i: "uw_init 1 3 = ?w ?r0 UIdle UIdle UIdle" by (simp add: uw_init_def numeral_3_eq_3)
  have ab: "key_a \<noteq> key_b" by (simp add: key_a_def key_b_def)
  have z: "wrap_sub64 (wrap64 (Suc 0)) (Suc 0) = 0" by (simp add: wrap64_def wrap_sub64_def u64_max_def)
  have "(ur_step False)\<^sup>*\<^sup>* (?w ?r0 UIdle UIdle UIdle) (?w ?r1 (UReserved key_a) UIdle UIdle)"
    using one_reservation [of ?r0 key_a 0 "[UIdle, UIdle, UIdle]" False] by (simp add: ur_new_def)
  moreover have "ur_step False (?w ?r1 (UReserved key_a) UIdle UIdle) (?w (ur_delete ?r1 key_a) (UReserved key_a) UIdle URelease)"
    using ur_step.ur_take [of 2 "?w ?r1 (UReserved key_a) UIdle UIdle" key_a SlotPending False] by (simp add: update_conv')
  moreover have "ur_step False (?w (ur_delete ?r1 key_a) (UReserved key_a) UIdle URelease) (?w ?r2 (UReserved key_a) UIdle UIdle)"
    using ur_step.ur_release [of 2 "?w (ur_delete ?r1 key_a) (UReserved key_a) UIdle URelease" False] by simp
  moreover have "(ur_step False)\<^sup>*\<^sup>* (?w ?r2 (UReserved key_a) UIdle UIdle) (?w ?r3 (UReserved key_a) (UReserved key_b) UIdle)"
    using one_reservation [of ?r2 key_b 1 "[UReserved key_a, UIdle, UIdle]" False] ab
    by (simp add: ur_new_def occ_add_def occ_sub_def ur_put_def ur_delete_def z)
  moreover have "ur_step False (?w ?r3 (UReserved key_a) (UReserved key_b) UIdle)
      (?w (ur_put ?r3 key_a (SlotLive 0)) UCommitAdd (UReserved key_b) UIdle)"
    using ur_step.ur_commit_vacant [of 0 "?w ?r3 (UReserved key_a) (UReserved key_b) UIdle" key_a False 0] ab
    by (simp add: ur_new_def occ_add_def occ_sub_def ur_put_def ur_delete_def)
  ultimately have "(ur_step False)\<^sup>*\<^sup>* (?w ?r0 UIdle UIdle UIdle)
      (?w (ur_put ?r3 key_a (SlotLive 0)) UCommitAdd (UReserved key_b) UIdle)"
    by (meson rtranclp.rtrancl_into_rtrancl rtranclp_trans)
  moreover have "length (ur_inner (ur_put ?r3 key_a (SlotLive 0))) = 2 \<and> ur_cap (ur_put ?r3 key_a (SlotLive 0)) = 1"
    using ab by (simp add: ur_new_def)
  ultimately show ?thesis unfolding i by (intro exI conjI) auto
qed

text \<open>An undisturbed sweep of the reaper removes exactly the live flows
  that have been silent for longer than the window, cancels exactly those, and keeps the
  occupancy equal to the number of slots; reservations are untouched.\<close>

lemma reaper_sweep_exact:
  assumes "sized r" and "\<forall>k f. map_of (ur_inner r) k = Some (SlotLive f) \<longrightarrow> f < length flows"
    and "sweep_once baseline now idle_window r flows = (r', flows')"
  shows "sized r' \<and>
    (\<forall>k. map_of (ur_inner r') k = (case map_of (ur_inner r) k of
         Some (SlotLive f) \<Rightarrow> if idle baseline now idle_window flows f then None else Some (SlotLive f)
       | slot \<Rightarrow> slot)) \<and>
    (\<forall>f. fl_cancelled (flows' ! f) = (fl_cancelled (flows ! f) \<or>
       idle baseline now idle_window flows f \<and> (\<exists>k. map_of (ur_inner r) k = Some (SlotLive f))))"
proof -
  have d: "distinct (map fst (ur_inner r))" using assms(1) by (simp add: sized_def)
  note s = snapshot_live_set [OF d]
  have "\<forall>(k, f) \<in> set (snapshot_live r). map_of (ur_inner r) k = Some (SlotLive f) \<and> f < length flows"
    using assms(2) s by auto
  note ex = sweep_entries_exact [OF snapshot_live_keys [OF d] assms(1) this assms(3) [unfolded sweep_once_def]]
  have "map_of (ur_inner r') k = (case map_of (ur_inner r) k of
         Some (SlotLive f) \<Rightarrow> if idle baseline now idle_window flows f then None else Some (SlotLive f)
       | slot \<Rightarrow> slot)" for k
    using ex s by (auto split: option.split Slot.split)
  then show ?thesis using ex s by auto
qed

definition sample_flow :: UdpFlow where
  "sample_flow = \<lparr>fl_source_addr = SockV4 (Ipv4 10 0 0 1) 1000, fl_upstream_addrs = [SockV4 (Ipv4 10 0 0 9) 53], fl_current_addr_idx = 0,
     fl_last_seen_nanos = 0, fl_bytes_in = 0, fl_bytes_out = 0, fl_datagrams_in = 0, fl_datagrams_out = 0,
     fl_cancelled = False, fl_target_idx = None\<rparr>"

definition one_flow :: UdpFlowRegistry where
  "one_flow = \<lparr>ur_inner = [(key_a, SlotLive 0)], ur_cap = 4, ur_dropped_overflow = 0, ur_occupancy = 1\<rparr>"

text \<open>When a flow was replaced by a fresh one under the same key
  after the reaper took its snapshot, the sweep removes the fresh flow from the registry but
  cancels the old one: the fresh flow is left running and unregistered.\<close>

lemma reaper_orphans_fresh_flow:
  assumes "map_of (ur_inner r) key = Some (SlotLive fresh)" and "distinct (map fst (ur_inner r))"
    and "old \<noteq> fresh" and "old < length flows" and "idle baseline now idle_window flows old"
    and "sweep_entries baseline now idle_window [(key, old)] r flows = (r', flows')"
  shows "map_of (ur_inner r') key = None \<and> flows' ! fresh = flows ! fresh"
  using assms by (auto simp: idle_def ur_remove_def cancel_flow_nth delete_conv')

end
