(* ===== verification/Identity.thy ===== *)
theory Identity
  imports Host_Target "HOL-Library.AList"
begin

text \<open>
  Operator identities: the data types of crates/portunus-auth/src/lib.rs and store_types.rs, and the
  hexadecimal and constant-time helpers of crates/portunus-core/src/fingerprint.rs.  Timestamps
  are nanoseconds, as integers; ULIDs are numbers.
\<close>

section \<open>Fingerprint helpers (fingerprint.rs)\<close>

unbundle bit_operations_syntax

definition hex_table :: string where
  "hex_table = ''0123456789abcdef''"

definition fp_hex :: "u8 list \<Rightarrow> string" where
  "fp_hex bytes =
     concat (map (\<lambda>b. [hex_table ! unat (drop_bit 4 b), hex_table ! unat (b AND 15)]) bytes)"

definition is_ascii_hexdigit :: "char \<Rightarrow> bool" where
  "is_ascii_hexdigit c \<longleftrightarrow> is_ascii_digit c \<or> (97 \<le> cc c \<and> cc c \<le> 102) \<or> (65 \<le> cc c \<and> cc c \<le> 70)"

definition is_valid_sha256_hex :: "string \<Rightarrow> bool" where
  "is_valid_sha256_hex s \<longleftrightarrow> length s = 64 \<and> list_all is_ascii_hexdigit s"

definition byte_of :: "char \<Rightarrow> u8" where
  "byte_of c = word_of_nat (cc c)"

definition ct_eq :: "string \<Rightarrow> string \<Rightarrow> bool" where
  "ct_eq a b =
     (if length a \<noteq> length b then False
      else fold (\<lambda>i diff. diff OR (byte_of (a ! i) XOR byte_of (b ! i))) [0..<length a] (0 :: u8) = 0)"

section \<open>Identities (portunus-auth/lib.rs)\<close>

type_synonym timestamp = int
type_synonym ClientId = nat
type_synonym CredentialId = nat
type_synonym GrantId = nat

datatype UserId = UserId (uid_as_str: string)

definition uid_superadmin :: UserId where
  "uid_superadmin = UserId ''_superadmin''"

definition uid_reserved :: "string \<Rightarrow> UserId" where
  "uid_reserved s = UserId s"

definition uid_is_reserved :: "UserId \<Rightarrow> bool" where
  "uid_is_reserved u \<longleftrightarrow> strip_prefix ''_'' (uid_as_str u) \<noteq> None"

datatype OperatorRole = Superadmin | RoleUser

datatype RbacError =
    Unauthenticated | CredentialInvalid | UserDisabled
  | ClientNotGranted | PortOutsideGrant | ProtocolNotGranted | NotOwner | RoleRequired
  | BootstrapRequired | AlreadyBootstrapped
  | InvalidUserId | InvalidDisplayName | ReservedUserId | InvalidPortRange | EmptyProtocolSet | InvalidClient
  | UserAlreadyExists | UserNotFound | CredentialNotFound | GrantNotFound | CannotRemoveSelf | LastSuperadmin

fun rbac_code :: "RbacError \<Rightarrow> string" where
  "rbac_code Unauthenticated = ''unauthenticated''"
| "rbac_code CredentialInvalid = ''credential_invalid''"
| "rbac_code UserDisabled = ''user_disabled''"
| "rbac_code ClientNotGranted = ''client_not_granted''"
| "rbac_code PortOutsideGrant = ''port_outside_grant''"
| "rbac_code ProtocolNotGranted = ''protocol_not_granted''"
| "rbac_code NotOwner = ''not_owner''"
| "rbac_code RoleRequired = ''role_required''"
| "rbac_code BootstrapRequired = ''bootstrap_required''"
| "rbac_code AlreadyBootstrapped = ''already_bootstrapped''"
| "rbac_code InvalidUserId = ''invalid_user_id''"
| "rbac_code InvalidDisplayName = ''invalid_display_name''"
| "rbac_code ReservedUserId = ''reserved_user_id''"
| "rbac_code InvalidPortRange = ''invalid_port_range''"
| "rbac_code EmptyProtocolSet = ''empty_protocol_set''"
| "rbac_code InvalidClient = ''invalid_client''"
| "rbac_code UserAlreadyExists = ''user_already_exists''"
| "rbac_code UserNotFound = ''user_not_found''"
| "rbac_code CredentialNotFound = ''credential_not_found''"
| "rbac_code GrantNotFound = ''grant_not_found''"
| "rbac_code CannotRemoveSelf = ''cannot_remove_self''"
| "rbac_code LastSuperadmin = ''last_superadmin''"

definition uid_from_str :: "string \<Rightarrow> (RbacError, UserId) result" where
  "uid_from_str s =
     (if s = [] \<or> length s > 32 then Inl InvalidUserId
      else if hd s = CHR ''_'' then Inl ReservedUserId
      else if \<not> is_ascii_lower (hd s) then Inl InvalidUserId
      else if \<not> list_all (\<lambda>b. is_ascii_lower b \<or> is_ascii_digit b \<or> b = CHR ''-'' \<or> b = CHR ''_'') (tl s)
      then Inl InvalidUserId
      else Inr (UserId s))"

definition parse_stored_user_id :: "string \<Rightarrow> (RbacError, UserId) result" where
  "parse_stored_user_id raw =
     (if strip_prefix ''_'' raw \<noteq> None then Inr (uid_reserved raw) else uid_from_str raw)"

record User =
  u_id :: UserId
  u_display_name :: string
  u_role :: OperatorRole
  u_created_at :: timestamp
  u_disabled :: bool

datatype CredentialStatus = CredActive | CredRevoked timestamp

definition cred_is_active :: "CredentialStatus \<Rightarrow> bool" where
  "cred_is_active s \<longleftrightarrow> s = CredActive"

record Credential =
  cr_id :: CredentialId
  cr_user_id :: UserId
  cr_token_hash :: "u8 list"
  cr_label :: "string option"
  cr_created_at :: timestamp
  cr_last_used_at :: "timestamp option"
  cr_status :: CredentialStatus

datatype ClientScope = ScopeAny | ScopeNamed ClientName

definition scope_serialize :: "ClientScope \<Rightarrow> string" where
  "scope_serialize s = (case s of ScopeAny \<Rightarrow> ''*'' | ScopeNamed n \<Rightarrow> cn_as_str n)"

definition scope_deserialize :: "string \<Rightarrow> (ClientNameError, ClientScope) result" where
  "scope_deserialize s =
     (if s = ''*'' then Inr ScopeAny else rbind (client_name_new s) (\<lambda>n. Inr (ScopeNamed n)))"

text \<open>The \<open>bitflags\<close> set of protocols.\<close>

type_synonym ProtocolSet = u8

definition PS_TCP :: ProtocolSet where "PS_TCP = 1"
definition PS_UDP :: ProtocolSet where "PS_UDP = 2"

definition ps_contains :: "ProtocolSet \<Rightarrow> ProtocolSet \<Rightarrow> bool" where
  "ps_contains s p \<longleftrightarrow> s AND p = p"

definition ps_non_empty :: "ProtocolSet \<Rightarrow> (RbacError, ProtocolSet) result" where
  "ps_non_empty bits = (if bits = 0 then Inl EmptyProtocolSet else Inr bits)"

definition ps_serialize :: "ProtocolSet \<Rightarrow> string list" where
  "ps_serialize s = (if ps_contains s PS_TCP then [''tcp''] else []) @ (if ps_contains s PS_UDP then [''udp''] else [])"

fun ps_collect :: "string list \<Rightarrow> ProtocolSet \<Rightarrow> ProtocolSet option" where
  "ps_collect [] out = Some out"
| "ps_collect (p # ps) out =
     (if p = ''tcp'' then ps_collect ps (out OR PS_TCP)
      else if p = ''udp'' then ps_collect ps (out OR PS_UDP)
      else None)"

definition ps_deserialize :: "string list \<Rightarrow> ProtocolSet option" where
  "ps_deserialize raw =
     (case ps_collect raw 0 of None \<Rightarrow> None | Some out \<Rightarrow> if out = 0 then None else Some out)"

record Grant =
  g_id :: GrantId
  g_user_id :: UserId
  g_client :: ClientScope
  g_listen_port_start :: u16
  g_listen_port_end :: u16
  g_protocols :: ProtocolSet
  g_note :: "string option"
  g_created_at :: timestamp

record OperatorIdentity =
  oi_user_id :: UserId
  oi_role :: OperatorRole

text \<open>\<open>hash_hex\<close>: 32 bytes against 64 hexadecimal characters.\<close>

definition nibble :: "char \<Rightarrow> u8 option" where
  "nibble b =
     (if is_ascii_digit b then Some (byte_of b - 48)
      else if 97 \<le> cc b \<and> cc b \<le> 102 then Some (byte_of b - 97 + 10)
      else if 65 \<le> cc b \<and> cc b \<le> 70 then Some (byte_of b - 65 + 10)
      else None)"

fun unhex :: "string \<Rightarrow> u8 list option" where
  "unhex [] = Some []"
| "unhex [c] = Some []"
| "unhex (a # b # s) =
     (case (nibble a, nibble b) of
        (Some hi, Some lo) \<Rightarrow> map_option (\<lambda>r. (push_bit 4 hi OR lo) # r) (unhex s)
      | _ \<Rightarrow> None)"

definition hash_hex_deserialize :: "string \<Rightarrow> u8 list option" where
  "hash_hex_deserialize s = (if length s \<noteq> 64 then None else unhex s)"

section \<open>Store errors (store_types.rs)\<close>

datatype IdentityStoreError =
    IsIo string
  | IsInvalidJson string
  | IsUnsupportedSchemaVersion nat nat
  | IsDuplicateUserId UserId
  | IsDuplicateCredentialId CredentialId
  | IsDuplicateGrantId GrantId
  | IsOrphanCredential CredentialId UserId
  | IsOrphanGrant GrantId UserId
  | IsInvalidPortRange u16 u16
  | IsHashCollision
  | IsWriteFailed string
  | IsUserAlreadyExists UserId
  | IsUserNotFound UserId
  | IsCredentialNotFound CredentialId
  | IsGrantNotFound GrantId

fun as_rbac :: "IdentityStoreError \<Rightarrow> RbacError option" where
  "as_rbac (IsUserNotFound _) = Some UserNotFound"
| "as_rbac (IsCredentialNotFound _) = Some CredentialNotFound"
| "as_rbac (IsGrantNotFound _) = Some GrantNotFound"
| "as_rbac (IsUserAlreadyExists _) = Some UserAlreadyExists"
| "as_rbac _ = None"

record UserRemoveSummary =
  rs_removed_credential_ids :: "CredentialId list"
  rs_revoked_grant_ids :: "GrantId list"

section \<open>Facts\<close>

lemma uid_from_str_iff:
  "uid_from_str s = Inr u \<longleftrightarrow> u = UserId s \<and> s \<noteq> [] \<and> length s \<le> 32 \<and> is_ascii_lower (hd s) \<and>
     (\<forall>b \<in> set (tl s). is_ascii_lower b \<or> is_ascii_digit b \<or> b = CHR ''-'' \<or> b = CHR ''_'')"
  by (auto simp: uid_from_str_def list_all_iff is_ascii_lower_def cc_def)

text \<open>Identifiers an operator supplies never enter the reserved name space.\<close>

lemma uid_from_str_not_reserved: "uid_from_str s = Inr u \<Longrightarrow> \<not> uid_is_reserved u"
  by (cases s) (auto simp: uid_from_str_iff uid_is_reserved_def is_ascii_lower_def cc_def)

lemma parse_stored_round_trip:
  "uid_is_reserved u \<or> uid_from_str (uid_as_str u) = Inr u \<Longrightarrow> parse_stored_user_id (uid_as_str u) = Inr u"
  using uid_from_str_not_reserved
  by (cases u) (auto simp: parse_stored_user_id_def uid_reserved_def uid_is_reserved_def)

lemma rbac_code_inj: "rbac_code e = rbac_code f \<Longrightarrow> e = f"
  by (cases e; cases f; simp)

lemma or_zero_iff: "(a :: u8) OR b = 0 \<longleftrightarrow> a = 0 \<and> b = 0"
  by (auto simp: bit_eq_iff bit_simps)

lemma xor_zero_iff: "(a :: u8) XOR b = 0 \<longleftrightarrow> a = b"
  by (auto simp: bit_eq_iff bit_simps)

lemma fold_or_zero: "fold (\<lambda>i diff. diff OR f i) is (d :: u8) = 0 \<longleftrightarrow> d = 0 \<and> (\<forall>i \<in> set is. f i = 0)"
  by (induction "is" arbitrary: d) (auto simp: or_zero_iff)

lemma byte_of_inj: "byte_of a = byte_of b \<longleftrightarrow> a = b"
proof
  assume "byte_of a = byte_of b"
  then have "unat (byte_of a) = unat (byte_of b)" by simp
  then have "cc a = cc b" using cc_bound [of a] cc_bound [of b] by (simp add: byte_of_def unat_of_nat)
  then show "a = b" using cc_inj by simp
qed simp

text \<open>The constant-time comparison is equality.\<close>

lemma ct_eq_iff: "ct_eq a b \<longleftrightarrow> a = b"
proof
  assume c: "ct_eq a b"
  then have l: "length a = length b" by (simp add: ct_eq_def split: if_splits)
  then have "\<forall>i < length a. byte_of (a ! i) XOR byte_of (b ! i) = 0"
    using c by (simp add: ct_eq_def fold_or_zero)
  then have "\<forall>i < length a. a ! i = b ! i" by (simp add: xor_zero_iff byte_of_inj)
  then show "a = b" using l by (simp add: nth_equalityI)
next
  assume "a = b"
  then show "ct_eq a b" unfolding ct_eq_def fold_or_zero by simp
qed

lemma length_fp_hex: "length (fp_hex bytes) = 2 * length bytes"
  by (induction bytes) (simp_all add: fp_hex_def)

lemma nibble_hex: "n < 16 \<Longrightarrow> nibble (hex_table ! n) = Some (word_of_nat n)"
proof -
  have "\<forall>n \<in> set [0..<16]. nibble (hex_table ! n) = Some (word_of_nat n)" by code_simp
  then show "n < 16 \<Longrightarrow> ?thesis" by simp
qed

lemma nibbles_join: "push_bit 4 (drop_bit 4 b) OR (b AND 15) = (b :: u8)"
proof -
  have "b AND 15 = take_bit 4 b" by (simp add: take_bit_eq_mask mask_eq_exp_minus_1)
  then show ?thesis by (auto simp: bit_eq_iff bit_simps)
qed

lemma nibble_lt: "unat (drop_bit 4 (b :: u8)) < 16" "unat (b AND 15) < 16"
proof -
  have "unat (drop_bit 4 b) = unat b div 16" by (simp add: drop_bit_eq_div unat_div)
  then show "unat (drop_bit 4 b) < 16" using unsigned_less [of b, where 'a = nat] by simp
  have "b AND 15 = take_bit 4 b" by (simp add: take_bit_eq_mask mask_eq_exp_minus_1)
  then show "unat (b AND 15) < 16" by (simp add: take_bit_eq_mod unat_mod)
qed

lemma unhex_hex: "unhex (fp_hex bytes) = Some bytes"
  using nibble_hex nibble_lt by (induction bytes) (simp_all add: fp_hex_def nibbles_join)

text \<open>A token hash written as hexadecimal reads back as itself.\<close>

lemma hash_hex_round_trip: "length h = 32 \<Longrightarrow> hash_hex_deserialize (fp_hex h) = Some h"
  by (simp add: hash_hex_deserialize_def length_fp_hex unhex_hex)

lemma fp_hex_inj: "fp_hex a = fp_hex b \<longleftrightarrow> a = b"
  using unhex_hex by (metis option.inject)

text \<open>A scope reads back as itself, except that of a client whose display name is the wildcard.\<close>

lemma scope_round_trip:
  "scope_deserialize (scope_serialize s) =
     (case s of
        ScopeAny \<Rightarrow> Inr ScopeAny
      | ScopeNamed n \<Rightarrow> if n = ClientName ''*'' then Inr ScopeAny
          else rbind (client_name_new (cn_as_str n)) (\<lambda>n. Inr (ScopeNamed n)))"
  by (cases s) (auto simp: scope_deserialize_def scope_serialize_def intro: ClientName.expand)

lemma ps_round_trip:
  assumes "s AND 3 = s" and "s \<noteq> 0"
  shows "ps_deserialize (ps_serialize s) = Some s"
proof -
  have "\<forall>n \<in> set [0..<256]. (word_of_nat n :: u8) AND 3 = word_of_nat n \<longrightarrow> (word_of_nat n :: u8) \<noteq> 0 \<longrightarrow>
      ps_deserialize (ps_serialize (word_of_nat n)) = Some (word_of_nat n)" by code_simp
  moreover have "unat s < 256" using unsigned_less [of s, where 'a = nat] by simp
  moreover have "(word_of_nat (unat s) :: u8) = s" by simp
  ultimately show ?thesis using assms by (metis atLeastLessThan_iff le0 set_upt)
qed

end
