(* ===== verification/Login_Throttle.thy ===== *)
theory Login_Throttle
  imports Identity
begin

text \<open>
  The primitives of local authentication on the server: the failure counter with its lockout
  (crates/portunus-server/src/operator/throttle.rs), the session time limits and the cookie
  lookup (sessions.rs) and the onboarding token (setup_token.rs).  The token hash is a
  parameter.
\<close>

abbreviation seconds :: "int \<Rightarrow> timestamp" where
  "seconds n \<equiv> n * 1000000000"

section \<open>Failure counting (throttle.rs)\<close>

definition LOCK_AFTER_FAILURES :: nat where "LOCK_AFTER_FAILURES = 5"
definition FAILURE_WINDOW_SECONDS :: int where "FAILURE_WINDOW_SECONDS = 15 * 60"
definition LOCKOUT_SECONDS :: int where "LOCKOUT_SECONDS = 60"
definition MAX_LOCKOUT_SECONDS :: int where "MAX_LOCKOUT_SECONDS = 15 * 60"
definition UNKNOWN_AUTH_SUBJECT :: string where "UNKNOWN_AUTH_SUBJECT = ''_unknown''"

datatype AuthThrottleAction = Login | Onboarding | PasswordReset

fun action_as_db_str :: "AuthThrottleAction \<Rightarrow> string" where
  "action_as_db_str Login = ''login''"
| "action_as_db_str Onboarding = ''onboarding''"
| "action_as_db_str PasswordReset = ''password_reset''"

record ThrottleDecision =
  td_failures :: nat
  td_first_failed_at :: "timestamp option"
  td_last_failed_at :: "timestamp option"
  td_locked_until :: "timestamp option"

definition td_default :: ThrottleDecision where
  "td_default = \<lparr>td_failures = 0, td_first_failed_at = None, td_last_failed_at = None, td_locked_until = None\<rparr>"

definition lockout_seconds :: "nat \<Rightarrow> int" where
  "lockout_seconds failures =
     min (LOCKOUT_SECONDS * 2 ^ min (failures - LOCK_AFTER_FAILURES) 10) MAX_LOCKOUT_SECONDS"

definition td_record_failure :: "ThrottleDecision \<Rightarrow> timestamp \<Rightarrow> ThrottleDecision" where
  "td_record_failure d now =
     (let lockout_expired = (case td_locked_until d of None \<Rightarrow> False | Some l \<Rightarrow> l \<le> now);
          failure_window_expired =
            (case td_last_failed_at d of None \<Rightarrow> False | Some f \<Rightarrow> f + seconds FAILURE_WINDOW_SECONDS \<le> now);
          d = (if lockout_expired \<or> failure_window_expired then td_default else d);
          d = d\<lparr>td_failures := sat_add32 (td_failures d) 1,
                td_first_failed_at := (case td_first_failed_at d of None \<Rightarrow> Some now | Some f \<Rightarrow> Some f),
                td_last_failed_at := Some now\<rparr>
      in if td_failures d < LOCK_AFTER_FAILURES then d\<lparr>td_locked_until := None\<rparr>
         else d\<lparr>td_locked_until := Some (now + seconds (lockout_seconds (td_failures d)))\<rparr>)"

definition is_locked :: "ThrottleDecision \<Rightarrow> timestamp \<Rightarrow> bool" where
  "is_locked d now = (case td_locked_until d of None \<Rightarrow> False | Some l \<Rightarrow> l > now)"

definition effective_at :: "ThrottleDecision \<Rightarrow> timestamp \<Rightarrow> ThrottleDecision" where
  "effective_at d now = (if \<not> is_locked d now then d\<lparr>td_locked_until := None\<rparr> else d)"

section \<open>Sessions (sessions.rs)\<close>

definition SESSION_COOKIE :: string where "SESSION_COOKIE = ''portunus_session''"
definition IDLE_TIMEOUT :: timestamp where "IDLE_TIMEOUT = seconds (8 * 3600)"
definition ABSOLUTE_TIMEOUT :: timestamp where "ABSOLUTE_TIMEOUT = seconds (7 * 86400)"

definition hash_session_secret :: "(string \<Rightarrow> u8 list) \<Rightarrow> string \<Rightarrow> string" where
  "hash_session_secret hash_token secret = fp_hex (hash_token secret)"

text \<open>\<open>find_map\<close>.\<close>

fun find_map :: "('a \<Rightarrow> 'b option) \<Rightarrow> 'a list \<Rightarrow> 'b option" where
  "find_map f [] = None"
| "find_map f (x # xs) = (case f x of None \<Rightarrow> find_map f xs | Some y \<Rightarrow> Some y)"

definition cookie_value :: "string option \<Rightarrow> string \<Rightarrow> string option" where
  "cookie_value cookie_header name =
     (case cookie_header of
        None \<Rightarrow> None
      | Some cookie \<Rightarrow>
          find_map (\<lambda>part. case split_once CHR ''='' (trim part) of
              None \<Rightarrow> None
            | Some (key, v) \<Rightarrow> if key = name then Some v else None) (split_on CHR '';'' cookie))"

definition session_is_expired :: "timestamp \<Rightarrow> timestamp \<Rightarrow> timestamp \<Rightarrow> bool" where
  "session_is_expired last_seen absolute now \<longleftrightarrow> now > absolute \<or> now > last_seen + IDLE_TIMEOUT"

section \<open>The onboarding token (setup_token.rs)\<close>

definition DEFAULT_SETUP_TOKEN_TTL :: timestamp where "DEFAULT_SETUP_TOKEN_TTL = seconds (30 * 60)"

record SetupTokenRecord =
  st_hash_hex :: string
  st_expires_at :: timestamp

definition setup_token_new :: "(string \<Rightarrow> u8 list) \<Rightarrow> string \<Rightarrow> timestamp \<Rightarrow> timestamp \<Rightarrow> SetupTokenRecord" where
  "setup_token_new hash_token raw now ttl =
     \<lparr>st_hash_hex = fp_hex (hash_token raw), st_expires_at = now + ttl\<rparr>"

definition setup_token_verify :: "(string \<Rightarrow> u8 list) \<Rightarrow> SetupTokenRecord \<Rightarrow> string \<Rightarrow> timestamp \<Rightarrow> bool" where
  "setup_token_verify hash_token r raw now =
     (if now \<ge> st_expires_at r then False
      else let presented = fp_hex (hash_token raw) in
        length (st_hash_hex r) = length presented \<and> ct_eq (st_hash_hex r) presented)"

section \<open>Facts\<close>

lemma setup_token_verify_iff:
  "setup_token_verify h r raw now \<longleftrightarrow> now < st_expires_at r \<and> st_hash_hex r = fp_hex (h raw)"
  by (auto simp: setup_token_verify_def Let_def ct_eq_iff)

lemma lockout_bounds: "LOCKOUT_SECONDS \<le> lockout_seconds n \<and> lockout_seconds n \<le> MAX_LOCKOUT_SECONDS"
  by (simp add: lockout_seconds_def LOCKOUT_SECONDS_def MAX_LOCKOUT_SECONDS_def)

end
