(* ===== verification/Operator_Store.thy ===== *)
theory Operator_Store
  imports Login_Throttle "HOL-Library.Char_ord" "HOL-Library.List_Lexorder"
begin

text \<open>
  The operator store (crates/portunus-server/src/store/operator_store.rs): users, credentials,
  grants, web sessions, failed logins and the onboarding token.

  The store is a database.  A table is a list of rows, in the order in which a \<open>SELECT\<close> without
  \<open>ORDER BY\<close> returns them; each method is one transaction, and the SQL statements of the source
  are written as list operations, with the primary keys, unique columns and cascading deletes
  of the schema.  Columns hold the values themselves (the text forms of identifiers, roles and
  timestamps are not modelled), and the database answers (busy and corrupt databases are not
  modelled).  The token hash is a parameter.
\<close>

section \<open>Tables\<close>

record PasswordState =
  ps_hash :: string
  ps_password_change_required :: bool

record WebSession =
  ws_user_id :: UserId
  ws_created_at :: timestamp
  ws_last_seen_at :: timestamp
  ws_absolute_expires_at :: timestamp
  ws_remote_addr :: "string option"
  ws_user_agent :: "string option"

record UserRow =
  ur_user :: User
  ur_password_hash :: "string option"
  ur_change_required :: bool

record SessionRow =
  sr_hash :: string
  sr_session :: WebSession
  sr_revoked_at :: "timestamp option"

type_synonym attempt_key = "string \<times> string \<times> string"

record OperatorDb =
  db_users :: "UserRow list"
  db_credentials :: "Credential list"
  db_grants :: "Grant list"
  db_sessions :: "SessionRow list"
  db_attempts :: "(attempt_key \<times> ThrottleDecision) list"
  db_setup :: "SetupTokenRecord option"

definition db_empty :: OperatorDb where
  "db_empty = \<lparr>db_users = [], db_credentials = [], db_grants = [], db_sessions = [], db_attempts = [], db_setup = None\<rparr>"

datatype StoreError = SeTransient string | SeConflict string | SeCorruption string | SeInternal string

fun store_error_text :: "StoreError \<Rightarrow> string" where
  "store_error_text (SeTransient message) = ''transient: '' @ message"
| "store_error_text (SeConflict detail) = ''conflict: '' @ detail"
| "store_error_text (SeCorruption detail) = ''corruption: '' @ detail"
| "store_error_text (SeInternal message) = ''internal: '' @ message"

definition conflict_as_exists :: "UserId \<Rightarrow> StoreError \<Rightarrow> IdentityStoreError" where
  "conflict_as_exists uid e =
     (case e of SeConflict _ \<Rightarrow> IsUserAlreadyExists uid | _ \<Rightarrow> IsWriteFailed (store_error_text e))"

section \<open>Shared statements\<close>

definition user_exists :: "OperatorDb \<Rightarrow> UserId \<Rightarrow> bool" where
  "user_exists db uid \<longleftrightarrow> length (filter (\<lambda>r. u_id (ur_user r) = uid) (db_users db)) > 0"

definition insert_user :: "OperatorDb \<Rightarrow> User \<Rightarrow> (StoreError, OperatorDb) result" where
  "insert_user db user =
     (if user_exists db (u_id user) then Inl (SeConflict ''UNIQUE constraint failed: users.user_id'')
      else Inr (db\<lparr>db_users := db_users db @
        [\<lparr>ur_user = user, ur_password_hash = None, ur_change_required = False\<rparr>]\<rparr>))"

definition insert_credential :: "OperatorDb \<Rightarrow> Credential \<Rightarrow> (StoreError, OperatorDb) result" where
  "insert_credential db cred =
     (if \<exists>c \<in> set (db_credentials db). cr_id c = cr_id cred
      then Inl (SeConflict ''UNIQUE constraint failed: credentials.credential_id'')
      else if \<exists>c \<in> set (db_credentials db). cr_token_hash c = cr_token_hash cred
      then Inl (SeConflict ''UNIQUE constraint failed: credentials.hash'')
      else Inr (db\<lparr>db_credentials := db_credentials db @ [cred]\<rparr>))"

definition insert_grant :: "OperatorDb \<Rightarrow> Grant \<Rightarrow> (StoreError, OperatorDb) result" where
  "insert_grant db g =
     (if \<exists>h \<in> set (db_grants db). g_id h = g_id g
      then Inl (SeConflict ''UNIQUE constraint failed: grants.grant_id'')
      else Inr (db\<lparr>db_grants := db_grants db @ [g]\<rparr>))"

definition set_password :: "OperatorDb \<Rightarrow> UserId \<Rightarrow> string \<Rightarrow> bool \<Rightarrow> OperatorDb" where
  "set_password db uid hash required =
     db\<lparr>db_users := map (\<lambda>r. if u_id (ur_user r) = uid
        then r\<lparr>ur_password_hash := Some hash, ur_change_required := required\<rparr> else r) (db_users db)\<rparr>"

definition collect_credential_ids :: "OperatorDb \<Rightarrow> UserId \<Rightarrow> CredentialId list" where
  "collect_credential_ids db uid = map cr_id (filter (\<lambda>c. cr_user_id c = uid) (db_credentials db))"

definition collect_grant_ids :: "OperatorDb \<Rightarrow> UserId \<Rightarrow> GrantId list" where
  "collect_grant_ids db uid = map g_id (filter (\<lambda>g. g_user_id g = uid) (db_grants db))"

section \<open>Read accessors\<close>

definition list_users :: "OperatorDb \<Rightarrow> User list" where
  "list_users db = sort_key (\<lambda>u. uid_as_str (u_id u)) (map ur_user (db_users db))"

definition get_user :: "OperatorDb \<Rightarrow> UserId \<Rightarrow> User option" where
  "get_user db uid = map_option ur_user (find (\<lambda>r. u_id (ur_user r) = uid) (db_users db))"

definition list_grants :: "OperatorDb \<Rightarrow> UserId option \<Rightarrow> Grant list" where
  "list_grants db user_filter =
     sort_key g_id (case user_filter of
        Some uid \<Rightarrow> filter (\<lambda>g. g_user_id g = uid) (db_grants db)
      | None \<Rightarrow> db_grants db)"

definition get_grant :: "OperatorDb \<Rightarrow> GrantId \<Rightarrow> Grant option" where
  "get_grant db uid = find (\<lambda>g. g_id g = uid) (db_grants db)"

definition grants_for :: "OperatorDb \<Rightarrow> UserId \<Rightarrow> Grant list" where
  "grants_for db uid = sort_key g_created_at (filter (\<lambda>g. g_user_id g = uid) (db_grants db))"

definition active_superadmin :: "UserRow \<Rightarrow> bool" where
  "active_superadmin r \<longleftrightarrow> u_role (ur_user r) = Superadmin \<and> \<not> u_disabled (ur_user r)"

definition count_superadmins :: "OperatorDb \<Rightarrow> nat" where
  "count_superadmins db = length (filter active_superadmin (db_users db))"

definition has_any_superadmin :: "OperatorDb \<Rightarrow> bool" where
  "has_any_superadmin db \<longleftrightarrow> count_superadmins db > 0"

definition has_active_superadmin :: "OperatorDb \<Rightarrow> bool" where
  "has_active_superadmin db \<longleftrightarrow> count_superadmins db > 0"

section \<open>Passwords\<close>

definition set_password_hash ::
  "OperatorDb \<Rightarrow> UserId \<Rightarrow> string \<Rightarrow> bool \<Rightarrow> (IdentityStoreError, OperatorDb) result" where
  "set_password_hash db uid hash required =
     (if \<not> user_exists db uid then Inl (IsUserNotFound uid) else Inr (set_password db uid hash required))"

definition revoke_row :: "timestamp \<Rightarrow> SessionRow \<Rightarrow> SessionRow" where
  "revoke_row now r = r\<lparr>sr_revoked_at := (case sr_revoked_at r of None \<Rightarrow> Some now | Some t \<Rightarrow> Some t)\<rparr>"

definition reset_password_state ::
  "OperatorDb \<Rightarrow> UserId \<Rightarrow> string \<Rightarrow> bool \<Rightarrow> bool \<Rightarrow> timestamp \<Rightarrow> (IdentityStoreError, OperatorDb \<times> nat) result" where
  "reset_password_state db uid hash required revoke_sessions now =
     (if \<not> user_exists db uid then Inl (IsUserNotFound uid)
      else let db = set_password db uid hash required in
        if revoke_sessions
        then let hit = (\<lambda>r. ws_user_id (sr_session r) = uid \<and> sr_revoked_at r = None) in
          Inr (db\<lparr>db_sessions := map (\<lambda>r. if hit r then revoke_row now r else r) (db_sessions db)\<rparr>,
               length (filter hit (db_sessions db)))
        else Inr (db, 0))"

definition password_state ::
  "OperatorDb \<Rightarrow> UserId \<Rightarrow> (IdentityStoreError, PasswordState option) result" where
  "password_state db uid =
     (case find (\<lambda>r. u_id (ur_user r) = uid) (db_users db) of
        None \<Rightarrow> Inl (IsUserNotFound uid)
      | Some r \<Rightarrow> Inr (map_option (\<lambda>h. \<lparr>ps_hash = h, ps_password_change_required = ur_change_required r\<rparr>)
            (ur_password_hash r)))"

section \<open>Web sessions\<close>

definition create_web_session ::
  "OperatorDb \<Rightarrow> string \<Rightarrow> UserId \<Rightarrow> timestamp \<Rightarrow> timestamp \<Rightarrow> string option \<Rightarrow> string option
   \<Rightarrow> (IdentityStoreError, OperatorDb) result" where
  "create_web_session db session_hash uid created_at absolute_expires_at remote_addr user_agent =
     (if \<not> user_exists db uid then Inl (IsUserNotFound uid)
      else if \<exists>r \<in> set (db_sessions db). sr_hash r = session_hash
      then Inl (IsWriteFailed (store_error_text (SeConflict ''UNIQUE constraint failed: web_sessions.session_hash'')))
      else Inr (db\<lparr>db_sessions := db_sessions db @
        [\<lparr>sr_hash = session_hash,
          sr_session = \<lparr>ws_user_id = uid, ws_created_at = created_at, ws_last_seen_at = created_at,
            ws_absolute_expires_at = absolute_expires_at, ws_remote_addr = remote_addr, ws_user_agent = user_agent\<rparr>,
          sr_revoked_at = None\<rparr>]\<rparr>))"

definition verify_web_session ::
  "OperatorDb \<Rightarrow> string \<Rightarrow> timestamp \<Rightarrow> OperatorDb \<times> WebSession option" where
  "verify_web_session db session_hash now =
     (case find (\<lambda>r. sr_hash r = session_hash) (db_sessions db) of
        None \<Rightarrow> (db, None)
      | Some row \<Rightarrow>
          let session = sr_session row in
          if sr_revoked_at row \<noteq> None \<or> session_is_expired (ws_last_seen_at session) (ws_absolute_expires_at session) now
          then (db, None)
          else (db\<lparr>db_sessions := map (\<lambda>r. if sr_hash r = session_hash \<and> sr_revoked_at r = None
                  then r\<lparr>sr_session := (sr_session r)\<lparr>ws_last_seen_at := now\<rparr>\<rparr> else r) (db_sessions db)\<rparr>,
                Some (session\<lparr>ws_last_seen_at := now\<rparr>)))"

definition revoke_web_session :: "OperatorDb \<Rightarrow> string \<Rightarrow> timestamp \<Rightarrow> OperatorDb" where
  "revoke_web_session db session_hash now =
     db\<lparr>db_sessions := map (\<lambda>r. if sr_hash r = session_hash then revoke_row now r else r) (db_sessions db)\<rparr>"

definition revoke_web_sessions_for_user ::
  "OperatorDb \<Rightarrow> UserId \<Rightarrow> timestamp \<Rightarrow> (IdentityStoreError, OperatorDb) result" where
  "revoke_web_sessions_for_user db uid now =
     (if \<not> user_exists db uid then Inl (IsUserNotFound uid)
      else Inr (db\<lparr>db_sessions :=
        map (\<lambda>r. if ws_user_id (sr_session r) = uid then revoke_row now r else r) (db_sessions db)\<rparr>))"

definition prune_expired_web_sessions :: "OperatorDb \<Rightarrow> timestamp \<Rightarrow> OperatorDb \<times> nat" where
  "prune_expired_web_sessions db now =
     (let idle_cutoff = now - IDLE_TIMEOUT;
          dead = (\<lambda>r. sr_revoked_at r \<noteq> None \<or> ws_absolute_expires_at (sr_session r) < now \<or>
                       ws_last_seen_at (sr_session r) < idle_cutoff)
      in (db\<lparr>db_sessions := filter (\<lambda>r. \<not> dead r) (db_sessions db)\<rparr>, length (filter dead (db_sessions db))))"

section \<open>The onboarding token\<close>

definition rotate_onboarding_setup_token ::
  "(string \<Rightarrow> u8 list) \<Rightarrow> OperatorDb \<Rightarrow> string \<Rightarrow> timestamp \<Rightarrow> OperatorDb" where
  "rotate_onboarding_setup_token hash_token db raw now =
     db\<lparr>db_setup := Some (setup_token_new hash_token raw now DEFAULT_SETUP_TOKEN_TTL)\<rparr>"

definition verify_onboarding_setup_token ::
  "(string \<Rightarrow> u8 list) \<Rightarrow> OperatorDb \<Rightarrow> string \<Rightarrow> timestamp \<Rightarrow> bool" where
  "verify_onboarding_setup_token hash_token db candidate now =
     (case db_setup db of None \<Rightarrow> False | Some r \<Rightarrow> setup_token_verify hash_token r candidate now)"

definition clear_onboarding_setup_token :: "OperatorDb \<Rightarrow> OperatorDb" where
  "clear_onboarding_setup_token db = db\<lparr>db_setup := None\<rparr>"

section \<open>Failed logins\<close>

definition attempt_row :: "OperatorDb \<Rightarrow> string \<Rightarrow> string \<Rightarrow> AuthThrottleAction \<Rightarrow> ThrottleDecision" where
  "attempt_row db subject remote action =
     (case map_of (db_attempts db) (subject, remote, action_as_db_str action) of
        None \<Rightarrow> td_default | Some d \<Rightarrow> d)"

definition login_attempt_state ::
  "OperatorDb \<Rightarrow> string \<Rightarrow> string \<Rightarrow> AuthThrottleAction \<Rightarrow> timestamp \<Rightarrow> ThrottleDecision" where
  "login_attempt_state db subject remote action now = effective_at (attempt_row db subject remote action) now"

definition record_login_attempt_failure ::
  "OperatorDb \<Rightarrow> string \<Rightarrow> string \<Rightarrow> AuthThrottleAction \<Rightarrow> timestamp \<Rightarrow> OperatorDb" where
  "record_login_attempt_failure db subject remote action now =
     db\<lparr>db_attempts := AList.update (subject, remote, action_as_db_str action)
        (td_record_failure (attempt_row db subject remote action) now) (db_attempts db)\<rparr>"

definition clear_login_attempts ::
  "OperatorDb \<Rightarrow> string \<Rightarrow> string \<Rightarrow> AuthThrottleAction \<Rightarrow> OperatorDb" where
  "clear_login_attempts db subject remote action =
     db\<lparr>db_attempts := AList.delete (subject, remote, action_as_db_str action) (db_attempts db)\<rparr>"

section \<open>Bootstrap\<close>

definition bootstrap_pair :: "OperatorDb \<Rightarrow> User \<Rightarrow> Credential \<Rightarrow> (IdentityStoreError, OperatorDb) result" where
  "bootstrap_pair db user cred =
     (if cr_user_id cred \<noteq> u_id user
      then Inl (IsWriteFailed ''bootstrap_pair: cred.user_id must equal user.id'')
      else map_err (conflict_as_exists (u_id user))
        (if user_exists db (u_id user) then Inl (SeConflict ''user_already_exists'')
         else rbind (insert_user db user) (\<lambda>db. insert_credential db cred)))"

definition bootstrap_legacy_superadmin ::
  "(string \<Rightarrow> u8 list) \<Rightarrow> OperatorDb \<Rightarrow> string \<Rightarrow> CredentialId \<Rightarrow> timestamp \<Rightarrow> (IdentityStoreError, OperatorDb) result" where
  "bootstrap_legacy_superadmin hash_token db raw_token cred_id now =
     (if raw_token = [] \<or> length raw_token > 256
      then Inl (IsWriteFailed ''operator_token must be 1..=256 bytes'')
      else let user = \<lparr>u_id = uid_reserved ''_legacy'', u_display_name = ''operator_token shortcut'',
                        u_role = Superadmin, u_created_at = now, u_disabled = False\<rparr>;
               cred = \<lparr>cr_id = cred_id, cr_user_id = u_id user, cr_token_hash = hash_token raw_token,
                       cr_label = Some ''operator_token (server.toml)'', cr_created_at = now,
                       cr_last_used_at = None, cr_status = CredActive\<rparr>
           in map_err (conflict_as_exists (uid_reserved ''_legacy''))
             (if count_superadmins db > 0 then Inl (SeConflict ''already_bootstrapped'')
              else rbind (insert_user db user) (\<lambda>db. insert_credential db cred)))"

datatype OnboardingError =
    OeAlreadyBootstrapped | OeInvalidSetupToken | OeUserAlreadyExists UserId | OeStore string

definition onboard_first_superadmin ::
  "(string \<Rightarrow> u8 list) \<Rightarrow> OperatorDb \<Rightarrow> User \<Rightarrow> string \<Rightarrow> string \<Rightarrow> timestamp \<Rightarrow> (OnboardingError, OperatorDb) result" where
  "onboard_first_superadmin hash_token db user password_hash setup_token now =
     (if u_role user \<noteq> Superadmin then Inl (OeStore ''onboard_first_superadmin requires a superadmin user'')
      else if count_superadmins db > 0 then Inl OeAlreadyBootstrapped
      else if \<not> verify_onboarding_setup_token hash_token db setup_token now then Inl OeInvalidSetupToken
      else if user_exists db (u_id user) then Inl (OeUserAlreadyExists (u_id user))
      else rbind (map_err (\<lambda>e. OeStore (store_error_text e)) (insert_user db user)) (\<lambda>db.
        Inr (clear_onboarding_setup_token (set_password db (u_id user) password_hash False))))"

section \<open>Users and grants\<close>

definition add_user :: "OperatorDb \<Rightarrow> User \<Rightarrow> (IdentityStoreError, OperatorDb) result" where
  "add_user db user =
     map_err (conflict_as_exists (u_id user))
       (if user_exists db (u_id user) then Inl (SeConflict ''user_already_exists'') else insert_user db user)"

definition add_user_with_password ::
  "OperatorDb \<Rightarrow> User \<Rightarrow> string option \<Rightarrow> bool \<Rightarrow> (IdentityStoreError, OperatorDb) result" where
  "add_user_with_password db user password_hash required =
     map_err (conflict_as_exists (u_id user))
       (if user_exists db (u_id user) then Inl (SeConflict ''user_already_exists'')
        else rbind (insert_user db user) (\<lambda>db.
          Inr (case password_hash of None \<Rightarrow> db | Some hash \<Rightarrow> set_password db (u_id user) hash required)))"

text \<open>The delete cascades to the tables that reference the user.\<close>

definition remove_user :: "OperatorDb \<Rightarrow> UserId \<Rightarrow> (IdentityStoreError, OperatorDb \<times> UserRemoveSummary) result" where
  "remove_user db uid =
     (if \<not> user_exists db uid then Inl (IsUserNotFound uid)
      else Inr (db\<lparr>db_users := filter (\<lambda>r. u_id (ur_user r) \<noteq> uid) (db_users db),
                   db_credentials := filter (\<lambda>c. cr_user_id c \<noteq> uid) (db_credentials db),
                   db_grants := filter (\<lambda>g. g_user_id g \<noteq> uid) (db_grants db),
                   db_sessions := filter (\<lambda>r. ws_user_id (sr_session r) \<noteq> uid) (db_sessions db)\<rparr>,
                \<lparr>rs_removed_credential_ids = collect_credential_ids db uid,
                 rs_revoked_grant_ids = collect_grant_ids db uid\<rparr>))"

definition add_grant :: "OperatorDb \<Rightarrow> Grant \<Rightarrow> (IdentityStoreError, OperatorDb) result" where
  "add_grant db grant =
     (if g_listen_port_start grant = 0 \<or> g_listen_port_start grant > g_listen_port_end grant
      then Inl (IsInvalidPortRange (g_listen_port_start grant) (g_listen_port_end grant))
      else if \<not> user_exists db (g_user_id grant) then Inl (IsUserNotFound (g_user_id grant))
      else map_err (\<lambda>e. IsWriteFailed (store_error_text e)) (insert_grant db grant))"

definition revoke_grant :: "OperatorDb \<Rightarrow> GrantId \<Rightarrow> (IdentityStoreError, OperatorDb \<times> Grant) result" where
  "revoke_grant db grant_id =
     (case find (\<lambda>g. g_id g = grant_id) (db_grants db) of
        None \<Rightarrow> Inl (IsGrantNotFound grant_id)
      | Some grant \<Rightarrow> Inr (db\<lparr>db_grants := filter (\<lambda>g. g_id g \<noteq> grant_id) (db_grants db)\<rparr>, grant))"

section \<open>Bearer tokens\<close>

text \<open>The scan over all credentials; a later active match replaces an earlier one.\<close>

fun scan_credentials :: "string \<Rightarrow> Credential list \<Rightarrow> (CredentialId \<times> UserId) option \<Rightarrow> (CredentialId \<times> UserId) option" where
  "scan_credentials needle [] matched = matched"
| "scan_credentials needle (c # cs) matched =
     (let hash = fp_hex (cr_token_hash c) in
      scan_credentials needle cs
        (if length hash = length needle \<and> ct_eq hash needle \<and> cred_is_active (cr_status c)
         then Some (cr_id c, cr_user_id c) else matched))"

definition verify_token ::
  "(string \<Rightarrow> u8 list) \<Rightarrow> OperatorDb \<Rightarrow> string \<Rightarrow> timestamp \<Rightarrow> OperatorDb \<times> (RbacError, OperatorIdentity) result" where
  "verify_token hash_token db token now =
     (if token = [] then (db, Inl Unauthenticated)
      else if length token > 256 then (db, Inl CredentialInvalid)
      else case scan_credentials (fp_hex (hash_token token)) (db_credentials db) None of
        None \<Rightarrow> (db, Inl CredentialInvalid)
      | Some (cred_id, owner) \<Rightarrow>
          (case get_user db owner of
             None \<Rightarrow> (db, Inl CredentialInvalid)
           | Some user \<Rightarrow>
               if u_disabled user then (db, Inl UserDisabled)
               else (db\<lparr>db_credentials := map (\<lambda>c. if cr_id c = cred_id then c\<lparr>cr_last_used_at := Some now\<rparr> else c)
                       (db_credentials db)\<rparr>,
                     Inr \<lparr>oi_user_id = u_id user, oi_role = u_role user\<rparr>)))"

section \<open>The invariant of the tables\<close>

definition db_wf :: "OperatorDb \<Rightarrow> bool" where
  "db_wf db \<longleftrightarrow>
     distinct (map (\<lambda>r. u_id (ur_user r)) (db_users db)) \<and>
     distinct (map cr_id (db_credentials db)) \<and> distinct (map cr_token_hash (db_credentials db)) \<and>
     distinct (map g_id (db_grants db)) \<and> distinct (map sr_hash (db_sessions db)) \<and>
     (\<forall>c \<in> set (db_credentials db). user_exists db (cr_user_id c)) \<and>
     (\<forall>g \<in> set (db_grants db). user_exists db (g_user_id g) \<and> g_listen_port_start g \<noteq> 0 \<and>
        g_listen_port_start g \<le> g_listen_port_end g) \<and>
     (\<forall>r \<in> set (db_sessions db). user_exists db (ws_user_id (sr_session r)))"

lemma user_exists_iff: "user_exists db uid \<longleftrightarrow> uid \<in> (\<lambda>r. u_id (ur_user r)) ` set (db_users db)"
  by (auto simp: user_exists_def filter_empty_conv)

lemma map_if_same: "(\<And>x. f (g x) = f x) \<Longrightarrow> map f (map (\<lambda>x. if P x then g x else x) xs) = map f xs"
  by (induction xs) auto

lemma image_if_same: "(\<And>x. f (g x) = f x) \<Longrightarrow> (\<lambda>x. f (if P x then g x else x)) ` A = f ` A"
  by (auto simp: image_iff)

lemma fresh_image: "y \<notin> f ` A \<longleftrightarrow> (\<forall>x \<in> A. f x \<noteq> y)"
  by auto

lemma set_password_ids [simp]:
  "map (\<lambda>r. u_id (ur_user r)) (db_users (set_password db uid h q)) = map (\<lambda>r. u_id (ur_user r)) (db_users db)"
  by (simp add: set_password_def)

lemma set_password_tables [simp]:
  "db_credentials (set_password db uid h q) = db_credentials db" "db_grants (set_password db uid h q) = db_grants db"
  "db_sessions (set_password db uid h q) = db_sessions db" "db_attempts (set_password db uid h q) = db_attempts db"
  "db_setup (set_password db uid h q) = db_setup db"
  by (simp_all add: set_password_def)

lemma user_exists_cong: "map (\<lambda>r. u_id (ur_user r)) (db_users a) = map (\<lambda>r. u_id (ur_user r)) (db_users b) \<Longrightarrow>
    user_exists a uid = user_exists b uid"
  by (metis image_set user_exists_iff)

lemma set_password_exists [simp]: "user_exists (set_password db uid h q) v = user_exists db v"
  by (rule user_exists_cong) simp

lemma set_password_wf: "db_wf db \<Longrightarrow> db_wf (set_password db uid h q)"
  by (simp add: db_wf_def)

lemma user_exists_sessions [simp]:
  "user_exists (db\<lparr>db_sessions := x\<rparr>) v = user_exists db v" "user_exists (db\<lparr>db_attempts := y\<rparr>) v = user_exists db v"
  "user_exists (db\<lparr>db_setup := z\<rparr>) v = user_exists db v" "user_exists (db\<lparr>db_credentials := k\<rparr>) v = user_exists db v"
  "user_exists (db\<lparr>db_grants := g\<rparr>) v = user_exists db v"
  by (simp_all add: user_exists_def)

lemma ball_map: "map f xs = map f ys \<Longrightarrow> (\<forall>x \<in> set xs. P (f x)) \<longleftrightarrow> (\<forall>y \<in> set ys. P (f y))"
  by (metis (mono_tags, lifting) image_iff image_set)

lemma sessions_wf:
  assumes "db_wf db" and "map sr_hash ss = map sr_hash (db_sessions db)"
    and "map (\<lambda>r. ws_user_id (sr_session r)) ss = map (\<lambda>r. ws_user_id (sr_session r)) (db_sessions db)"
  shows "db_wf (db\<lparr>db_sessions := ss\<rparr>)"
  using assms(1,2) ball_map [OF assms(3), of "user_exists db"] by (simp add: db_wf_def)

lemma credentials_wf:
  assumes "db_wf db" and "map cr_id cs = map cr_id (db_credentials db)"
    and "map cr_token_hash cs = map cr_token_hash (db_credentials db)"
    and "map cr_user_id cs = map cr_user_id (db_credentials db)"
  shows "db_wf (db\<lparr>db_credentials := cs\<rparr>)"
  using assms(1-3) ball_map [OF assms(4), of "user_exists db"] by (simp add: db_wf_def)

lemma insert_user_wf:
  assumes "db_wf db" and "insert_user db user = Inr db'"
  shows "db_wf db' \<and> user_exists db' (u_id user) \<and> (\<forall>v. user_exists db v \<longrightarrow> user_exists db' v) \<and>
    db_credentials db' = db_credentials db"
proof -
  have n: "\<not> user_exists db (u_id user)" and d: "db' = db\<lparr>db_users := db_users db @
        [\<lparr>ur_user = user, ur_password_hash = None, ur_change_required = False\<rparr>]\<rparr>"
    using assms(2) by (simp_all add: insert_user_def split: if_splits)
  have e: "user_exists db' v \<longleftrightarrow> user_exists db v \<or> v = u_id user" for v
    by (auto simp: user_exists_iff d)
  show ?thesis using assms(1) n e by (auto simp: db_wf_def d user_exists_iff)
qed

lemma insert_credential_wf:
  "db_wf db \<Longrightarrow> user_exists db (cr_user_id cred) \<Longrightarrow> insert_credential db cred = Inr db' \<Longrightarrow> db_wf db'"
  by (auto simp: insert_credential_def db_wf_def fresh_image split: if_splits)

lemma filter_distinct: "distinct (map f xs) \<Longrightarrow> distinct (map f (filter P xs))"
  by (simp add: distinct_map_filter)

lemma remove_user_wf:
  assumes "db_wf db" and "remove_user db uid = Inr (db', s)"
  shows "db_wf db' \<and> \<not> user_exists db' uid"
proof -
  have d: "db' = db\<lparr>db_users := filter (\<lambda>r. u_id (ur_user r) \<noteq> uid) (db_users db),
                   db_credentials := filter (\<lambda>c. cr_user_id c \<noteq> uid) (db_credentials db),
                   db_grants := filter (\<lambda>g. g_user_id g \<noteq> uid) (db_grants db),
                   db_sessions := filter (\<lambda>r. ws_user_id (sr_session r) \<noteq> uid) (db_sessions db)\<rparr>"
    using assms(2) by (simp add: remove_user_def split: if_splits)
  have e: "user_exists db' v \<longleftrightarrow> user_exists db v \<and> v \<noteq> uid" for v by (auto simp: user_exists_iff d)
  show ?thesis using assms(1) e by (auto simp: db_wf_def d filter_distinct)
qed

lemma add_grant_wf:
  assumes "db_wf db" and "add_grant db g = Inr db'"
  shows "db_wf db'"
proof -
  have "user_exists db (g_user_id g)" "g_listen_port_start g \<noteq> 0" "g_listen_port_start g \<le> g_listen_port_end g"
    "insert_grant db g = Inr db'"
    using assms(2) by (auto simp: add_grant_def split: if_splits)
  then show ?thesis using assms(1) by (auto simp: insert_grant_def db_wf_def fresh_image split: if_splits)
qed

lemma revoke_grant_wf: "db_wf db \<Longrightarrow> revoke_grant db gid = Inr (db', g) \<Longrightarrow> db_wf db'"
  by (auto simp: revoke_grant_def db_wf_def filter_distinct split: option.splits)

lemma create_web_session_wf:
  "db_wf db \<Longrightarrow> create_web_session db h uid c a ra ua = Inr db' \<Longrightarrow> db_wf db'"
  by (auto simp: create_web_session_def db_wf_def fresh_image split: if_splits)

lemma verify_web_session_wf: "db_wf db \<Longrightarrow> db_wf (fst (verify_web_session db h now))"
  by (auto simp: verify_web_session_def Let_def split: option.splits intro!: sessions_wf)

lemma revoke_row_simps [simp]: "sr_hash (revoke_row now r) = sr_hash r" "sr_session (revoke_row now r) = sr_session r"
    "sr_revoked_at (revoke_row now r) \<noteq> None"
  by (auto simp: revoke_row_def split: option.splits)

lemma revoke_wf: "db_wf db \<Longrightarrow> db_wf (db\<lparr>db_sessions := map (\<lambda>r. if P r then revoke_row now r else r) (db_sessions db)\<rparr>)"
  by (rule sessions_wf) (auto split: if_splits)

lemma prune_wf: "db_wf db \<Longrightarrow> db_wf (fst (prune_expired_web_sessions db now))"
  by (auto simp: prune_expired_web_sessions_def Let_def db_wf_def filter_distinct)

lemma verify_token_wf: "db_wf db \<Longrightarrow> db_wf (fst (verify_token h db token now))"
  by (auto simp: verify_token_def split: option.splits intro!: credentials_wf)

section \<open>Sequences of operations\<close>

text \<open>Every public method that writes, with the arguments it is called with.\<close>

datatype db_op =
    OpSetPassword UserId string bool
  | OpResetPassword UserId string bool bool timestamp
  | OpCreateSession string UserId timestamp timestamp "string option" "string option"
  | OpVerifySession string timestamp
  | OpRevokeSession string timestamp
  | OpRevokeUserSessions UserId timestamp
  | OpPruneSessions timestamp
  | OpRotateSetup string timestamp
  | OpClearSetup
  | OpRecordFailure string string AuthThrottleAction timestamp
  | OpClearAttempts string string AuthThrottleAction
  | OpBootstrapPair User Credential
  | OpBootstrapLegacy string CredentialId timestamp
  | OpOnboard User string string timestamp
  | OpAddUser User
  | OpAddUserPassword User "string option" bool
  | OpRemoveUser UserId
  | OpAddGrant Grant
  | OpRevokeGrant GrantId
  | OpVerifyToken string timestamp

definition keep :: "OperatorDb \<Rightarrow> ('e, OperatorDb) result \<Rightarrow> OperatorDb" where
  "keep db r = (case r of Inl e \<Rightarrow> db | Inr db' \<Rightarrow> db')"

definition keep_fst :: "OperatorDb \<Rightarrow> ('e, OperatorDb \<times> 'a) result \<Rightarrow> OperatorDb" where
  "keep_fst db r = (case r of Inl e \<Rightarrow> db | Inr (db', x) \<Rightarrow> db')"

fun db_apply :: "(string \<Rightarrow> u8 list) \<Rightarrow> OperatorDb \<Rightarrow> db_op \<Rightarrow> OperatorDb" where
  "db_apply h db (OpSetPassword u p q) = keep db (set_password_hash db u p q)"
| "db_apply h db (OpResetPassword u p q r now) = keep_fst db (reset_password_state db u p q r now)"
| "db_apply h db (OpCreateSession s u c a ra ua) = keep db (create_web_session db s u c a ra ua)"
| "db_apply h db (OpVerifySession s now) = fst (verify_web_session db s now)"
| "db_apply h db (OpRevokeSession s now) = revoke_web_session db s now"
| "db_apply h db (OpRevokeUserSessions u now) = keep db (revoke_web_sessions_for_user db u now)"
| "db_apply h db (OpPruneSessions now) = fst (prune_expired_web_sessions db now)"
| "db_apply h db (OpRotateSetup raw now) = rotate_onboarding_setup_token h db raw now"
| "db_apply h db OpClearSetup = clear_onboarding_setup_token db"
| "db_apply h db (OpRecordFailure s r a now) = record_login_attempt_failure db s r a now"
| "db_apply h db (OpClearAttempts s r a) = clear_login_attempts db s r a"
| "db_apply h db (OpBootstrapPair u c) = keep db (bootstrap_pair db u c)"
| "db_apply h db (OpBootstrapLegacy t i now) = keep db (bootstrap_legacy_superadmin h db t i now)"
| "db_apply h db (OpOnboard u p t now) = keep db (onboard_first_superadmin h db u p t now)"
| "db_apply h db (OpAddUser u) = keep db (add_user db u)"
| "db_apply h db (OpAddUserPassword u p q) = keep db (add_user_with_password db u p q)"
| "db_apply h db (OpRemoveUser u) = keep_fst db (remove_user db u)"
| "db_apply h db (OpAddGrant g) = keep db (add_grant db g)"
| "db_apply h db (OpRevokeGrant g) = keep_fst db (revoke_grant db g)"
| "db_apply h db (OpVerifyToken t now) = fst (verify_token h db t now)"

lemma keep_wf: "db_wf db \<Longrightarrow> (\<And>db'. r = Inr db' \<Longrightarrow> db_wf db') \<Longrightarrow> db_wf (keep db r)"
  by (simp add: keep_def split: sum.splits)

lemma keep_fst_wf: "db_wf db \<Longrightarrow> (\<And>db' x. r = Inr (db', x) \<Longrightarrow> db_wf db') \<Longrightarrow> db_wf (keep_fst db r)"
  by (simp add: keep_fst_def split: sum.splits prod.splits)

lemma insert_pair_wf:
  assumes "db_wf db" and "rbind (insert_user db user) (\<lambda>db. insert_credential db cred) = Inr db'"
    and "cr_user_id cred = u_id user"
  shows "db_wf db'"
proof -
  obtain d where d: "insert_user db user = Inr d" "insert_credential d cred = Inr db'"
    using assms(2) by (auto simp: rbind_Inr_iff)
  show ?thesis
    using insert_user_wf [OF assms(1) d(1)] insert_credential_wf [OF _ _ d(2)] assms(3) by simp
qed

lemma db_attempts_wf [simp]: "db_wf (db\<lparr>db_attempts := a\<rparr>) = db_wf db" "db_wf (db\<lparr>db_setup := s\<rparr>) = db_wf db"
  by (simp_all add: db_wf_def)

lemma bootstrap_pair_wf: "db_wf db \<Longrightarrow> bootstrap_pair db u c = Inr db' \<Longrightarrow> db_wf db'"
  using insert_pair_wf [of db u c db'] by (simp add: bootstrap_pair_def split: if_splits)

lemma bootstrap_legacy_wf: "db_wf db \<Longrightarrow> bootstrap_legacy_superadmin h db t i now = Inr db' \<Longrightarrow> db_wf db'"
  unfolding bootstrap_legacy_superadmin_def Let_def
  by (simp only: map_err_Inr_iff split: if_splits, blast, blast, rule insert_pair_wf, assumption, assumption, simp)

lemma reset_password_wf:
  "db_wf db \<Longrightarrow> reset_password_state db u p q r now = Inr (db', n) \<Longrightarrow> db_wf db'"
  by (auto simp: reset_password_state_def Let_def set_password_wf split: if_splits intro!: sessions_wf)

lemma onboard_wf: "db_wf db \<Longrightarrow> onboard_first_superadmin h db u p t now = Inr db' \<Longrightarrow> db_wf db'"
  using insert_user_wf [of db u]
  by (auto simp: onboard_first_superadmin_def rbind_Inr_iff clear_onboarding_setup_token_def set_password_wf
      split: if_splits)

lemma add_user_wf: "db_wf db \<Longrightarrow> add_user db u = Inr db' \<Longrightarrow> db_wf db'"
  using insert_user_wf [of db u] by (auto simp: add_user_def split: if_splits)

lemma add_user_password_wf: "db_wf db \<Longrightarrow> add_user_with_password db u p q = Inr db' \<Longrightarrow> db_wf db'"
  using insert_user_wf [of db u]
  by (auto simp: add_user_with_password_def rbind_Inr_iff set_password_wf split: if_splits option.splits)

lemma revoke_user_wf: "db_wf db \<Longrightarrow> revoke_web_sessions_for_user db u now = Inr db' \<Longrightarrow> db_wf db'"
  by (auto simp: revoke_web_sessions_for_user_def revoke_wf split: if_splits)

lemma set_password_hash_wf: "db_wf db \<Longrightarrow> set_password_hash db u p q = Inr db' \<Longrightarrow> db_wf db'"
  by (auto simp: set_password_hash_def set_password_wf split: if_splits)

lemma db_apply_wf: "db_wf db \<Longrightarrow> db_wf (db_apply h db op)"
proof (induction h db op rule: db_apply.induct)
  case (1 h db u p q)
  show ?case unfolding db_apply.simps by (rule keep_wf [OF 1]) (rule set_password_hash_wf [OF 1])
next
  case (2 h db u p q r now)
  show ?case unfolding db_apply.simps by (rule keep_fst_wf [OF 2]) (rule reset_password_wf [OF 2])
next
  case (3 h db s u c a ra ua)
  show ?case unfolding db_apply.simps by (rule keep_wf [OF 3]) (rule create_web_session_wf [OF 3])
next
  case (6 h db u now)
  show ?case unfolding db_apply.simps by (rule keep_wf [OF 6]) (rule revoke_user_wf [OF 6])
next
  case (12 h db u c)
  show ?case unfolding db_apply.simps by (rule keep_wf [OF 12]) (rule bootstrap_pair_wf [OF 12])
next
  case (13 h db t i now)
  show ?case unfolding db_apply.simps by (rule keep_wf [OF 13]) (rule bootstrap_legacy_wf [OF 13])
next
  case (14 h db u p t now)
  show ?case unfolding db_apply.simps by (rule keep_wf [OF 14]) (rule onboard_wf [OF 14])
next
  case (15 h db u)
  show ?case unfolding db_apply.simps by (rule keep_wf [OF 15]) (rule add_user_wf [OF 15])
next
  case (16 h db u p q)
  show ?case unfolding db_apply.simps by (rule keep_wf [OF 16]) (rule add_user_password_wf [OF 16])
next
  case (17 h db u)
  show ?case unfolding db_apply.simps by (rule keep_fst_wf [OF 17]) (rule conjunct1 [OF remove_user_wf [OF 17]])
next
  case (18 h db g)
  show ?case unfolding db_apply.simps by (rule keep_wf [OF 18]) (rule add_grant_wf [OF 18])
next
  case (19 h db g)
  show ?case unfolding db_apply.simps by (rule keep_fst_wf [OF 19]) (rule revoke_grant_wf [OF 19])
qed (simp_all add: verify_web_session_wf prune_wf verify_token_wf rotate_onboarding_setup_token_def revoke_web_session_def
    revoke_wf clear_onboarding_setup_token_def record_login_attempt_failure_def clear_login_attempts_def)

lemma db_wf_run: "db_wf (foldl (db_apply h) db_empty ops)"
proof (induction ops rule: rev_induct)
  case Nil
  show ?case by (simp add: db_empty_def db_wf_def)
next
  case (snoc op ops)
  then show ?case by (simp add: db_apply_wf)
qed

end
