(* ===== verification/Web_Auth.thy ===== *)
theory Web_Auth
  imports Operator_Store
begin

text \<open>
  Authentication of operator requests on the server: the audit ring
  (crates/portunus-server/src/operator/audit.rs), the password policy (passwords.rs), the CSRF
  checks (csrf.rs), the middleware in front of every \<open>/v1\<close> route (auth_layer.rs) and the login,
  onboarding, logout and password handlers (web_auth.rs).

  A request is the record of the headers the code reads, each absent or its text.  Hash
  functions are parameters: \<open>hash_token\<close> (blake3), \<open>verify_pw\<close> and \<open>argon\<close> (argon2; \<open>argon\<close> fails or
  returns the encoded hash).  Freshly generated secrets are arguments.  Responses are their
  status and stable code; messages and log lines are not modelled.
\<close>

section \<open>The audit ring (audit.rs)\<close>

definition AUDIT_RING_CAPACITY :: nat where "AUDIT_RING_CAPACITY = 1000"

datatype AuditOutcome = Allow | Deny

fun audit_outcome_as_str :: "AuditOutcome \<Rightarrow> string" where
  "audit_outcome_as_str Allow = ''allow''"
| "audit_outcome_as_str Deny = ''deny''"

definition audit_outcome_parse :: "string \<Rightarrow> AuditOutcome option" where
  "audit_outcome_parse s = (if s = ''allow'' then Some Allow else if s = ''deny'' then Some Deny else None)"

datatype Method = GET | HEAD | POST | PUT | PATCH | DELETE | OPTIONS | OtherMethod string

record AuditEntry =
  ae_timestamp :: timestamp
  ae_actor :: string
  ae_role :: "OperatorRole option"
  ae_method :: Method
  ae_path :: string
  ae_outcome :: AuditOutcome
  ae_reason :: "string option"
  ae_action :: "string option"
  ae_resource_value :: "string option"

record AuditRing =
  ar_entries :: "AuditEntry list"
  ar_drops :: nat

definition audit_new :: AuditRing where
  "audit_new = \<lparr>ar_entries = [], ar_drops = 0\<rparr>"

definition audit_push :: "AuditRing \<Rightarrow> AuditEntry \<Rightarrow> AuditRing" where
  "audit_push ring entry =
     (if length (ar_entries ring) = AUDIT_RING_CAPACITY
      then \<lparr>ar_entries = tl (ar_entries ring) @ [entry], ar_drops = wrap64 (ar_drops ring + 1)\<rparr>
      else ring\<lparr>ar_entries := ar_entries ring @ [entry]\<rparr>)"

fun snapshot_loop :: "nat \<Rightarrow> AuditOutcome option \<Rightarrow> AuditEntry list \<Rightarrow> AuditEntry list \<Rightarrow> AuditEntry list" where
  "snapshot_loop limit f [] out = out"
| "snapshot_loop limit f (e # es) out =
     (if (case f of None \<Rightarrow> False | Some oc \<Rightarrow> ae_outcome e \<noteq> oc) then snapshot_loop limit f es out
      else let out = out @ [e] in if length out = limit then out else snapshot_loop limit f es out)"

definition audit_snapshot :: "AuditRing \<Rightarrow> nat \<Rightarrow> AuditOutcome option \<Rightarrow> AuditEntry list" where
  "audit_snapshot ring limit outcome_filter = snapshot_loop limit outcome_filter (rev (ar_entries ring)) []"

section \<open>Passwords (passwords.rs)\<close>

definition MIN_PASSWORD_CHARS :: nat where "MIN_PASSWORD_CHARS = 12"
definition MAX_PASSWORD_BYTES :: nat where "MAX_PASSWORD_BYTES = 1024"

datatype PasswordError = PwTooShort | PwTooLong | PwInvalid | PwHashFailed

definition validate_password :: "string \<Rightarrow> (PasswordError, unit) result" where
  "validate_password password =
     (if length (chars password) < MIN_PASSWORD_CHARS then Inl PwTooShort
      else if length password > MAX_PASSWORD_BYTES then Inl PwTooLong
      else Inr ())"

definition hash_password :: "(string \<Rightarrow> string option) \<Rightarrow> string \<Rightarrow> (PasswordError, string) result" where
  "hash_password argon password =
     rbind (validate_password password) (\<lambda>_. ok_or PwHashFailed (argon password))"

section \<open>CSRF (csrf.rs)\<close>

record HttpRequest =
  rq_method :: Method
  rq_path :: string
  rq_cookie :: "string option"
  rq_authorization :: "string option"
  rq_origin :: "string option"
  rq_host :: "string option"
  rq_csrf :: "string option"
  rq_content_type :: "string option"
  rq_content_length :: "string option"
  rq_transfer_encoding :: bool

datatype CsrfError = MissingOrigin | OriginMismatch | MissingHeader | UnsupportedContentType

fun csrf_code :: "CsrfError \<Rightarrow> string" where
  "csrf_code MissingOrigin = ''csrf_origin_required''"
| "csrf_code OriginMismatch = ''csrf_origin_mismatch''"
| "csrf_code MissingHeader = ''csrf_header_required''"
| "csrf_code UnsupportedContentType = ''csrf_content_type_required''"

definition requires_csrf :: "Method \<Rightarrow> bool" where
  "requires_csrf m \<longleftrightarrow> m \<in> {POST, PUT, PATCH, DELETE}"

definition strip_scheme :: "string \<Rightarrow> string option" where
  "strip_scheme origin =
     (case strip_prefix ''http://'' origin of
        Some a \<Rightarrow> Some a
      | None \<Rightarrow> strip_prefix ''https://'' origin)"

definition same_origin :: "string \<Rightarrow> HttpRequest \<Rightarrow> bool" where
  "same_origin origin req =
     (case strip_scheme origin of
        None \<Rightarrow> False
      | Some authority \<Rightarrow> (case rq_host req of None \<Rightarrow> False | Some host \<Rightarrow> authority = host))"

text \<open>\<open>str::parse::<u64>()\<close>: decimal digits after an optional plus sign, without overflow.\<close>

definition parse_u64 :: "string \<Rightarrow> nat option" where
  "parse_u64 s =
     (let ds = (case s of c # cs \<Rightarrow> if c = CHR ''+'' then cs else s | [] \<Rightarrow> s);
          n = foldl (\<lambda>acc c. acc * 10 + (cc c - 48)) 0 ds
      in if ds = [] \<or> \<not> list_all is_ascii_digit ds \<or> n > u64_max then None else Some n)"

definition request_has_body :: "HttpRequest \<Rightarrow> bool" where
  "request_has_body req \<longleftrightarrow>
     (case rq_content_length req of
        None \<Rightarrow> False
      | Some v \<Rightarrow> (case parse_u64 v of None \<Rightarrow> False | Some len \<Rightarrow> len > 0)) \<or>
     rq_transfer_encoding req"

definition csrf_verify :: "HttpRequest \<Rightarrow> string option \<Rightarrow> (CsrfError, unit) result" where
  "csrf_verify req expected_origin =
     (if \<not> requires_csrf (rq_method req) then Inr ()
      else rbind (ok_or MissingOrigin (rq_origin req)) (\<lambda>origin.
        let origin_ok = (case expected_origin of
              Some expected \<Rightarrow> origin = expected
            | None \<Rightarrow> same_origin origin req)
        in if \<not> origin_ok then Inl OriginMismatch
           else rbind (ok_or MissingHeader (rq_csrf req)) (\<lambda>csrf.
             if csrf \<noteq> ''1'' then Inl MissingHeader
             else if request_has_body req
             then rbind (ok_or UnsupportedContentType (rq_content_type req)) (\<lambda>content_type.
               if \<not> eq_ignore_ascii_case (trim (hd (split_on CHR '';'' content_type))) ''application/json''
               then Inl UnsupportedContentType else Inr ())
             else Inr ())))"

section \<open>The middleware (auth_layer.rs)\<close>

datatype ApiError = ApiError nat string

fun http_status_for :: "RbacError \<Rightarrow> nat" where
  "http_status_for Unauthenticated = 401"
| "http_status_for CredentialInvalid = 401"
| "http_status_for UserDisabled = 401"
| "http_status_for ClientNotGranted = 403"
| "http_status_for PortOutsideGrant = 403"
| "http_status_for ProtocolNotGranted = 403"
| "http_status_for NotOwner = 403"
| "http_status_for RoleRequired = 403"
| "http_status_for BootstrapRequired = 503"
| "http_status_for AlreadyBootstrapped = 409"
| "http_status_for UserAlreadyExists = 409"
| "http_status_for CannotRemoveSelf = 409"
| "http_status_for LastSuperadmin = 409"
| "http_status_for UserNotFound = 404"
| "http_status_for CredentialNotFound = 404"
| "http_status_for GrantNotFound = 404"
| "http_status_for InvalidUserId = 422"
| "http_status_for InvalidDisplayName = 422"
| "http_status_for ReservedUserId = 422"
| "http_status_for InvalidPortRange = 422"
| "http_status_for EmptyProtocolSet = 422"
| "http_status_for InvalidClient = 422"

definition api_rbac :: "RbacError \<Rightarrow> ApiError" where
  "api_rbac e = ApiError (http_status_for e) (rbac_code e)"

record OperatorState =
  os_db :: OperatorDb
  os_audit :: AuditRing
  os_requests :: "(string \<times> string) \<Rightarrow> nat"

datatype AuthMethod = AuthCookie | AuthBearer

definition bump_request :: "OperatorState \<Rightarrow> string \<Rightarrow> string \<Rightarrow> OperatorState" where
  "bump_request s outcome reason =
     s\<lparr>os_requests := (os_requests s)((outcome, reason) := os_requests s (outcome, reason) + 1)\<rparr>"

definition record_allow ::
  "OperatorState \<Rightarrow> string \<Rightarrow> OperatorRole \<Rightarrow> HttpRequest \<Rightarrow> timestamp \<Rightarrow> OperatorState" where
  "record_allow s actor role req now =
     s\<lparr>os_audit := audit_push (os_audit s)
        \<lparr>ae_timestamp = now, ae_actor = actor, ae_role = Some role, ae_method = rq_method req, ae_path = rq_path req,
         ae_outcome = Allow, ae_reason = None, ae_action = None, ae_resource_value = None\<rparr>\<rparr>"

definition record_deny ::
  "OperatorState \<Rightarrow> string \<Rightarrow> OperatorRole option \<Rightarrow> HttpRequest \<Rightarrow> string \<Rightarrow> timestamp \<Rightarrow> OperatorState" where
  "record_deny s actor role req reason now =
     s\<lparr>os_audit := audit_push (os_audit s)
        \<lparr>ae_timestamp = now, ae_actor = actor, ae_role = role, ae_method = rq_method req, ae_path = rq_path req,
         ae_outcome = Deny, ae_reason = Some reason, ae_action = None, ae_resource_value = None\<rparr>\<rparr>"

definition deny ::
  "OperatorState \<Rightarrow> string \<Rightarrow> OperatorRole option \<Rightarrow> HttpRequest \<Rightarrow> string \<Rightarrow> timestamp \<Rightarrow> OperatorState" where
  "deny s actor role req reason now = record_deny (bump_request s ''deny'' reason) actor role req reason now"

definition extract_bearer :: "HttpRequest \<Rightarrow> (RbacError, string) result" where
  "extract_bearer req =
     rbind (ok_or Unauthenticated (rq_authorization req)) (\<lambda>v.
       case strip_prefix ''Bearer '' v of
         None \<Rightarrow> Inl Unauthenticated
       | Some rest \<Rightarrow> (let token = trim rest in if token = [] then Inl Unauthenticated else Inr token))"

definition verify_session_secret ::
  "(string \<Rightarrow> u8 list) \<Rightarrow> OperatorDb \<Rightarrow> string \<Rightarrow> timestamp \<Rightarrow> OperatorDb \<times> (RbacError, OperatorIdentity) result" where
  "verify_session_secret hash_token db secret now =
     (case verify_web_session db (hash_session_secret hash_token secret) now of
        (db, None) \<Rightarrow> (db, Inl CredentialInvalid)
      | (db, Some session) \<Rightarrow>
          (db, case get_user db (ws_user_id session) of
             None \<Rightarrow> Inl CredentialInvalid
           | Some user \<Rightarrow>
               if u_disabled user then Inl UserDisabled
               else Inr \<lparr>oi_user_id = u_id user, oi_role = u_role user\<rparr>))"

definition authenticate_request ::
  "(string \<Rightarrow> u8 list) \<Rightarrow> OperatorDb \<Rightarrow> HttpRequest \<Rightarrow> timestamp
   \<Rightarrow> OperatorDb \<times> (RbacError, OperatorIdentity \<times> AuthMethod) result" where
  "authenticate_request hash_token db req now =
     (case cookie_value (rq_cookie req) SESSION_COOKIE of
        Some secret \<Rightarrow>
          (case verify_session_secret hash_token db secret now of
             (db, r) \<Rightarrow> (db, rbind r (\<lambda>identity. Inr (identity, AuthCookie))))
      | None \<Rightarrow>
          (case extract_bearer req of
             Inl e \<Rightarrow> (db, Inl e)
           | Inr token \<Rightarrow>
               (case verify_token hash_token db token now of
                  (db, r) \<Rightarrow> (db, rbind r (\<lambda>identity. Inr (identity, AuthBearer))))))"

definition is_auditable_mutation :: "Method \<Rightarrow> bool" where
  "is_auditable_mutation m \<longleftrightarrow> m \<in> {POST, PUT, PATCH, DELETE}"

definition password_change_route_allowed :: "Method \<Rightarrow> string \<Rightarrow> bool" where
  "password_change_route_allowed m path \<longleftrightarrow>
     (m = GET \<and> path = ''/v1/users/me'') \<or> (m = POST \<and> path = ''/v1/users/me/password'')"

definition password_change_required :: "OperatorDb \<Rightarrow> OperatorIdentity \<Rightarrow> bool option" where
  "password_change_required db identity =
     (case password_state db (oi_user_id identity) of
        Inl e \<Rightarrow> None
      | Inr p \<Rightarrow> Some (case p of None \<Rightarrow> False | Some q \<Rightarrow> ps_password_change_required q))"

text \<open>The outcome is a denial, or the request handed on with the identity it may act as.\<close>

datatype auth_outcome = AuthDenied ApiError | AuthForwarded OperatorIdentity

definition auth_middleware ::
  "(string \<Rightarrow> u8 list) \<Rightarrow> string option \<Rightarrow> OperatorState \<Rightarrow> HttpRequest \<Rightarrow> timestamp \<Rightarrow> OperatorState \<times> auth_outcome" where
  "auth_middleware hash_token public_origin s req now =
     (if \<not> has_any_superadmin (os_db s)
      then (deny s ''_anonymous'' None req ''bootstrap_required'' now, AuthDenied (ApiError 503 (rbac_code BootstrapRequired)))
      else case authenticate_request hash_token (os_db s) req now of
        (db, Inl e) \<Rightarrow>
          (deny (s\<lparr>os_db := db\<rparr>) ''_anonymous'' None req (rbac_code e) now,
           AuthDenied (ApiError (http_status_for e) (rbac_code e)))
      | (db, Inr (identity, auth_method)) \<Rightarrow>
          let s = s\<lparr>os_db := db\<rparr>; actor = uid_as_str (oi_user_id identity); role = Some (oi_role identity);
              forward = (let s = bump_request s ''allow'' ''ok'' in
                (if is_auditable_mutation (rq_method req) then record_allow s actor (oi_role identity) req now else s,
                 AuthForwarded identity))
          in if auth_method = AuthBearer then forward
             else case csrf_verify req public_origin of
               Inl e \<Rightarrow> (deny s actor role req (csrf_code e) now, AuthDenied (ApiError 403 (csrf_code e)))
             | Inr _ \<Rightarrow>
                 if password_change_route_allowed (rq_method req) (rq_path req) then forward
                 else (case password_change_required db identity of
                   Some True \<Rightarrow> (deny s actor role req ''password_change_required'' now,
                                 AuthDenied (ApiError 403 ''password_change_required''))
                 | Some False \<Rightarrow> forward
                 | None \<Rightarrow> (deny s actor role req ''password_state_unavailable'' now,
                            AuthDenied (ApiError 500 ''internal''))))"

section \<open>Handlers (web_auth.rs)\<close>

definition ONBOARDING_THROTTLE_SUBJECT_PRESENT :: string where
  "ONBOARDING_THROTTLE_SUBJECT_PRESENT = ''_onboarding_setup_token_present''"

definition ONBOARDING_THROTTLE_SUBJECT_MISSING :: string where
  "ONBOARDING_THROTTLE_SUBJECT_MISSING = ''_onboarding_setup_token_missing''"

definition invalid_login :: ApiError where "invalid_login = ApiError 401 ''invalid_login''"
definition password_mismatch :: ApiError where "password_mismatch = ApiError 422 ''password_mismatch''"
definition setup_token_required :: ApiError where "setup_token_required = ApiError 401 ''setup_token_required''"
definition setup_token_invalid :: ApiError where "setup_token_invalid = ApiError 401 ''setup_token_invalid''"
definition already_bootstrapped :: ApiError where "already_bootstrapped = ApiError 409 ''already_bootstrapped''"

fun password_error :: "PasswordError \<Rightarrow> ApiError" where
  "password_error PwTooShort = ApiError 422 ''password_too_short''"
| "password_error PwTooLong = ApiError 422 ''password_too_long''"
| "password_error PwInvalid = ApiError 422 ''password_invalid''"
| "password_error PwHashFailed = ApiError 500 ''password_hash_failed''"

fun onboarding_error :: "OnboardingError \<Rightarrow> ApiError" where
  "onboarding_error OeAlreadyBootstrapped = already_bootstrapped"
| "onboarding_error OeInvalidSetupToken = setup_token_invalid"
| "onboarding_error (OeUserAlreadyExists u) = ApiError 409 ''user_already_exists''"
| "onboarding_error (OeStore msg) = ApiError 500 ''internal''"

definition api_store :: "IdentityStoreError \<Rightarrow> ApiError" where
  "api_store e = (case as_rbac e of Some r \<Rightarrow> api_rbac r | None \<Rightarrow> ApiError 500 ''internal'')"

definition reject_if_throttled ::
  "OperatorDb \<Rightarrow> string \<Rightarrow> string \<Rightarrow> AuthThrottleAction \<Rightarrow> timestamp \<Rightarrow> (ApiError, unit) result" where
  "reject_if_throttled db subject remote action now =
     (if is_locked (login_attempt_state db subject remote action now) now
      then Inl (ApiError 429 ''rate_limited'') else Inr ())"

definition onboarding_throttle_subject :: "string option \<Rightarrow> string" where
  "onboarding_throttle_subject setup_token =
     (if (case setup_token of None \<Rightarrow> False | Some t \<Rightarrow> t \<noteq> [])
      then ONBOARDING_THROTTLE_SUBJECT_PRESENT else ONBOARDING_THROTTLE_SUBJECT_MISSING)"

definition login_throttle_subject :: "string \<Rightarrow> string" where
  "login_throttle_subject user_id =
     (case uid_from_str user_id of Inl e \<Rightarrow> UNKNOWN_AUTH_SUBJECT | Inr u \<Rightarrow> uid_as_str u)"

subsection \<open>Login\<close>

record LoginRequest =
  lr_user_id :: string
  lr_password :: string

definition authenticate_login ::
  "(string \<Rightarrow> u8 list) \<Rightarrow> (string \<Rightarrow> string \<Rightarrow> bool) \<Rightarrow> OperatorDb \<Rightarrow> LoginRequest \<Rightarrow> timestamp \<Rightarrow> string \<Rightarrow> string option
   \<Rightarrow> string \<Rightarrow> (ApiError, OperatorDb \<times> bool) result" where
  "authenticate_login hash_token verify_pw db body now remote user_agent secret =
     (case parse_stored_user_id (lr_user_id body) of
        Inl e \<Rightarrow> Inl invalid_login
      | Inr user_id \<Rightarrow>
          (case get_user db user_id of
             None \<Rightarrow> Inl invalid_login
           | Some user \<Rightarrow>
               if u_disabled user then Inl invalid_login
               else rbind (map_err (\<lambda>e. invalid_login) (password_state db user_id)) (\<lambda>p.
                 case p of
                   None \<Rightarrow> Inl invalid_login
                 | Some pw \<Rightarrow>
                     if \<not> verify_pw (lr_password body) (ps_hash pw) then Inl invalid_login
                     else rbind (map_err (\<lambda>e. ApiError 500 ''internal'')
                         (create_web_session db (hash_session_secret hash_token secret) user_id now
                            (now + ABSOLUTE_TIMEOUT) (Some remote) user_agent)) (\<lambda>db.
                       Inr (db, ps_password_change_required pw)))))"

definition post_auth_login ::
  "(string \<Rightarrow> u8 list) \<Rightarrow> (string \<Rightarrow> string \<Rightarrow> bool) \<Rightarrow> OperatorDb \<Rightarrow> LoginRequest \<Rightarrow> timestamp \<Rightarrow> string \<Rightarrow> string option
   \<Rightarrow> string \<Rightarrow> OperatorDb \<times> (ApiError, bool) result" where
  "post_auth_login hash_token verify_pw db body now remote user_agent secret =
     (let subject = login_throttle_subject (lr_user_id body) in
      case reject_if_throttled db subject remote Login now of
        Inl e \<Rightarrow> (db, Inl e)
      | Inr _ \<Rightarrow>
          (case authenticate_login hash_token verify_pw db body now remote user_agent secret of
             Inr (db, required) \<Rightarrow> (clear_login_attempts db subject remote Login, Inr required)
           | Inl err \<Rightarrow> (record_login_attempt_failure db subject remote Login now, Inl err)))"

subsection \<open>Onboarding\<close>

record OnboardingRequest =
  ob_user_id :: string
  ob_display_name :: string
  ob_password :: string
  ob_password_confirm :: string
  ob_setup_token :: "string option"

definition verify_setup_token_for_hashing ::
  "(string \<Rightarrow> u8 list) \<Rightarrow> OperatorDb \<Rightarrow> string option \<Rightarrow> timestamp \<Rightarrow> (ApiError, string) result" where
  "verify_setup_token_for_hashing hash_token db setup_token now =
     (case setup_token of
        None \<Rightarrow> Inl setup_token_required
      | Some t \<Rightarrow>
          if t = [] then Inl setup_token_required
          else if \<not> verify_onboarding_setup_token hash_token db t now then Inl setup_token_invalid
          else Inr t)"

definition build_onboarding_user ::
  "(string \<Rightarrow> string option) \<Rightarrow> OnboardingRequest \<Rightarrow> timestamp \<Rightarrow> (ApiError, User \<times> string) result" where
  "build_onboarding_user argon body now =
     rbind (map_err api_rbac (uid_from_str (ob_user_id body))) (\<lambda>uid.
       let display_name = trim (ob_display_name body) in
       if display_name = [] \<or> length display_name > 64 then Inl (api_rbac InvalidDisplayName)
       else if ob_password body \<noteq> ob_password_confirm body then Inl password_mismatch
       else rbind (map_err password_error (hash_password argon (ob_password body))) (\<lambda>password_hash.
         Inr (\<lparr>u_id = uid, u_display_name = display_name, u_role = Superadmin, u_created_at = now, u_disabled = False\<rparr>,
              password_hash)))"

definition post_auth_onboarding ::
  "(string \<Rightarrow> u8 list) \<Rightarrow> (string \<Rightarrow> string option) \<Rightarrow> OperatorDb \<Rightarrow> OnboardingRequest \<Rightarrow> timestamp \<Rightarrow> string
   \<Rightarrow> OperatorDb \<times> (ApiError, User) result" where
  "post_auth_onboarding hash_token argon db body now remote =
     (if has_any_superadmin db then (db, Inl already_bootstrapped)
      else let subject = onboarding_throttle_subject (ob_setup_token body) in
        case reject_if_throttled db subject remote Onboarding now of
          Inl e \<Rightarrow> (db, Inl e)
        | Inr _ \<Rightarrow>
            (case rbind (verify_setup_token_for_hashing hash_token db (ob_setup_token body) now) (\<lambda>setup_token.
                 rbind (build_onboarding_user argon body now) (\<lambda>(user, password_hash).
                   rbind (map_err onboarding_error
                       (onboard_first_superadmin hash_token db user password_hash setup_token now)) (\<lambda>db.
                     Inr (db, user)))) of
               Inr (db, user) \<Rightarrow> (clear_login_attempts db subject remote Onboarding, Inr user)
             | Inl err \<Rightarrow> (record_login_attempt_failure db subject remote Onboarding now, Inl err)))"

subsection \<open>Passwords and logout\<close>

definition post_self_password ::
  "(string \<Rightarrow> string \<Rightarrow> bool) \<Rightarrow> (string \<Rightarrow> string option) \<Rightarrow> OperatorDb \<Rightarrow> OperatorIdentity \<Rightarrow> string \<Rightarrow> string \<Rightarrow> string
   \<Rightarrow> timestamp \<Rightarrow> (ApiError, OperatorDb) result" where
  "post_self_password verify_pw argon db identity current_password new_password new_password_confirm now =
     (if new_password \<noteq> new_password_confirm then Inl password_mismatch
      else rbind (map_err (\<lambda>e. invalid_login) (password_state db (oi_user_id identity))) (\<lambda>p.
        rbind (ok_or invalid_login p) (\<lambda>current.
          if \<not> verify_pw current_password (ps_hash current) then Inl invalid_login
          else rbind (map_err password_error (hash_password argon new_password)) (\<lambda>new_hash.
            rbind (map_err api_store (reset_password_state db (oi_user_id identity) new_hash False False now))
              (\<lambda>(db, n). Inr db)))))"

record AdminPasswordResetRequest =
  pr_new_password :: "string option"
  pr_temporary_password :: "bool option"

definition reset_user_password ::
  "(string \<Rightarrow> string option) \<Rightarrow> OperatorState \<Rightarrow> OperatorIdentity \<Rightarrow> UserId \<Rightarrow> AdminPasswordResetRequest \<Rightarrow> string \<Rightarrow> timestamp
   \<Rightarrow> (ApiError, OperatorState \<times> nat \<times> string option) result" where
  "reset_user_password argon s actor target body fresh now =
     (let generated = (pr_new_password body = None);
          new_password = (case pr_new_password body of None \<Rightarrow> fresh | Some p \<Rightarrow> p);
          required = (generated \<or> (case pr_temporary_password body of None \<Rightarrow> False | Some b \<Rightarrow> b))
      in rbind (map_err password_error (hash_password argon new_password)) (\<lambda>new_hash.
        rbind (map_err api_store (reset_password_state (os_db s) target new_hash required True now)) (\<lambda>(db, n).
          Inr (s\<lparr>os_db := db,
                 os_audit := audit_push (os_audit s)
                   \<lparr>ae_timestamp = now, ae_actor = uid_as_str (oi_user_id actor), ae_role = Some (oi_role actor),
                    ae_method = POST, ae_path = ''/v1/users/'' @ uid_as_str target @ ''/password'',
                    ae_outcome = Allow, ae_reason = None, ae_action = Some ''operator.password_reset'',
                    ae_resource_value = Some (uid_as_str target)\<rparr>\<rparr>,
               n, if generated then Some new_password else None))))"

definition post_user_password ::
  "(string \<Rightarrow> string option) \<Rightarrow> OperatorState \<Rightarrow> OperatorIdentity \<Rightarrow> string \<Rightarrow> string \<Rightarrow> AdminPasswordResetRequest \<Rightarrow> string
   \<Rightarrow> timestamp \<Rightarrow> OperatorState \<times> (ApiError, nat \<times> string option) result" where
  "post_user_password argon s identity remote user_id body fresh now =
     (if oi_role identity \<noteq> Superadmin then (s, Inl (api_rbac RoleRequired))
      else case parse_stored_user_id user_id of
        Inl e \<Rightarrow> (s, Inl (api_rbac e))
      | Inr target \<Rightarrow>
          let subject = uid_as_str target in
          (case reject_if_throttled (os_db s) subject remote PasswordReset now of
             Inl e \<Rightarrow> (s, Inl e)
           | Inr _ \<Rightarrow>
               (case reset_user_password argon s identity target body fresh now of
                  Inr (s, resp) \<Rightarrow> (s\<lparr>os_db := clear_login_attempts (os_db s) subject remote PasswordReset\<rparr>, Inr resp)
                | Inl err \<Rightarrow>
                    (s\<lparr>os_db := record_login_attempt_failure (os_db s) subject remote PasswordReset now\<rparr>, Inl err))))"

definition post_auth_logout ::
  "(string \<Rightarrow> u8 list) \<Rightarrow> string option \<Rightarrow> OperatorDb \<Rightarrow> HttpRequest \<Rightarrow> timestamp \<Rightarrow> OperatorDb \<times> (ApiError, unit) result" where
  "post_auth_logout hash_token public_origin db req now =
     (case cookie_value (rq_cookie req) SESSION_COOKIE of
        None \<Rightarrow> (db, Inl (ApiError 401 ''unauthenticated''))
      | Some secret \<Rightarrow>
          (case csrf_verify req public_origin of
             Inl e \<Rightarrow> (db, Inl (ApiError 403 (csrf_code e)))
           | Inr _ \<Rightarrow>
               (case verify_session_secret hash_token db secret now of
                  (db, Inl e) \<Rightarrow> (db, Inl (ApiError 401 ''credential_invalid''))
                | (db, Inr identity) \<Rightarrow>
                    (revoke_web_session db (hash_session_secret hash_token secret) now, Inr ()))))"

text \<open>The cookie a login sets, and the one a logout clears it with.\<close>

definition session_cookie :: "string \<Rightarrow> bool \<Rightarrow> string" where
  "session_cookie secret secure =
     SESSION_COOKIE @ ''='' @ secret @ ''; Path=/; HttpOnly; SameSite=Lax; Max-Age=604800'' @
     (if secure then ''; Secure'' else [])"

definition expired_session_cookie :: "bool \<Rightarrow> string" where
  "expired_session_cookie secure =
     SESSION_COOKIE @ ''=; Path=/; HttpOnly; SameSite=Lax; Max-Age=0'' @ (if secure then ''; Secure'' else [])"

section \<open>Facts about requests and identities\<close>

lemma get_user_Some: "get_user db uid = Some u \<Longrightarrow> \<exists>r \<in> set (db_users db). ur_user r = u \<and> u_id u = uid"
  by (auto simp: get_user_def find_Some_iff)

lemma get_user_exists: "user_exists db uid \<longleftrightarrow> get_user db uid \<noteq> None"
  by (auto simp: get_user_def user_exists_iff find_None_iff)

lemma strip_either:
  assumes "\<And>a b. p @ a \<noteq> q @ b"
  shows "(case strip_prefix p og of Some a \<Rightarrow> Some a | None \<Rightarrow> strip_prefix q og) = Some x \<longleftrightarrow> og = p @ x \<or> og = q @ x"
proof (cases "strip_prefix p og")
  case None
  then show ?thesis using strip_prefix_None [of p og] strip_prefix_Some [of q og x] by simp
next
  case (Some a)
  then have "og = p @ a" using strip_prefix_Some [of p og a] by simp
  then show ?thesis using assms Some by auto
qed

definition matches_host :: "string \<Rightarrow> string \<Rightarrow> bool" where
  "matches_host origin host \<longleftrightarrow> origin = ''http://'' @ host \<or> origin = ''https://'' @ host"

lemma same_origin_iff: "same_origin og req \<longleftrightarrow> (\<exists>host. rq_host req = Some host \<and> matches_host og host)"
proof -
  have "strip_scheme og = Some a \<longleftrightarrow> matches_host og a" for a
    unfolding strip_scheme_def matches_host_def by (rule strip_either) simp
  then show ?thesis by (cases "rq_host req"; cases "strip_scheme og") (auto simp: same_origin_def)
qed

text \<open>What a mutating request needs to pass: the right origin, the marker header, and a JSON body
  if it has one.\<close>

lemma csrf_verify_iff:
  "csrf_verify req expected = Inr () \<longleftrightarrow> \<not> requires_csrf (rq_method req) \<or>
     (\<exists>origin. rq_origin req = Some origin \<and>
        (case expected of Some e \<Rightarrow> origin = e
         | None \<Rightarrow> \<exists>host. rq_host req = Some host \<and> matches_host origin host)) \<and>
     rq_csrf req = Some ''1'' \<and>
     (request_has_body req \<longrightarrow> (\<exists>ct. rq_content_type req = Some ct \<and>
        eq_ignore_ascii_case (trim (hd (split_on CHR '';'' ct))) ''application/json''))"
  unfolding csrf_verify_def Let_def same_origin_iff
  by (cases expected; cases "rq_origin req"; cases "rq_csrf req"; cases "rq_content_type req")
    (simp_all add: ok_or_def)

lemma scan_sound:
  "scan_credentials needle cs m = Some (i, u) \<Longrightarrow>
     m = Some (i, u) \<or> (\<exists>c \<in> set cs. cr_id c = i \<and> cr_user_id c = u \<and> fp_hex (cr_token_hash c) = needle \<and> cr_status c = CredActive)"
  by (induction cs arbitrary: m) (fastforce simp: Let_def ct_eq_iff cred_is_active_def split: if_splits)+

lemma scan_complete:
  "\<exists>c \<in> set cs. fp_hex (cr_token_hash c) = needle \<and> cr_status c = CredActive \<Longrightarrow> scan_credentials needle cs m \<noteq> None"
proof (induction cs arbitrary: m)
  case (Cons c cs)
  have keep: "scan_credentials needle cs (Some x) \<noteq> None" for x
    by (induction cs arbitrary: x) (simp_all add: Let_def)
  show ?case using Cons keep by (auto simp: Let_def ct_eq_iff cred_is_active_def)
qed simp

lemma verify_token_sound:
  assumes "verify_token h db token now = (db', Inr ident)"
  shows "\<exists>user cred. get_user db (oi_user_id ident) = Some user \<and> \<not> u_disabled user \<and> u_role user = oi_role ident \<and>
     cred \<in> set (db_credentials db) \<and> cr_token_hash cred = h token \<and> cr_status cred = CredActive \<and>
     cr_user_id cred = oi_user_id ident \<and> db_users db' = db_users db"
proof -
  obtain i u user where *: "scan_credentials (fp_hex (h token)) (db_credentials db) None = Some (i, u)"
    "get_user db u = Some user" "\<not> u_disabled user" "ident = \<lparr>oi_user_id = u_id user, oi_role = u_role user\<rparr>"
    "db_users db' = db_users db"
    using assms by (auto simp: verify_token_def split: if_splits option.splits)
  have "u_id user = u" using get_user_Some [OF *(2)] by auto
  then show ?thesis using * scan_sound [OF *(1)] by (auto simp: fp_hex_inj)
qed

lemma verify_session_sound:
  assumes "verify_session_secret h db secret now = (db', Inr ident)"
  shows "\<exists>user row. get_user db (oi_user_id ident) = Some user \<and> \<not> u_disabled user \<and> u_role user = oi_role ident \<and>
     row \<in> set (db_sessions db) \<and> sr_hash row = fp_hex (h secret) \<and> sr_revoked_at row = None \<and>
     ws_user_id (sr_session row) = oi_user_id ident \<and> now \<le> ws_absolute_expires_at (sr_session row) \<and>
     now \<le> ws_last_seen_at (sr_session row) + IDLE_TIMEOUT \<and> db_users db' = db_users db"
proof -
  obtain row where row: "find (\<lambda>r. sr_hash r = fp_hex (h secret)) (db_sessions db) = Some row"
    "sr_revoked_at row = None"
    "\<not> session_is_expired (ws_last_seen_at (sr_session row)) (ws_absolute_expires_at (sr_session row)) now"
    and db': "db_users db' = db_users db"
    and user: "\<exists>user. get_user db' (ws_user_id (sr_session row)) = Some user \<and> \<not> u_disabled user \<and>
      ident = \<lparr>oi_user_id = u_id user, oi_role = u_role user\<rparr>"
    using assms
    by (auto simp: verify_session_secret_def verify_web_session_def hash_session_secret_def Let_def
        split: option.splits if_splits)
  obtain user where u: "get_user db (ws_user_id (sr_session row)) = Some user" "\<not> u_disabled user"
    "ident = \<lparr>oi_user_id = u_id user, oi_role = u_role user\<rparr>"
    using user db' by (auto simp: get_user_def)
  have "u_id user = ws_user_id (sr_session row)" using get_user_Some [OF u(1)] by auto
  moreover have "row \<in> set (db_sessions db)" "sr_hash row = fp_hex (h secret)"
    using row(1) by (auto simp: find_Some_iff)
  ultimately show ?thesis using u row(2,3) db' by (auto simp: session_is_expired_def not_less)
qed

end
