(* ===== verification/Auth_Guarantees.thy ===== *)
theory Auth_Guarantees
  imports Web_Auth
begin

text \<open>
  What authentication on the server guarantees: who gets past the middleware, how long a session
  lives, how fast passwords can be guessed, how often onboarding can happen, and the integrity
  of the operator store's tables under every sequence of its operations.
\<close>

section \<open>The middleware\<close>

lemma deny_fields [simp]: "os_db (deny s actor role req reason now) = os_db s"
  by (simp add: deny_def record_deny_def bump_request_def)

lemma password_change_required_iff:
  "password_change_required db identity = Some False \<longleftrightarrow>
     (\<exists>p. password_state db (oi_user_id identity) = Inr p \<and> (\<forall>q. p = Some q \<longrightarrow> \<not> ps_password_change_required q))"
  by (auto simp: password_change_required_def split: sum.splits option.splits)

lemma password_state_users: "db_users a = db_users b \<Longrightarrow> password_state a uid = password_state b uid"
  by (simp add: password_state_def)

text \<open>C3 (auth_middleware_sound): a request reaches a handler only with the identity of an existing,
  enabled user and that user's current role.  Either it carries the cookie of a session of that
  user that is neither revoked nor past its idle or absolute limit, passes the CSRF checks, and
  the user has no password change pending unless the route is one of the two exempt ones; or it
  carries no session cookie and a bearer token whose hash is that of an active credential of
  the user.\<close>

theorem auth_middleware_sound:
  assumes "auth_middleware h public_origin s req now = (s', AuthForwarded ident)"
  shows "\<exists>user. get_user (os_db s) (oi_user_id ident) = Some user \<and> \<not> u_disabled user \<and> u_role user = oi_role ident \<and>
    ((\<exists>secret row. cookie_value (rq_cookie req) SESSION_COOKIE = Some secret \<and>
        row \<in> set (db_sessions (os_db s)) \<and> sr_hash row = fp_hex (h secret) \<and> sr_revoked_at row = None \<and>
        ws_user_id (sr_session row) = oi_user_id ident \<and>
        now \<le> ws_absolute_expires_at (sr_session row) \<and> now \<le> ws_last_seen_at (sr_session row) + IDLE_TIMEOUT \<and>
        csrf_verify req public_origin = Inr () \<and>
        (password_change_route_allowed (rq_method req) (rq_path req) \<or>
         password_change_required (os_db s) ident = Some False)) \<or>
     (cookie_value (rq_cookie req) SESSION_COOKIE = None \<and>
      (\<exists>token cred. extract_bearer req = Inr token \<and> cred \<in> set (db_credentials (os_db s)) \<and>
        cr_token_hash cred = h token \<and> cr_status cred = CredActive \<and> cr_user_id cred = oi_user_id ident)))"
proof -
  obtain db m where auth: "authenticate_request h (os_db s) req now = (db, Inr (ident, m))"
    and passed: "m = AuthCookie \<Longrightarrow> csrf_verify req public_origin = Inr () \<and>
      (password_change_route_allowed (rq_method req) (rq_path req) \<or> password_change_required db ident = Some False)"
    using assms
    by (auto simp: auth_middleware_def Let_def split: if_splits prod.splits sum.splits option.splits bool.splits)
  show ?thesis
  proof (cases "cookie_value (rq_cookie req) SESSION_COOKIE")
    case (Some secret)
    then have v: "verify_session_secret h (os_db s) secret now = (db, Inr ident)" and m: "m = AuthCookie"
      using auth by (auto simp: authenticate_request_def rbind_Inr_iff split: prod.splits)
    have "password_change_required db ident = password_change_required (os_db s) ident"
      using verify_session_sound [OF v] password_state_users [of db "os_db s"] by (auto simp: password_change_required_def)
    then show ?thesis using verify_session_sound [OF v] passed [OF m] Some by auto
  next
    case None
    then obtain token where "extract_bearer req = Inr token" "verify_token h (os_db s) token now = (db, Inr ident)"
      using auth by (auto simp: authenticate_request_def rbind_Inr_iff split: prod.splits sum.splits)
    then show ?thesis using verify_token_sound None by blast
  qed
qed

definition sample_hash :: "string \<Rightarrow> u8 list" where
  "sample_hash s = map byte_of s"

definition alice :: User where
  "alice = \<lparr>u_id = UserId ''alice'', u_display_name = ''Alice'', u_role = Superadmin, u_created_at = 0, u_disabled = False\<rparr>"

definition alice_db :: OperatorDb where
  "alice_db = db_empty\<lparr>
     db_users := [\<lparr>ur_user = alice, ur_password_hash = Some ''pw'', ur_change_required = False\<rparr>],
     db_sessions := [\<lparr>sr_hash = fp_hex (sample_hash ''s3cret''),
        sr_session = \<lparr>ws_user_id = UserId ''alice'', ws_created_at = 0, ws_last_seen_at = 0,
          ws_absolute_expires_at = ABSOLUTE_TIMEOUT, ws_remote_addr = None, ws_user_agent = None\<rparr>,
        sr_revoked_at = None\<rparr>]\<rparr>"

definition alice_state :: OperatorState where
  "alice_state = \<lparr>os_db = alice_db, os_audit = audit_new, os_requests = (\<lambda>_. 0)\<rparr>"

definition alice_request :: HttpRequest where
  "alice_request = \<lparr>rq_method = GET, rq_path = ''/v1/rules'', rq_cookie = Some ''theme=dark; portunus_session=s3cret'',
     rq_authorization = None, rq_origin = None, rq_host = None, rq_csrf = None, rq_content_type = None,
     rq_content_length = None, rq_transfer_encoding = False\<rparr>"

theorem auth_middleware_sound_witness:
  "snd (auth_middleware sample_hash None alice_state alice_request 5) =
     AuthForwarded \<lparr>oi_user_id = UserId ''alice'', oi_role = Superadmin\<rparr> \<and>
   (\<exists>user. get_user alice_db (UserId ''alice'') = Some user \<and> \<not> u_disabled user \<and> u_role user = Superadmin)"
proof
  show run: "snd (auth_middleware sample_hash None alice_state alice_request 5) =
     AuthForwarded \<lparr>oi_user_id = UserId ''alice'', oi_role = Superadmin\<rparr>" by code_simp
  show "\<exists>user. get_user alice_db (UserId ''alice'') = Some user \<and> \<not> u_disabled user \<and> u_role user = Superadmin"
    using auth_middleware_sound [of sample_hash None alice_state alice_request 5
        "fst (auth_middleware sample_hash None alice_state alice_request 5)"
        "\<lparr>oi_user_id = UserId ''alice'', oi_role = Superadmin\<rparr>"] run
    by (auto simp: prod_eq_iff alice_state_def)
qed

text \<open>The ring holds the latest entries, in order, and counts the ones it dropped.\<close>

lemma audit_ring_latest:
  "foldl audit_push audit_new es =
     \<lparr>ar_entries = drop (length es - AUDIT_RING_CAPACITY) es, ar_drops = wrap64 (length es - AUDIT_RING_CAPACITY)\<rparr>"
proof (induction es rule: rev_induct)
  case (snoc e es)
  show ?case
  proof (cases "length es < AUDIT_RING_CAPACITY")
    case True
    then show ?thesis using snoc by (simp add: audit_push_def)
  next
    case False
    then obtain k where k: "length es = AUDIT_RING_CAPACITY + k" by (metis le_Suc_ex not_less)
    have "tl (drop k es) = drop (Suc k) es" by (simp add: drop_Suc tl_drop)
    moreover have "wrap64 (wrap64 k + 1) = wrap64 (Suc k)" by (simp add: wrap64_def mod_Suc_eq)
    moreover have "Suc 0 - AUDIT_RING_CAPACITY = 0" by (simp add: AUDIT_RING_CAPACITY_def)
    ultimately show ?thesis using snoc k by (simp add: audit_push_def Suc_diff_le)
  qed
qed (simp add: audit_new_def)

text \<open>The middleware leaves exactly one trace of every decision that
  matters: a denial appends a denial entry for the request's method and path to the audit ring
  and counts it under its reason; a forwarded request counts as allowed, and appends an entry
  naming the user it acts as exactly when its method changes state.\<close>

lemma auth_decisions_audited:
  "case auth_middleware h public_origin s req now of (s', outcome) \<Rightarrow>
     (case outcome of
        AuthDenied e \<Rightarrow> \<exists>actor role reason.
          os_audit s' = audit_push (os_audit s)
            \<lparr>ae_timestamp = now, ae_actor = actor, ae_role = role, ae_method = rq_method req, ae_path = rq_path req,
             ae_outcome = Deny, ae_reason = Some reason, ae_action = None, ae_resource_value = None\<rparr> \<and>
          os_requests s' = (os_requests s)((''deny'', reason) := os_requests s (''deny'', reason) + 1)
      | AuthForwarded ident \<Rightarrow>
          os_audit s' = (if rq_method req \<in> {POST, PUT, PATCH, DELETE}
            then audit_push (os_audit s)
              \<lparr>ae_timestamp = now, ae_actor = uid_as_str (oi_user_id ident), ae_role = Some (oi_role ident),
               ae_method = rq_method req, ae_path = rq_path req, ae_outcome = Allow, ae_reason = None,
               ae_action = None, ae_resource_value = None\<rparr>
            else os_audit s) \<and>
          os_requests s' = (os_requests s)((''allow'', ''ok'') := os_requests s (''allow'', ''ok'') + 1))"
proof -
  have d: "\<exists>a r q. os_audit (deny (s\<lparr>os_db := db\<rparr>) actor role req reason now) = audit_push (os_audit s)
            \<lparr>ae_timestamp = now, ae_actor = a, ae_role = r, ae_method = rq_method req, ae_path = rq_path req,
             ae_outcome = Deny, ae_reason = Some q, ae_action = None, ae_resource_value = None\<rparr> \<and>
          os_requests (deny (s\<lparr>os_db := db\<rparr>) actor role req reason now) =
            (os_requests s)((''deny'', q) := os_requests s (''deny'', q) + 1)" for db actor role reason
    by (auto simp: deny_def record_deny_def bump_request_def)
  have "s = s\<lparr>os_db := os_db s\<rparr>" by simp
  then show ?thesis
    using d [of "os_db s"] d
    by (auto simp: auth_middleware_def Let_def bump_request_def record_allow_def is_auditable_mutation_def
        split: prod.splits sum.splits option.splits bool.splits)
qed

section \<open>Sessions\<close>

definition dead :: "string \<Rightarrow> OperatorDb \<Rightarrow> bool" where
  "dead hs db \<longleftrightarrow> (\<forall>r \<in> set (db_sessions db). sr_hash r = hs \<longrightarrow> sr_revoked_at r \<noteq> None)"

lemma revoke_row_Some [simp]: "\<exists>y. sr_revoked_at (revoke_row now r) = Some y"
  using revoke_row_simps(3) by blast

lemma dead_subset: "dead hs db \<Longrightarrow> set (db_sessions db') \<subseteq> set (db_sessions db) \<Longrightarrow> dead hs db'"
  by (auto simp: dead_def)

lemma dead_revoke:
  "dead hs db \<Longrightarrow> db_sessions db' = map (\<lambda>r. if P r then revoke_row now r else r) (db_sessions db) \<Longrightarrow> dead hs db'"
  by (auto simp: dead_def)

lemma dead_verify: "dead hs db \<Longrightarrow> dead hs (fst (verify_web_session db h now)) \<and> snd (verify_web_session db hs now) = None"
  by (auto simp: dead_def verify_web_session_def Let_def find_Some_iff split: option.splits)

lemma keep_sessions: "(\<And>db'. r = Inr db' \<Longrightarrow> db_sessions db' = db_sessions db) \<Longrightarrow> db_sessions (keep db r) = db_sessions db"
  by (simp add: keep_def split: sum.splits)

lemma insert_user_sessions: "insert_user db u = Inr db' \<Longrightarrow> db_sessions db' = db_sessions db"
  by (auto simp: insert_user_def split: if_splits)

lemma insert_credential_sessions: "insert_credential db c = Inr db' \<Longrightarrow> db_sessions db' = db_sessions db"
  by (auto simp: insert_credential_def split: if_splits)

lemma insert_pair_sessions:
  "rbind (insert_user db u) (\<lambda>db. insert_credential db c) = Inr db' \<Longrightarrow> db_sessions db' = db_sessions db"
  using insert_user_sessions insert_credential_sessions by (fastforce simp: rbind_Inr_iff)

text \<open>Operations other than those on sessions, and the removal of a user, leave the sessions alone.\<close>

fun touches_sessions :: "db_op \<Rightarrow> bool" where
  "touches_sessions (OpResetPassword u p q r now) = True"
| "touches_sessions (OpCreateSession hs u c a ra ua) = True"
| "touches_sessions (OpVerifySession hs now) = True"
| "touches_sessions (OpRevokeSession hs now) = True"
| "touches_sessions (OpRevokeUserSessions u now) = True"
| "touches_sessions (OpPruneSessions now) = True"
| "touches_sessions (OpRemoveUser u) = True"
| "touches_sessions _ = False"

lemma legacy_sessions:
  "bootstrap_legacy_superadmin h db t i now = Inr db' \<Longrightarrow> db_sessions db' = db_sessions db"
  unfolding bootstrap_legacy_superadmin_def Let_def
  by (simp only: map_err_Inr_iff split: if_splits, blast, blast, rule insert_pair_sessions, assumption)

lemma other_ops_sessions: "\<not> touches_sessions op \<Longrightarrow> db_sessions (db_apply h db op) = db_sessions db"
proof (induction h db op rule: db_apply.induct)
  case (13 h db t i now)
  show ?case unfolding db_apply.simps by (rule keep_sessions) (rule legacy_sessions)
next
  case (12 h db u c)
  show ?case unfolding db_apply.simps
    by (rule keep_sessions) (auto simp: bootstrap_pair_def dest: insert_pair_sessions split: if_splits)
next
  case (14 h db u p t now)
  show ?case unfolding db_apply.simps
    by (rule keep_sessions)
      (auto simp: onboard_first_superadmin_def rbind_Inr_iff clear_onboarding_setup_token_def
        dest: insert_user_sessions split: if_splits)
next
  case (15 h db u)
  show ?case unfolding db_apply.simps
    by (rule keep_sessions) (auto simp: add_user_def dest: insert_user_sessions split: if_splits)
next
  case (16 h db u p q)
  show ?case unfolding db_apply.simps
    by (rule keep_sessions)
      (auto simp: add_user_with_password_def rbind_Inr_iff dest: insert_user_sessions split: if_splits option.splits)
next
  case (18 h db g)
  show ?case unfolding db_apply.simps
    by (rule keep_sessions) (auto simp: add_grant_def insert_grant_def split: if_splits)
next
  case (19 h db g)
  show ?case by (auto simp: keep_fst_def revoke_grant_def split: option.splits)
next
  case (1 h db u p q)
  show ?case unfolding db_apply.simps by (rule keep_sessions) (auto simp: set_password_hash_def split: if_splits)
qed (simp_all add: rotate_onboarding_setup_token_def clear_onboarding_setup_token_def
    record_login_attempt_failure_def clear_login_attempts_def verify_token_def split: option.splits)

lemma dead_step:
  assumes d: "dead hs db" and n: "\<And>u c a ra ua. op \<noteq> OpCreateSession hs u c a ra ua"
  shows "dead hs (db_apply h db op)"
proof (cases "touches_sessions op")
  case False
  then show ?thesis using other_ops_sessions [OF False, of h db] d by (simp add: dead_def)
next
  case True
  then show ?thesis using d
  proof (cases op)
    case (OpResetPassword u p q r now)
    then show ?thesis using d
      by (auto simp: keep_fst_def reset_password_state_def Let_def dead_def split: if_splits)
  next
    case (OpCreateSession k u c a ra ua)
    then have "k \<noteq> hs" using n by blast
    then show ?thesis using d OpCreateSession by (auto simp: keep_def create_web_session_def dead_def)
  next
    case (OpRevokeUserSessions u now)
    then show ?thesis using d by (auto simp: keep_def revoke_web_sessions_for_user_def dead_def)
  qed (auto simp: dead_verify revoke_web_session_def prune_expired_web_sessions_def Let_def keep_fst_def remove_user_def
      intro: dead_subset dead_revoke)
qed

lemma dead_run:
  "dead hs db \<Longrightarrow> (\<forall>op \<in> set ops. \<forall>u c a ra ua. op \<noteq> OpCreateSession hs u c a ra ua) \<Longrightarrow>
     dead hs (foldl (db_apply h) db ops)"
  by (induction ops arbitrary: db) (simp_all add: dead_step)

lemma reset_sessions:
  "reset_password_state db u p q True now = Inr (db', n) \<Longrightarrow>
     db_sessions db' = map (\<lambda>r. if ws_user_id (sr_session r) = u \<and> sr_revoked_at r = None then revoke_row now r else r)
       (db_sessions db)"
  by (auto simp: reset_password_state_def Let_def split: if_splits)

lemma dead_logout: "dead hs (revoke_web_session db hs now)"
  unfolding dead_def
proof (intro ballI impI)
  fix y
  assume y: "y \<in> set (db_sessions (revoke_web_session db hs now))" "sr_hash y = hs"
  then have "y \<in> (\<lambda>r. if sr_hash r = hs then revoke_row now r else r) ` set (db_sessions db)"
    unfolding revoke_web_session_def by simp
  then obtain x where x: "y = (if sr_hash x = hs then revoke_row now x else x)" by (rule imageE)
  then have "sr_hash x = hs" using y(2) by (simp split: if_splits)
  then show "sr_revoked_at y \<noteq> None" using x by simp
qed

text \<open>C23 (revoked_sessions_stay_dead): after a logout or an administrator's password reset, the
  sessions concerned never authenticate again, whatever operations follow, as long as no new
  session is stored under the same hash.\<close>

theorem revoked_sessions_stay_dead:
  assumes "\<forall>op \<in> set ops. \<forall>u c a ra ua. op \<noteq> OpCreateSession hs u c a ra ua"
    and "db' = revoke_web_session db hs now \<or>
      (\<exists>n u p q. reset_password_state db u p q True now = Inr (db', n) \<and>
         (\<forall>r \<in> set (db_sessions db). sr_hash r = hs \<longrightarrow> ws_user_id (sr_session r) = u))"
  shows "snd (verify_web_session (foldl (db_apply h) db' ops) hs later) = None"
proof -
  have "dead hs db'"
    using assms(2)
  proof
    assume "db' = revoke_web_session db hs now"
    then show ?thesis by (simp only: dead_logout)
  next
    assume "\<exists>n u p q. reset_password_state db u p q True now = Inr (db', n) \<and>
         (\<forall>r \<in> set (db_sessions db). sr_hash r = hs \<longrightarrow> ws_user_id (sr_session r) = u)"
    then obtain n u p q where r: "reset_password_state db u p q True now = Inr (db', n)"
      and u: "\<forall>r \<in> set (db_sessions db). sr_hash r = hs \<longrightarrow> ws_user_id (sr_session r) = u" by blast
    show ?thesis
      unfolding dead_def reset_sessions [OF r]
    proof (intro ballI impI)
      fix y
      assume y: "y \<in> set (map (\<lambda>r. if ws_user_id (sr_session r) = u \<and> sr_revoked_at r = None then revoke_row now r else r)
          (db_sessions db))" "sr_hash y = hs"
      then have "y \<in> (\<lambda>r. if ws_user_id (sr_session r) = u \<and> sr_revoked_at r = None then revoke_row now r else r) `
          set (db_sessions db)" by (simp only: set_map)
      then obtain x where x: "x \<in> set (db_sessions db)"
        "y = (if ws_user_id (sr_session x) = u \<and> sr_revoked_at x = None then revoke_row now x else x)"
        by (rule imageE)
      have "sr_hash x = hs" using x(2) y(2) by (simp split: if_splits)
      then have "ws_user_id (sr_session x) = u" using u x(1) by simp
      then show "sr_revoked_at y \<noteq> None" using x(2) by simp
    qed
  qed
  then have "dead hs (foldl (db_apply h) db' ops)" by (rule dead_run) (rule assms(1))
  then show ?thesis by (rule conjunct2 [OF dead_verify])
qed

theorem revoked_sessions_stay_dead_witness:
  "snd (verify_web_session alice_db (fp_hex (sample_hash ''s3cret'')) 2) \<noteq> None \<and>
   snd (verify_web_session (foldl (db_apply sample_hash)
       (revoke_web_session alice_db (fp_hex (sample_hash ''s3cret'')) 1) [OpSetPassword (UserId ''alice'') ''x'' True])
     (fp_hex (sample_hash ''s3cret'')) 2) = None"
proof
  show "snd (verify_web_session alice_db (fp_hex (sample_hash ''s3cret'')) 2) \<noteq> None" by code_simp
  show "snd (verify_web_session (foldl (db_apply sample_hash)
       (revoke_web_session alice_db (fp_hex (sample_hash ''s3cret'')) 1) [OpSetPassword (UserId ''alice'') ''x'' True])
     (fp_hex (sample_hash ''s3cret'')) 2) = None"
    by (rule revoked_sessions_stay_dead) auto
qed

section \<open>Guessing passwords\<close>

lemma is_locked_effective [simp]: "is_locked (effective_at d now) now = is_locked d now"
  by (simp add: effective_at_def is_locked_def)

lemma record_failure_unlocked:
  assumes "\<not> is_locked d now"
  shows "td_record_failure d now =
    (let fresh = (td_locked_until d \<noteq> None \<or>
           (\<exists>f. td_last_failed_at d = Some f \<and> f + seconds FAILURE_WINDOW_SECONDS \<le> now));
         n = (if fresh then 1 else sat_add32 (td_failures d) 1)
     in \<lparr>td_failures = n,
         td_first_failed_at = (if fresh then Some now else case td_first_failed_at d of None \<Rightarrow> Some now | Some f \<Rightarrow> Some f),
         td_last_failed_at = Some now,
         td_locked_until = (if n < LOCK_AFTER_FAILURES then None else Some (now + seconds (lockout_seconds n)))\<rparr>)"
  using assms
  by (auto simp: td_record_failure_def is_locked_def td_default_def Let_def sat_add32_def u32_max_def LOCK_AFTER_FAILURES_def
      not_less split: option.splits)

text \<open>The rows that logins leave behind.\<close>

definition row_ok :: "ThrottleDecision \<Rightarrow> bool" where
  "row_ok d \<longleftrightarrow> td_failures d \<le> LOCK_AFTER_FAILURES \<and>
     (td_failures d < LOCK_AFTER_FAILURES \<longrightarrow> td_locked_until d = None) \<and>
     (td_failures d = LOCK_AFTER_FAILURES \<longrightarrow>
        (\<exists>t. td_last_failed_at d = Some t \<and> td_locked_until d = Some (t + seconds LOCKOUT_SECONDS)))"

lemma row_ok_default: "row_ok td_default"
  by (simp add: row_ok_def td_default_def LOCK_AFTER_FAILURES_def)

lemma lockout_first: "lockout_seconds LOCK_AFTER_FAILURES = LOCKOUT_SECONDS"
  by (simp add: lockout_seconds_def LOCKOUT_SECONDS_def MAX_LOCKOUT_SECONDS_def)

lemma row_ok_failure:
  assumes "row_ok d" and "\<not> is_locked d now"
  shows "row_ok (td_record_failure d now)"
proof -
  let ?fresh = "td_locked_until d \<noteq> None \<or> (\<exists>f. td_last_failed_at d = Some f \<and> f + seconds FAILURE_WINDOW_SECONDS \<le> now)"
  let ?n = "if ?fresh then 1 else sat_add32 (td_failures d) 1"
  have n: "?n \<le> LOCK_AFTER_FAILURES"
    using assms(1) by (auto simp: row_ok_def sat_add32_def LOCK_AFTER_FAILURES_def)
  then have "?n \<noteq> LOCK_AFTER_FAILURES \<Longrightarrow> ?n < LOCK_AFTER_FAILURES" by linarith
  then show ?thesis
    using n lockout_first unfolding record_failure_unlocked [OF assms(2)] Let_def row_ok_def by auto
qed

text \<open>One login request: the time, the body, the address, the user agent and the generated secret.\<close>

type_synonym login_event = "timestamp \<times> LoginRequest \<times> string \<times> string option \<times> string"

definition login_step ::
  "(string \<Rightarrow> u8 list) \<Rightarrow> (string \<Rightarrow> string \<Rightarrow> bool) \<Rightarrow> OperatorDb \<Rightarrow> login_event \<Rightarrow> OperatorDb" where
  "login_step h v db e = (case e of (now, body, remote, agent, secret) \<Rightarrow> fst (post_auth_login h v db body now remote agent secret))"

lemma auth_login_attempts:
  "authenticate_login h v db body now remote agent secret = Inr (db', q) \<Longrightarrow> db_attempts db' = db_attempts db"
  by (auto simp: authenticate_login_def create_web_session_def rbind_Inr_iff
      split: sum.splits option.splits if_splits)

lemma attempt_row_record:
  "attempt_row (record_login_attempt_failure db sub rem Login now) sub' rem' Login =
     (if (sub', rem') = (sub, rem) then td_record_failure (attempt_row db sub rem Login) now else attempt_row db sub' rem' Login)"
  by (auto simp: attempt_row_def record_login_attempt_failure_def update_conv')

lemma attempt_row_clear:
  "attempt_row (clear_login_attempts db sub rem Login) sub' rem' Login =
     (if (sub', rem') = (sub, rem) then td_default else attempt_row db sub' rem' Login)"
  by (auto simp: attempt_row_def clear_login_attempts_def delete_conv')

lemma login_row:
  "attempt_row (fst (post_auth_login h v db body now remote agent secret)) sub rem Login =
     (if (sub, rem) \<noteq> (login_throttle_subject (lr_user_id body), remote) \<or> is_locked (attempt_row db sub rem Login) now
      then attempt_row db sub rem Login
      else case authenticate_login h v db body now remote agent secret of
        Inl e \<Rightarrow> td_record_failure (attempt_row db sub rem Login) now
      | Inr _ \<Rightarrow> td_default)"
proof -
  have a: "attempt_row d sub rem Login = attempt_row db sub rem Login"
    if "authenticate_login h v db body now remote agent secret = Inr (d, q)" for d q
    using auth_login_attempts [OF that] by (simp add: attempt_row_def)
  show ?thesis
    by (auto simp: post_auth_login_def Let_def reject_if_throttled_def login_attempt_state_def attempt_row_record
        attempt_row_clear a split: sum.splits)
qed

lemma login_step_row_ok:
  "row_ok (attempt_row db sub rem Login) \<Longrightarrow> row_ok (attempt_row (login_step h v db e) sub rem Login)"
  by (cases e) (auto simp: login_step_def login_row row_ok_default row_ok_failure split: sum.splits)

text \<open>Under any sequence of logins, one at a time, a lock always
  ends one minute after the failure that set it.  A locked request is refused without being
  counted, and the first failure after a lock starts a new count, so the count never passes
  five and the doubling of the lock up to fifteen minutes never happens.\<close>

lemma login_lockout_never_escalates:
  "let row = attempt_row (foldl (login_step h v) (db\<lparr>db_attempts := []\<rparr>) es) sub rem Login in
   td_failures row \<le> 5 \<and>
   (td_locked_until row = None \<or>
    (\<exists>t. td_last_failed_at row = Some t \<and> td_locked_until row = Some (t + seconds 60)))"
proof -
  have "row_ok (attempt_row (foldl (login_step h v) (db\<lparr>db_attempts := []\<rparr>) es) sub rem Login)"
  proof (induction es rule: rev_induct)
    case Nil
    show ?case using row_ok_default by (simp add: attempt_row_def)
  next
    case (snoc e es)
    then show ?case by (simp add: login_step_row_ok)
  qed
  then show ?thesis by (auto simp: Let_def row_ok_def LOCK_AFTER_FAILURES_def LOCKOUT_SECONDS_def le_less)
qed

text \<open>The times of the wrong passwords tried on one account from one address since the last login
  that succeeded there.\<close>

definition guess_step ::
  "(string \<Rightarrow> u8 list) \<Rightarrow> (string \<Rightarrow> string \<Rightarrow> bool) \<Rightarrow> string \<Rightarrow> string
   \<Rightarrow> OperatorDb \<times> timestamp list \<Rightarrow> login_event \<Rightarrow> OperatorDb \<times> timestamp list" where
  "guess_step h v sub rem st e =
     (case (st, e) of ((db, log), (now, body, remote, agent, secret)) \<Rightarrow>
       (login_step h v db e,
        if (sub, rem) \<noteq> (login_throttle_subject (lr_user_id body), remote) \<or> is_locked (attempt_row db sub rem Login) now
        then log
        else case authenticate_login h v db body now remote agent secret of
          Inl err \<Rightarrow> log @ [now]
        | Inr _ \<Rightarrow> []))"

definition guess_inv :: "ThrottleDecision \<Rightarrow> timestamp list \<Rightarrow> bool" where
  "guess_inv d log \<longleftrightarrow> row_ok d \<and> sorted log \<and> td_failures d \<le> length log \<and>
     (log = [] \<longrightarrow> d = td_default) \<and>
     (log \<noteq> [] \<longrightarrow> 0 < td_failures d \<and> td_last_failed_at d = Some (last log)) \<and>
     (\<forall>i j. i < length log - td_failures d \<longrightarrow> length log - td_failures d \<le> j \<longrightarrow> j < length log \<longrightarrow>
        log ! i + seconds LOCKOUT_SECONDS \<le> log ! j) \<and>
     (\<forall>i. i + LOCK_AFTER_FAILURES < length log \<longrightarrow>
        log ! i + seconds LOCKOUT_SECONDS \<le> log ! (i + LOCK_AFTER_FAILURES))"

lemma guess_inv_default: "guess_inv td_default []"
  by (simp add: guess_inv_def row_ok_default) (simp add: td_default_def)

lemma guess_far:
  assumes J: "guess_inv d log" and "\<not> is_locked d now" and le: "\<forall>t \<in> set log. t \<le> now"
    and fresh: "td_locked_until d \<noteq> None \<or> (\<exists>f. td_last_failed_at d = Some f \<and> f + seconds FAILURE_WINDOW_SECONDS \<le> now)"
    and i: "i < length log"
  shows "log ! i + seconds LOCKOUT_SECONDS \<le> now"
proof -
  have ne: "log \<noteq> []" using i by auto
  have lst: "td_last_failed_at d = Some (last log)" and rok: "row_ok d" and srt: "sorted log"
    using J ne by (simp_all add: guess_inv_def)
  have "log ! i \<le> log ! (length log - 1)" using srt i by (intro sorted_nth_mono) auto
  then have "log ! i \<le> last log" using ne by (simp add: last_conv_nth)
  moreover have "last log + seconds LOCKOUT_SECONDS \<le> now"
  proof (cases "td_locked_until d")
    case None
    then show ?thesis using fresh lst by (simp add: FAILURE_WINDOW_SECONDS_def LOCKOUT_SECONDS_def)
  next
    case (Some l)
    then have "td_failures d = LOCK_AFTER_FAILURES" using rok by (auto simp: row_ok_def le_less)
    then have "l = last log + seconds LOCKOUT_SECONDS" using rok lst Some by (auto simp: row_ok_def)
    then show ?thesis using assms(2) Some by (simp add: is_locked_def)
  qed
  ultimately show ?thesis by linarith
qed

lemma guess_inv_failure:
  assumes J: "guess_inv d log" and u: "\<not> is_locked d now" and le: "\<forall>t \<in> set log. t \<le> now"
  shows "guess_inv (td_record_failure d now) (log @ [now])"
proof -
  let ?d = "td_record_failure d now" and ?n = "length log"
  let ?fresh = "td_locked_until d \<noteq> None \<or> (\<exists>f. td_last_failed_at d = Some f \<and> f + seconds FAILURE_WINDOW_SECONDS \<le> now)"
  define f where "f = (if ?fresh then 0 else td_failures d)"
  have rok: "row_ok d" "row_ok ?d" using J row_ok_failure [OF _ u] by (simp_all add: guess_inv_def)
  have f4: "f < LOCK_AFTER_FAILURES" "f \<le> ?n"
    using rok(1) J by (auto simp: f_def row_ok_def guess_inv_def LOCK_AFTER_FAILURES_def le_less)
  have d: "td_failures ?d = f + 1" "td_last_failed_at ?d = Some now"
    using f4 unfolding record_failure_unlocked [OF u] Let_def f_def
    by (auto simp: sat_add32_def u32_max_def LOCK_AFTER_FAILURES_def min_def split: if_splits)
  have far: "log ! i + seconds LOCKOUT_SECONDS \<le> now" if i: "i < ?n - f" for i
  proof (cases ?fresh)
    case True
    then show ?thesis using guess_far [OF J u le True] i by simp
  next
    case False
    then have fd: "f = td_failures d" by (auto simp: f_def)
    have "0 < td_failures d" using J i by (auto simp: guess_inv_def)
    then have "log ! i + seconds LOCKOUT_SECONDS \<le> log ! (?n - 1)"
      using J i fd f4(2) by (auto simp: guess_inv_def)
    moreover have "log ! (?n - 1) \<le> now" using le i by (auto intro!: nth_mem)
    ultimately show ?thesis by linarith
  qed
  have old: "log ! i + seconds LOCKOUT_SECONDS \<le> log ! j" if "i < ?n - f" "?n - f \<le> j" "j < ?n" for i j
    using J that by (auto simp: guess_inv_def f_def split: if_splits)
  show ?thesis
    unfolding guess_inv_def length_append d
  proof (intro conjI allI impI)
    show "sorted (log @ [now])" using J le by (simp add: guess_inv_def sorted_append)
    show "(log @ [now]) ! i + seconds LOCKOUT_SECONDS \<le> (log @ [now]) ! j"
      if "i < ?n + length [now] - (f + 1)" "?n + length [now] - (f + 1) \<le> j" "j < ?n + length [now]" for i j
      using that far [of i] old [of i j] by (cases "j = ?n") (auto simp: nth_append)
    show "(log @ [now]) ! i + seconds LOCKOUT_SECONDS \<le> (log @ [now]) ! (i + LOCK_AFTER_FAILURES)"
      if "i + LOCK_AFTER_FAILURES < ?n + length [now]" for i
    proof (cases "i + LOCK_AFTER_FAILURES = ?n")
      case True
      then show ?thesis using far [of i] f4(1) by (simp add: nth_append)
    next
      case False
      then show ?thesis using J that by (simp add: guess_inv_def nth_append)
    qed
  qed (use rok f4 in auto)
qed

lemma guess_inv_step:
  assumes "guess_inv (attempt_row db sub rem Login) log" and "\<forall>t \<in> set log. t \<le> fst e"
    and "guess_step h v sub rem (db, log) e = (db', log')"
  shows "guess_inv (attempt_row db' sub rem Login) log' \<and> (\<forall>t \<in> set log'. t \<le> fst e) \<and> db' = login_step h v db e"
  using assms guess_inv_default guess_inv_failure [OF assms(1) _ assms(2)]
  by (cases e) (auto simp: guess_step_def login_step_def login_row split: if_splits sum.splits)


definition guess :: "timestamp \<Rightarrow> login_event" where
  "guess t = (seconds t, \<lparr>lr_user_id = ''alice'', lr_password = ''nope''\<rparr>, ''10.0.0.7'', None, ''s'')"

lemma guess_fails:
  assumes "db_users db = db_users alice_db"
  shows "guess_step sample_hash (\<lambda>a b. a = b) ''alice'' ''10.0.0.7'' (db, log) (guess t) =
    (if is_locked (attempt_row db ''alice'' ''10.0.0.7'' Login) (seconds t) then (db, log)
     else (record_login_attempt_failure db ''alice'' ''10.0.0.7'' Login (seconds t), log @ [seconds t]))"
proof -
  have sub: "login_throttle_subject ''alice'' = ''alice''" by code_simp
  have uid: "parse_stored_user_id ''alice'' = Inr (UserId ''alice'')" by code_simp
  have "authenticate_login sample_hash (\<lambda>a b. a = b) db \<lparr>lr_user_id = ''alice'', lr_password = ''nope''\<rparr> (seconds t) ''10.0.0.7'' None ''s''
      = Inl invalid_login"
    using assms by (simp add: authenticate_login_def uid get_user_def password_state_def alice_db_def alice_def)
  then show ?thesis
    by (simp add: guess_step_def guess_def login_step_def post_auth_login_def Let_def sub reject_if_throttled_def
        login_attempt_state_def)
qed

lemma record_users [simp]: "db_users (record_login_attempt_failure db sub rem act now) = db_users db"
  by (simp add: record_login_attempt_failure_def)


section \<open>Onboarding\<close>

lemma set_password_absent:
  assumes "\<not> user_exists db uid"
  shows "map (\<lambda>r. if u_id (ur_user r) = uid then r\<lparr>ur_password_hash := Some p, ur_change_required := q\<rparr> else r)
      (db_users db) = db_users db"
proof -
  have "\<forall>r \<in> set (db_users db). u_id (ur_user r) \<noteq> uid" using assms by (simp add: user_exists_iff fresh_image)
  then show ?thesis by (intro map_idI) simp
qed

lemma onboard_exact:
  "onboard_first_superadmin h db user p t now = Inr db' \<longleftrightarrow>
     u_role user = Superadmin \<and> \<not> has_any_superadmin db \<and> verify_onboarding_setup_token h db t now \<and>
     \<not> user_exists db (u_id user) \<and>
     db' = db\<lparr>db_users := db_users db @ [\<lparr>ur_user = user, ur_password_hash = Some p, ur_change_required = False\<rparr>],
              db_setup := None\<rparr>"
proof (cases "user_exists db (u_id user)")
  case False
  show ?thesis
    using set_password_absent [OF False, where p = p and q = False] False
    by (simp add: onboard_first_superadmin_def insert_user_def rbind_Inr_iff set_password_def
        clear_onboarding_setup_token_def has_any_superadmin_def) (auto split: if_splits)
qed (simp add: onboard_first_superadmin_def)

text \<open>C25 (onboarding_happens_once): onboarding succeeds only while no active superadmin exists and only
  with the stored setup token, before it expires.  It adds exactly one row, an active superadmin
  with the hash of the chosen password, deletes the setup token, and every later onboarding
  request is refused without a change.\<close>

theorem onboarding_happens_once:
  assumes "post_auth_onboarding h argon db body now remote = (db', Inr user)"
  shows "\<not> has_any_superadmin db \<and>
    (\<exists>t r. ob_setup_token body = Some t \<and> db_setup db = Some r \<and> now < st_expires_at r \<and> st_hash_hex r = fp_hex (h t)) \<and>
    u_role user = Superadmin \<and> \<not> u_disabled user \<and> uid_as_str (u_id user) = ob_user_id body \<and>
    (\<exists>p. argon (ob_password body) = Some p \<and>
       db_users db' = db_users db @ [\<lparr>ur_user = user, ur_password_hash = Some p, ur_change_required = False\<rparr>]) \<and>
    db_setup db' = None \<and> db_sessions db' = db_sessions db \<and> db_credentials db' = db_credentials db \<and>
    (\<forall>body' now' remote'. post_auth_onboarding h argon db' body' now' remote' = (db', Inl already_bootstrapped))"
proof -
  obtain t p where t: "ob_setup_token body = Some t" "verify_onboarding_setup_token h db t now"
    and u: "build_onboarding_user argon body now = Inr (user, p)"
    and o: "onboard_first_superadmin h db user p t now =
        Inr (db\<lparr>db_users := db_users db @ [\<lparr>ur_user = user, ur_password_hash = Some p, ur_change_required = False\<rparr>],
              db_setup := None\<rparr>)"
    and db': "\<not> has_any_superadmin db"
      "db' = clear_login_attempts (db\<lparr>db_users := db_users db @ [\<lparr>ur_user = user, ur_password_hash = Some p, ur_change_required = False\<rparr>],
              db_setup := None\<rparr>) (onboarding_throttle_subject (ob_setup_token body)) remote Onboarding"
    using assms
    by (auto simp: post_auth_onboarding_def Let_def map_err_Inr_iff rbind_Inr_iff verify_setup_token_for_hashing_def onboard_exact
        split: if_splits sum.splits option.splits)
  have user: "u_role user = Superadmin" "\<not> u_disabled user" "uid_as_str (u_id user) = ob_user_id body" "argon (ob_password body) = Some p"
    using u by (auto simp: build_onboarding_user_def Let_def rbind_Inr_iff map_err_Inr_iff hash_password_def uid_from_str_iff
        ok_or_def split: if_splits option.splits)
  have "has_any_superadmin db'"
    using user by (simp add: db'(2) has_any_superadmin_def count_superadmins_def clear_login_attempts_def active_superadmin_def)
  then show ?thesis
    using t user db' by (auto simp: verify_onboarding_setup_token_def setup_token_verify_iff clear_login_attempts_def
        post_auth_onboarding_def split: option.splits)
qed

definition first_boot :: OperatorDb where
  "first_boot = rotate_onboarding_setup_token sample_hash db_empty ''token'' 0"

definition root_request :: OnboardingRequest where
  "root_request = \<lparr>ob_user_id = ''alice'', ob_display_name = '' Alice '', ob_password = ''correct horse'',
     ob_password_confirm = ''correct horse'', ob_setup_token = Some ''token''\<rparr>"

theorem onboarding_happens_once_witness:
  "snd (post_auth_onboarding sample_hash Some first_boot root_request 5 ''10.0.0.7'') =
     Inr \<lparr>u_id = UserId ''alice'', u_display_name = ''Alice'', u_role = Superadmin, u_created_at = 5, u_disabled = False\<rparr> \<and>
   db_setup (fst (post_auth_onboarding sample_hash Some first_boot root_request 5 ''10.0.0.7'')) = None"
proof
  let ?r = "post_auth_onboarding sample_hash Some first_boot root_request 5 ''10.0.0.7''"
  show run: "snd ?r = Inr \<lparr>u_id = UserId ''alice'', u_display_name = ''Alice'', u_role = Superadmin,
    u_created_at = 5, u_disabled = False\<rparr>" by code_simp
  show "db_setup (fst ?r) = None"
    using onboarding_happens_once [of sample_hash Some first_boot root_request 5 "''10.0.0.7''" "fst ?r"] run
    by (metis prod.collapse)
qed

section \<open>Integrity of the operator tables\<close>

text \<open>C17 (operator_store_integrity): whatever sequence of store operations ran, user ids, credential ids,
  token hashes, grant ids and session hashes are unique, every credential, grant and session
  belongs to a user that exists, and every grant's port range is non-empty and starts above
  port zero.\<close>

theorem operator_store_integrity:
  "let db = foldl (db_apply h) db_empty ops; ids = (\<lambda>r. u_id (ur_user r)) ` set (db_users db) in
   distinct (map (\<lambda>r. u_id (ur_user r)) (db_users db)) \<and>
   distinct (map cr_id (db_credentials db)) \<and> distinct (map cr_token_hash (db_credentials db)) \<and>
   distinct (map g_id (db_grants db)) \<and> distinct (map sr_hash (db_sessions db)) \<and>
   cr_user_id ` set (db_credentials db) \<subseteq> ids \<and> g_user_id ` set (db_grants db) \<subseteq> ids \<and>
   (\<lambda>r. ws_user_id (sr_session r)) ` set (db_sessions db) \<subseteq> ids \<and>
   (\<lambda>g. (g_listen_port_start g, g_listen_port_end g)) ` set (db_grants db) \<subseteq> {(a, b). a \<noteq> 0 \<and> a \<le> b}"
  using db_wf_run [of h ops] unfolding db_wf_def user_exists_iff Let_def
  by (auto simp del: db_apply.simps)

end
