(* ===== verification/Rule_Store.thy ===== *)
theory Rule_Store
  imports Identity Port_Range Rate_Limit
begin

text \<open>
  The server's rule registry, crates/portunus-server/src/rules.rs.  The hash map of rules and the
  per-client interval index are association lists with one entry per key; the ordered walk over
  the index is the sorted list of its entries.  Every operation holds the write lock for its
  whole body, so each is one step.  The arguments of a push are collected in a record.
\<close>

section \<open>Rules\<close>

datatype RuleState = RsPending | RsActive | RsFailed string | RsRemoved

record Rule =
  r_id :: nat
  r_client_id :: ClientId
  r_client_name :: ClientName
  r_listen_port :: u16
  r_listen_port_end :: "u16 option"
  r_target_host :: string
  r_target_port :: u16
  r_target_port_end :: "u16 option"
  r_prefer_ipv6 :: "bool option"
  r_protocol :: Protocol
  r_state :: RuleState
  r_created_at :: timestamp
  r_last_state_change_at :: timestamp
  r_owner :: UserId
  r_targets :: "RuleTarget list"
  r_health_check :: "nat option"
  r_sni :: "string option"
  r_rate_limit :: "RateLimit option"

definition range_or_single :: "u16 \<Rightarrow> u16 option \<Rightarrow> PortRange" where
  "range_or_single port port_end =
     (case port_end of
        Some e \<Rightarrow> if e > port then (case pr_new port e of Inr r \<Rightarrow> r | Inl _ \<Rightarrow> pr_single port) else pr_single port
      | None \<Rightarrow> pr_single port)"

definition listen_range :: "Rule \<Rightarrow> PortRange" where
  "listen_range r = range_or_single (r_listen_port r) (r_listen_port_end r)"

definition target_range :: "Rule \<Rightarrow> PortRange" where
  "target_range r = range_or_single (r_target_port r) (r_target_port_end r)"

definition range_size :: "Rule \<Rightarrow> u32" where
  "range_size r = pr_len (listen_range r)"

definition is_range :: "Rule \<Rightarrow> bool" where
  "is_range r \<longleftrightarrow> range_size r > 1"

definition targets_view :: "Rule \<Rightarrow> RuleTarget list" where
  "targets_view r =
     (if r_targets r = []
      then [\<lparr>rt_host = r_target_host r, rt_port = r_target_port r, rt_priority = 0, rt_proxy_protocol = None\<rparr>]
      else r_targets r)"

definition is_multi_target :: "Rule \<Rightarrow> bool" where
  "is_multi_target r \<longleftrightarrow> r_targets r \<noteq> []"

datatype RuleStoreError =
    PortInUse u16
  | RuleNotFound
  | InvalidTransition
  | ExceedsCap u32 u32
  | RangeInvalid PortRangeError
  | StoreUnsupportedProtocol ClientName string
  | SniRouteDuplicate ClientName u16 string
  | SniFallbackDuplicate ClientName u16
  | LegacyToSniUnsupported ClientName u16 string string

section \<open>The store\<close>

type_synonym listen_index = "(u16 \<times> nat list) list"

record ServerRuleStore =
  rs_rules :: "(nat \<times> Rule) list"
  rs_index :: "(ClientId \<times> listen_index) list"
  rs_next_id :: nat

definition rs_new :: ServerRuleStore where
  "rs_new = \<lparr>rs_rules = [], rs_index = [], rs_next_id = 0\<rparr>"

record PushArgs =
  pa_client_id :: ClientId
  pa_client_name :: ClientName
  pa_listen :: PortRange
  pa_target_host :: string
  pa_target :: PortRange
  pa_protocol :: Protocol
  pa_prefer_ipv6 :: "bool option"
  pa_range_cap :: u32
  pa_owner :: UserId
  pa_targets :: "RuleTarget list"
  pa_health_check :: "nat option"
  pa_sni :: "string option"
  pa_rate_limit :: "RateLimit option"

text \<open>Appending a rule to the entry of its first port, and dropping it again.\<close>

definition or_default :: "'v \<Rightarrow> ('k \<times> 'v) list \<Rightarrow> 'k \<Rightarrow> 'v" where
  "or_default d m k = (case map_of m k of None \<Rightarrow> d | Some v \<Rightarrow> v)"

definition index_add :: "(ClientId \<times> listen_index) list \<Rightarrow> ClientId \<Rightarrow> u16 \<Rightarrow> nat \<Rightarrow> (ClientId \<times> listen_index) list" where
  "index_add ix client port rid =
     (let ports = or_default [] ix client
      in AList.update client (AList.update port (or_default [] ports port @ [rid]) ports) ix)"

definition index_drop :: "(ClientId \<times> listen_index) list \<Rightarrow> ClientId \<Rightarrow> u16 \<Rightarrow> nat \<Rightarrow> (ClientId \<times> listen_index) list" where
  "index_drop ix client port rid =
     (case map_of ix client of
        None \<Rightarrow> ix
      | Some ports \<Rightarrow>
          let ports' = (case map_of ports port of
                  None \<Rightarrow> ports
                | Some ids \<Rightarrow>
                    let ids' = filter (\<lambda>x. x \<noteq> rid) ids
                    in if ids' = [] then AList.delete port ports else AList.update port ids' ports)
          in if ports' = [] then AList.delete client ix else AList.update client ports' ix)"

definition index_range :: "listen_index \<Rightarrow> u16 \<Rightarrow> listen_index" where
  "index_range ports upto_port = sort_key fst (filter (\<lambda>(start, ids). start \<le> upto_port) ports)"

section \<open>Pushing a rule\<close>

fun blocks_port :: "RuleState \<Rightarrow> bool" where
  "blocks_port RsActive = True"
| "blocks_port (RsFailed _) = True"
| "blocks_port _ = False"

definition is_single_tcp :: "Rule \<Rightarrow> bool" where
  "is_single_tcp r \<longleftrightarrow> r_protocol r = Tcp \<and> r_listen_port_end r = None"

definition candidate_is_single_tcp :: "PushArgs \<Rightarrow> bool" where
  "candidate_is_single_tcp a \<longleftrightarrow> pa_protocol a = Tcp \<and> pr_len (pa_listen a) = 1"

definition has_fallback :: "ServerRuleStore \<Rightarrow> PushArgs \<Rightarrow> bool" where
  "has_fallback st a =
     (case map_of (rs_index st) (pa_client_id a) of
        None \<Rightarrow> False
      | Some siblings \<Rightarrow>
          (case map_of siblings (pr_start (pa_listen a)) of
             None \<Rightarrow> False
           | Some sibling_ids \<Rightarrow>
               list_ex (\<lambda>sid. case map_of (rs_rules st) sid of
                   None \<Rightarrow> False
                 | Some sib \<Rightarrow> is_single_tcp sib \<and> r_sni sib = None) sibling_ids))"

definition sni_matrix :: "ServerRuleStore \<Rightarrow> PushArgs \<Rightarrow> string option \<Rightarrow> RuleStoreError option" where
  "sni_matrix st a existing_sni =
     (let port = pr_start (pa_listen a) in
      case (existing_sni, pa_sni a) of
        (None, None) \<Rightarrow> Some (PortInUse port)
      | (None, Some _) \<Rightarrow> Some (LegacyToSniUnsupported (pa_client_name a) port ''legacy'' ''sni'')
      | (Some _, None) \<Rightarrow> if has_fallback st a then Some (SniFallbackDuplicate (pa_client_name a) port) else None
      | (Some existing_pat, Some candidate_pat) \<Rightarrow>
          if existing_pat = candidate_pat then Some (SniRouteDuplicate (pa_client_name a) port candidate_pat) else None)"

definition conflict_with :: "ServerRuleStore \<Rightarrow> PushArgs \<Rightarrow> nat \<Rightarrow> RuleStoreError option" where
  "conflict_with st a existing_id =
     (case map_of (rs_rules st) existing_id of
        None \<Rightarrow> None
      | Some existing \<Rightarrow>
          if r_protocol existing \<noteq> pa_protocol a then None
          else if \<not> blocks_port (r_state existing) then None
          else if \<not> pr_overlaps (listen_range existing) (pa_listen a) then None
          else if candidate_is_single_tcp a \<and> is_single_tcp existing \<and> r_listen_port existing = pr_start (pa_listen a)
          then sni_matrix st a (r_sni existing)
          else Some (PortInUse (max (pr_start (pa_listen a)) (pr_start (listen_range existing)))))"

fun scan_conflicts :: "ServerRuleStore \<Rightarrow> PushArgs \<Rightarrow> nat list \<Rightarrow> (RuleStoreError, unit) result" where
  "scan_conflicts st a [] = Inr ()"
| "scan_conflicts st a (i # ids) =
     (case conflict_with st a i of Some e \<Rightarrow> Inl e | None \<Rightarrow> scan_conflicts st a ids)"

definition check_conflicts :: "ServerRuleStore \<Rightarrow> PushArgs \<Rightarrow> (RuleStoreError, unit) result" where
  "check_conflicts st a =
     (case map_of (rs_index st) (pa_client_id a) of
        None \<Rightarrow> Inr ()
      | Some ports \<Rightarrow> scan_conflicts st a (concat (map snd (index_range ports (pr_end (pa_listen a))))))"

definition end_of :: "PortRange \<Rightarrow> u16 option" where
  "end_of r = (if pr_len r > 1 then Some (pr_end r) else None)"

definition new_rule :: "PushArgs \<Rightarrow> nat \<Rightarrow> timestamp \<Rightarrow> Rule" where
  "new_rule a rid now =
     \<lparr>r_id = rid, r_client_id = pa_client_id a, r_client_name = pa_client_name a,
      r_listen_port = pr_start (pa_listen a), r_listen_port_end = end_of (pa_listen a),
      r_target_host = pa_target_host a,
      r_target_port = pr_start (pa_target a), r_target_port_end = end_of (pa_target a),
      r_prefer_ipv6 = pa_prefer_ipv6 a, r_protocol = pa_protocol a, r_state = RsPending,
      r_created_at = now, r_last_state_change_at = now, r_owner = pa_owner a, r_targets = pa_targets a,
      r_health_check = pa_health_check a, r_sni = pa_sni a, r_rate_limit = pa_rate_limit a\<rparr>"

definition push_range_with_targets ::
  "ServerRuleStore \<Rightarrow> PushArgs \<Rightarrow> timestamp \<Rightarrow> (RuleStoreError, ServerRuleStore \<times> Rule) result" where
  "push_range_with_targets st a now =
     rbind (map_err RangeInvalid (pr_pair (pa_listen a) (pa_target a))) (\<lambda>(listen, target).
       let size = pr_len listen in
       if size > pa_range_cap a then Inl (ExceedsCap size (pa_range_cap a))
       else rbind (check_conflicts st a) (\<lambda>_.
         let rid = rs_next_id st; rule = new_rule a rid now
         in Inr (st\<lparr>rs_next_id := wrap64 (rid + 1),
                    rs_index := index_add (rs_index st) (pa_client_id a) (pr_start listen) rid,
                    rs_rules := AList.update rid rule (rs_rules st)\<rparr>, rule)))"

text \<open>The single-target shims: no targets, no health check, no selector, no limit.\<close>

definition push_range ::
  "ServerRuleStore \<Rightarrow> ClientId \<Rightarrow> ClientName \<Rightarrow> PortRange \<Rightarrow> string \<Rightarrow> PortRange \<Rightarrow> Protocol \<Rightarrow> bool option \<Rightarrow> u32 \<Rightarrow> UserId
   \<Rightarrow> timestamp \<Rightarrow> (RuleStoreError, ServerRuleStore \<times> Rule) result" where
  "push_range st client_id client_name listen target_host target protocol prefer_ipv6 range_cap owner now =
     push_range_with_targets st
       \<lparr>pa_client_id = client_id, pa_client_name = client_name, pa_listen = listen, pa_target_host = target_host,
        pa_target = target, pa_protocol = protocol, pa_prefer_ipv6 = prefer_ipv6, pa_range_cap = range_cap,
        pa_owner = owner, pa_targets = [], pa_health_check = None, pa_sni = None, pa_rate_limit = None\<rparr> now"

definition rs_push ::
  "ServerRuleStore \<Rightarrow> ClientId \<Rightarrow> ClientName \<Rightarrow> u16 \<Rightarrow> string \<Rightarrow> u16 \<Rightarrow> Protocol \<Rightarrow> bool option
   \<Rightarrow> timestamp \<Rightarrow> (RuleStoreError, ServerRuleStore \<times> Rule) result" where
  "rs_push st client_id client_name listen_port target_host target_port protocol prefer_ipv6 now =
     push_range st client_id client_name (pr_single listen_port) target_host (pr_single target_port) protocol prefer_ipv6
       (- 1) uid_superadmin now"

definition push_with_sni ::
  "ServerRuleStore \<Rightarrow> ClientId \<Rightarrow> ClientName \<Rightarrow> u16 \<Rightarrow> string \<Rightarrow> u16 \<Rightarrow> Protocol \<Rightarrow> string option
   \<Rightarrow> timestamp \<Rightarrow> (RuleStoreError, ServerRuleStore \<times> Rule) result" where
  "push_with_sni st client_id client_name listen_port target_host target_port protocol sni_pattern now =
     push_range_with_targets st
       \<lparr>pa_client_id = client_id, pa_client_name = client_name, pa_listen = pr_single listen_port,
        pa_target_host = target_host, pa_target = pr_single target_port, pa_protocol = protocol,
        pa_prefer_ipv6 = None, pa_range_cap = - 1, pa_owner = uid_superadmin, pa_targets = [],
        pa_health_check = None, pa_sni = sni_pattern, pa_rate_limit = None\<rparr> now"

section \<open>The other operations\<close>

definition set_state :: "ServerRuleStore \<Rightarrow> nat \<Rightarrow> RuleState \<Rightarrow> timestamp \<Rightarrow> (RuleStoreError, ServerRuleStore) result" where
  "set_state st rid s now =
     (case map_of (rs_rules st) rid of
        None \<Rightarrow> Inl RuleNotFound
      | Some rule \<Rightarrow>
          if r_state rule = RsRemoved then Inl InvalidTransition
          else Inr (st\<lparr>rs_rules := AList.update rid (rule\<lparr>r_state := s, r_last_state_change_at := now\<rparr>) (rs_rules st)\<rparr>))"

definition mark_active :: "ServerRuleStore \<Rightarrow> nat \<Rightarrow> timestamp \<Rightarrow> (RuleStoreError, ServerRuleStore) result" where
  "mark_active st rid now = set_state st rid RsActive now"

definition mark_failed :: "ServerRuleStore \<Rightarrow> nat \<Rightarrow> string \<Rightarrow> timestamp \<Rightarrow> (RuleStoreError, ServerRuleStore) result" where
  "mark_failed st rid reason now = set_state st rid (RsFailed reason) now"

definition mark_pending :: "ServerRuleStore \<Rightarrow> nat \<Rightarrow> timestamp \<Rightarrow> (RuleStoreError, ServerRuleStore) result" where
  "mark_pending st rid now = set_state st rid RsPending now"

definition rs_remove :: "ServerRuleStore \<Rightarrow> nat \<Rightarrow> (RuleStoreError, ServerRuleStore \<times> Rule) result" where
  "rs_remove st rid =
     (case map_of (rs_rules st) rid of
        None \<Rightarrow> Inl RuleNotFound
      | Some rule \<Rightarrow>
          Inr (st\<lparr>rs_rules := AList.delete rid (rs_rules st),
                  rs_index := index_drop (rs_index st) (r_client_id rule) (r_listen_port rule) rid\<rparr>, rule))"

definition rs_get :: "ServerRuleStore \<Rightarrow> nat \<Rightarrow> Rule option" where
  "rs_get st rid = map_of (rs_rules st) rid"

definition update_rate_limit ::
  "ServerRuleStore \<Rightarrow> nat \<Rightarrow> RateLimit option \<Rightarrow> (RuleStoreError, ServerRuleStore \<times> Rule) result" where
  "update_rate_limit st rid rate_limit =
     (case map_of (rs_rules st) rid of
        None \<Rightarrow> Inl RuleNotFound
      | Some rule \<Rightarrow>
          let rule = rule\<lparr>r_rate_limit := rate_limit\<rparr>
          in Inr (st\<lparr>rs_rules := AList.update rid rule (rs_rules st)\<rparr>, rule))"

definition hydrate_rule :: "ServerRuleStore \<Rightarrow> Rule \<Rightarrow> ServerRuleStore" where
  "hydrate_rule st rule =
     st\<lparr>rs_next_id := max (rs_next_id st) (sat_add64 (r_id rule) 1),
        rs_index := index_add (rs_index st) (r_client_id rule) (r_listen_port rule) (r_id rule),
        rs_rules := AList.update (r_id rule) rule (rs_rules st)\<rparr>"

definition hydrate :: "ServerRuleStore \<Rightarrow> Rule list \<Rightarrow> ServerRuleStore" where
  "hydrate st rules = foldl hydrate_rule st rules"

definition list_owned_by :: "ServerRuleStore \<Rightarrow> UserId \<Rightarrow> Rule list" where
  "list_owned_by st user = filter (\<lambda>r. r_owner r = user) (map snd (rs_rules st))"

fun remove_ids :: "ServerRuleStore \<Rightarrow> nat list \<Rightarrow> ServerRuleStore \<times> nat list" where
  "remove_ids st [] = (st, [])"
| "remove_ids st (i # ids) =
     (case rs_remove st i of
        Inl _ \<Rightarrow> remove_ids st ids
      | Inr (st, rule) \<Rightarrow> let (st, out) = remove_ids st ids in (st, i # out))"

definition remove_owned_by :: "ServerRuleStore \<Rightarrow> UserId \<Rightarrow> ServerRuleStore \<times> nat list" where
  "remove_owned_by st user = remove_ids st (map r_id (list_owned_by st user))"

definition rs_rename_client :: "ServerRuleStore \<Rightarrow> ClientId \<Rightarrow> ClientName \<Rightarrow> ServerRuleStore \<times> nat" where
  "rs_rename_client st client_id new_name =
     (st\<lparr>rs_rules := map (\<lambda>(i, r). (i, if r_client_id r = client_id then r\<lparr>r_client_name := new_name\<rparr> else r)) (rs_rules st)\<rparr>,
      length (filter (\<lambda>(i, r). r_client_id r = client_id) (rs_rules st)))"

definition rs_list :: "ServerRuleStore \<Rightarrow> ClientId option \<Rightarrow> Rule list" where
  "rs_list st client_filter =
     sort_key r_id (filter (\<lambda>r. case client_filter of None \<Rightarrow> True | Some c \<Rightarrow> r_client_id r = c) (map snd (rs_rules st)))"

definition count_with_sni :: "ServerRuleStore \<Rightarrow> nat" where
  "count_with_sni st = length (filter (\<lambda>r. r_sni r \<noteq> None) (map snd (rs_rules st)))"

section \<open>The index\<close>

text \<open>What the conflict check needs of an index: the rules listed under a client and a port after
  an insertion and after a removal.\<close>

locale port_index =
  fixes look :: "'m \<Rightarrow> 'c \<Rightarrow> 'p \<Rightarrow> 'i list"
    and add :: "'m \<Rightarrow> 'c \<Rightarrow> 'p \<Rightarrow> 'i \<Rightarrow> 'm"
    and drop_id :: "'m \<Rightarrow> 'c \<Rightarrow> 'p \<Rightarrow> 'i \<Rightarrow> 'm"
  assumes look_add: "look (add m c p i) c' p' = (if (c', p') = (c, p) then look m c p @ [i] else look m c' p')"
    and look_drop: "look (drop_id m c p i) c' p' = (if (c', p') = (c, p) then filter (\<lambda>x. x \<noteq> i) (look m c p) else look m c' p')"
begin

text \<open>The index lists every element once, under its own key, and nothing else.\<close>

definition mirrors :: "'m \<Rightarrow> ('i \<rightharpoonup> 'c \<times> 'p) \<Rightarrow> bool" where
  "mirrors m f \<longleftrightarrow> (\<forall>c p. distinct (look m c p) \<and> set (look m c p) = {i. f i = Some (c, p)})"

lemma mirrors_add: "mirrors m f \<Longrightarrow> f i = None \<Longrightarrow> mirrors (add m c p i) (f(i \<mapsto> (c, p)))"
  by (auto simp: mirrors_def look_add)

lemma mirrors_drop: "mirrors m f \<Longrightarrow> f i = Some (c, p) \<Longrightarrow> mirrors (drop_id m c p i) (f(i := None))"
  by (auto simp: mirrors_def look_drop)

end

definition indexed :: "(ClientId \<times> listen_index) list \<Rightarrow> ClientId \<Rightarrow> u16 \<Rightarrow> nat list" where
  "indexed ix c p = or_default [] (or_default [] ix c) p"

lemma or_default_update [simp]: "or_default d (AList.update k v m) k' = (if k' = k then v else or_default d m k')"
  by (simp add: or_default_def update_conv')

lemma or_default_delete [simp]: "or_default d (AList.delete k m) k' = (if k' = k then d else or_default d m k')"
  by (simp add: or_default_def delete_conv')

lemma or_default_Nil [simp]: "or_default d [] k = d"
  by (simp add: or_default_def)

lemma indexed_add:
  "indexed (index_add ix c p i) c' p' = (if (c', p') = (c, p) then indexed ix c p @ [i] else indexed ix c' p')"
  by (auto simp: indexed_def index_add_def Let_def)

lemma indexed_drop:
  "indexed (index_drop ix c p i) c' p' = (if (c', p') = (c, p) then filter (\<lambda>x. x \<noteq> i) (indexed ix c p) else indexed ix c' p')"
proof (cases "map_of ix c")
  case (Some ports)
  have p: "or_default [] ix c = ports" using Some by (simp add: or_default_def)
  define ports' where "ports' = (case map_of ports p of None \<Rightarrow> ports | Some ids \<Rightarrow>
      let ids' = filter (\<lambda>x. x \<noteq> i) ids in if ids' = [] then AList.delete p ports else AList.update p ids' ports)"
  have q: "or_default [] ports' x = (if x = p then filter (\<lambda>x. x \<noteq> i) (or_default [] ports p) else or_default [] ports x)" for x
    by (auto simp: ports'_def Let_def or_default_def update_conv' delete_conv' split: option.splits)
  have "index_drop ix c p i = (if ports' = [] then AList.delete c ix else AList.update c ports' ix)"
    by (simp add: index_drop_def Some ports'_def Let_def)
  then have "or_default [] (index_drop ix c p i) x = (if x = c then ports' else or_default [] ix x)" for x
    by simp
  then show ?thesis by (simp add: indexed_def p q)
qed (auto simp: index_drop_def indexed_def or_default_def)

interpretation li: port_index indexed index_add index_drop
  by unfold_locales (rule indexed_add, rule indexed_drop)

definition index_wf :: "(ClientId \<times> listen_index) list \<Rightarrow> bool" where
  "index_wf ix \<longleftrightarrow> distinct (map fst ix) \<and> (\<forall>c. distinct (map fst (or_default [] ix c)))"

lemma index_wf_update: "index_wf ix \<Longrightarrow> distinct (map fst ports) \<Longrightarrow> index_wf (AList.update c ports ix)"
  by (simp add: index_wf_def distinct_update)

lemma index_wf_delete: "index_wf ix \<Longrightarrow> index_wf (AList.delete c ix)"
  by (simp add: index_wf_def distinct_delete)

lemma index_add_wf: "index_wf ix \<Longrightarrow> index_wf (index_add ix c p i)"
  unfolding index_add_def Let_def by (intro index_wf_update distinct_update) (simp_all add: index_wf_def)

lemma index_drop_wf:
  assumes wf: "index_wf ix"
  shows "index_wf (index_drop ix c p i)"
proof (cases "map_of ix c")
  case (Some ports)
  then have "or_default [] ix c = ports" by (simp add: or_default_def)
  then have "distinct (map fst ports)" using wf by (auto simp: index_wf_def)
  then show ?thesis
    unfolding index_drop_def Some Let_def option.case
    by (auto intro!: index_wf_delete index_wf_update wf distinct_update distinct_delete split: option.split)
qed (simp add: index_drop_def wf)

lemma index_range_ids:
  assumes "index_wf ix"
  shows "set (concat (map snd (index_range (or_default [] ix c) e))) = {i. \<exists>p \<le> e. i \<in> set (indexed ix c p)}"
proof -
  let ?ports = "or_default [] ix c"
  have d: "distinct (map fst ?ports)" using assms by (simp add: index_wf_def)
  have a: "indexed ix c p = ids" if "(p, ids) \<in> set ?ports" for p ids
    using map_of_is_SomeI [OF d that] by (simp add: indexed_def or_default_def [of _ _ p])
  have b: "(p, indexed ix c p) \<in> set ?ports" if "i \<in> set (indexed ix c p)" for i p
  proof (cases "map_of ?ports p")
    case None
    then show ?thesis using that by (simp add: indexed_def or_default_def [of _ _ p])
  next
    case (Some ids)
    then show ?thesis using map_of_SomeD [OF Some] by (simp add: indexed_def or_default_def [of _ _ p])
  qed
  have "set (concat (map snd (index_range ?ports e))) = {i. \<exists>p ids. (p, ids) \<in> set ?ports \<and> p \<le> e \<and> i \<in> set ids}"
    by (auto simp: index_range_def) blast
  also have "\<dots> = {i. \<exists>p \<le> e. i \<in> set (indexed ix c p)}" using a b by blast
  finally show ?thesis .
qed

section \<open>The invariant of the store\<close>

definition rule_key :: "Rule \<Rightarrow> ClientId \<times> u16" where
  "rule_key r = (r_client_id r, r_listen_port r)"

definition store_ok :: "ServerRuleStore \<Rightarrow> bool" where
  "store_ok st \<longleftrightarrow> distinct (map fst (rs_rules st)) \<and> index_wf (rs_index st) \<and>
     li.mirrors (rs_index st) (\<lambda>i. map_option rule_key (map_of (rs_rules st) i)) \<and>
     (\<forall>i r. map_of (rs_rules st) i = Some r \<longrightarrow> r_id r = i \<and> i < rs_next_id st)"

lemma store_get: "store_ok st \<Longrightarrow> map_of (rs_rules st) i = Some r \<Longrightarrow> r_id r = i \<and> i < rs_next_id st"
  unfolding store_ok_def by blast

lemma store_ok_new: "store_ok rs_new"
  by (simp add: store_ok_def rs_new_def index_wf_def li.mirrors_def indexed_def)

lemma store_ok_insert:
  assumes ok: "store_ok st" and "map_of (rs_rules st) (r_id r) = None" and "r_id r < n" and "rs_next_id st \<le> n"
  shows "store_ok (st\<lparr>rs_next_id := n, rs_index := index_add (rs_index st) (r_client_id r) (r_listen_port r) (r_id r),
    rs_rules := AList.update (r_id r) r (rs_rules st)\<rparr>)"
proof -
  let ?f = "\<lambda>i. map_option rule_key (map_of (rs_rules st) i)"
  have "li.mirrors (index_add (rs_index st) (r_client_id r) (r_listen_port r) (r_id r)) (?f(r_id r \<mapsto> rule_key r))"
    unfolding rule_key_def [of r] using ok assms(2) by (intro li.mirrors_add) (simp_all add: store_ok_def)
  moreover have "?f(r_id r \<mapsto> rule_key r) = (\<lambda>i. map_option rule_key (map_of (AList.update (r_id r) r (rs_rules st)) i))"
    by (auto simp: fun_eq_iff update_conv')
  ultimately show ?thesis
    using ok assms(3,4) by (fastforce simp: store_ok_def distinct_update index_add_wf update_conv' split: if_splits)
qed

text \<open>Replacing a rule by one with the same identity, client and first port keeps the index exact.\<close>

lemma store_ok_replace:
  assumes ok: "store_ok st" and old: "map_of (rs_rules st) i = Some r" and "r_id r' = i" and "rule_key r' = rule_key r"
  shows "store_ok (st\<lparr>rs_rules := AList.update i r' (rs_rules st)\<rparr>)"
proof -
  have "(\<lambda>j. map_option rule_key (map_of (AList.update i r' (rs_rules st)) j)) = (\<lambda>j. map_option rule_key (map_of (rs_rules st) j))"
    using old assms(4) by (auto simp: fun_eq_iff update_conv')
  moreover have "i < rs_next_id st" using ok old by (simp add: store_ok_def)
  ultimately show ?thesis
    using ok assms(3) unfolding store_ok_def by (simp add: distinct_update update_conv')
qed

lemma store_ok_remove:
  assumes ok: "store_ok st" and rm: "rs_remove st i = Inr (st', r)"
  shows "store_ok st'"
proof -
  let ?f = "\<lambda>i. map_option rule_key (map_of (rs_rules st) i)"
  have old: "map_of (rs_rules st) i = Some r"
    and st': "st' = st\<lparr>rs_rules := AList.delete i (rs_rules st), rs_index := index_drop (rs_index st) (r_client_id r) (r_listen_port r) i\<rparr>"
    using rm by (auto simp: rs_remove_def split: option.splits)
  have "li.mirrors (index_drop (rs_index st) (r_client_id r) (r_listen_port r) i) (?f(i := None))"
    using ok old by (intro li.mirrors_drop) (simp_all add: store_ok_def rule_key_def)
  moreover have "?f(i := None) = (\<lambda>j. map_option rule_key (map_of (AList.delete i (rs_rules st)) j))"
    by (auto simp: fun_eq_iff delete_conv')
  ultimately show ?thesis
    using ok unfolding st' store_ok_def by (simp add: distinct_delete index_drop_wf delete_conv')
qed

lemma new_rule_sel [simp]:
  "r_id (new_rule a i now) = i" "r_client_id (new_rule a i now) = pa_client_id a"
  "r_listen_port (new_rule a i now) = pr_start (pa_listen a)" "r_listen_port_end (new_rule a i now) = end_of (pa_listen a)"
  "r_protocol (new_rule a i now) = pa_protocol a" "r_state (new_rule a i now) = RsPending"
  "r_sni (new_rule a i now) = pa_sni a" "r_owner (new_rule a i now) = pa_owner a"
  "r_client_name (new_rule a i now) = pa_client_name a"
  by (simp_all add: new_rule_def)

lemma push_Inr_iff:
  "push_range_with_targets st a now = Inr (st', r) \<longleftrightarrow>
     pr_len (pa_listen a) = pr_len (pa_target a) \<and> pr_len (pa_listen a) \<le> pa_range_cap a \<and> is_ok (check_conflicts st a) \<and>
     r = new_rule a (rs_next_id st) now \<and>
     st' = st\<lparr>rs_next_id := wrap64 (rs_next_id st + 1),
       rs_index := index_add (rs_index st) (pa_client_id a) (pr_start (pa_listen a)) (rs_next_id st),
       rs_rules := AList.update (rs_next_id st) r (rs_rules st)\<rparr>"
  by (auto simp: push_range_with_targets_def rbind_Inr_iff Let_def pr_pair_def is_ok_def not_less split: if_splits sum.splits)

lemma store_ok_push:
  assumes ok: "store_ok st" and push: "push_range_with_targets st a now = Inr (st', r)" and "rs_next_id st < u64_max"
  shows "store_ok st'"
proof -
  have n: "wrap64 (rs_next_id st + 1) = rs_next_id st + 1" using assms(3) by (simp add: wrap64_def u64_max_def)
  have st': "r = new_rule a (rs_next_id st) now" "st' = st\<lparr>rs_next_id := rs_next_id st + 1,
      rs_index := index_add (rs_index st) (r_client_id r) (r_listen_port r) (r_id r), rs_rules := AList.update (r_id r) r (rs_rules st)\<rparr>"
    using push unfolding push_Inr_iff n by auto
  have "map_of (rs_rules st) (r_id r) = None"
    using store_get [OF ok, of "rs_next_id st"] st'(1) by (cases "map_of (rs_rules st) (r_id r)") auto
  then show ?thesis unfolding st'(2) using ok st'(1) by (intro store_ok_insert) simp_all
qed

lemma store_ok_state: "store_ok st \<Longrightarrow> set_state st i s now = Inr st' \<Longrightarrow> store_ok st'"
  using store_get [of st i]
  by (auto simp: set_state_def rule_key_def intro!: store_ok_replace split: option.splits if_splits)

lemma store_ok_rate: "store_ok st \<Longrightarrow> update_rate_limit st i l = Inr (st', r) \<Longrightarrow> store_ok st'"
  using store_get [of st i]
  by (auto simp: update_rate_limit_def Let_def rule_key_def intro!: store_ok_replace split: option.splits)

lemma store_ok_remove_ids: "store_ok st \<Longrightarrow> store_ok (fst (remove_ids st ids))"
proof (induction ids arbitrary: st)
  case (Cons i ids)
  show ?case
  proof (cases "rs_remove st i")
    case (Inr p)
    obtain st1 r where p: "p = (st1, r)" by fastforce
    have "store_ok st1" using store_ok_remove [OF Cons.prems] Inr p by blast
    then show ?thesis using Cons.IH [of st1] by (cases "remove_ids st1 ids") (simp add: Inr p)
  qed (use Cons in simp)
qed simp

lemma map_of_map_snd: "map_of (map (\<lambda>(i, r). (i, f r)) xs) i = map_option f (map_of xs i)"
  by (induction xs) auto

lemma store_ok_same_keys:
  assumes ok: "store_ok st" and "map fst rs = map fst (rs_rules st)"
    and same: "\<And>i. map_option (\<lambda>r. (r_id r, rule_key r)) (map_of rs i) = map_option (\<lambda>r. (r_id r, rule_key r)) (map_of (rs_rules st) i)"
  shows "store_ok (st\<lparr>rs_rules := rs\<rparr>)"
proof -
  have "map_option rule_key (map_of rs i) = map_option rule_key (map_of (rs_rules st) i)" for i
    using same [of i] by (cases "map_of rs i"; cases "map_of (rs_rules st) i") auto
  then have "(\<lambda>i. map_option rule_key (map_of rs i)) = (\<lambda>i. map_option rule_key (map_of (rs_rules st) i))" ..
  moreover have "r_id r = i \<and> i < rs_next_id st" if "map_of rs i = Some r" for i r
    using same [of i] that store_get [OF ok, of i] by (cases "map_of (rs_rules st) i") auto
  ultimately show ?thesis
    using ok unfolding store_ok_def by (simp add: assms(2))
qed

lemma store_ok_rename: "store_ok st \<Longrightarrow> store_ok (fst (rs_rename_client st c n))"
  unfolding rs_rename_client_def fst_conv
  by (rule store_ok_same_keys) (auto simp: map_of_map_snd option.map_comp comp_def rule_key_def intro: option.map_cong0)

lemma store_ok_hydrate:
  "store_ok st \<Longrightarrow> distinct (map r_id rules) \<Longrightarrow> (\<forall>r \<in> set rules. r_id r < u64_max \<and> map_of (rs_rules st) (r_id r) = None) \<Longrightarrow>
   store_ok (hydrate st rules)"
proof (induction rules arbitrary: st)
  case (Cons r rules)
  have "store_ok (hydrate_rule st r)"
    unfolding hydrate_rule_def using Cons.prems
    by (intro store_ok_insert) (auto simp: sat_add64_def)
  moreover have "map_of (rs_rules (hydrate_rule st r)) (r_id r') = None" if "r' \<in> set rules" for r'
  proof -
    have "r_id r' \<in> r_id ` set rules" using that by (rule imageI)
    then have "r_id r' \<noteq> r_id r" using Cons.prems(2) by auto
    then show ?thesis using Cons.prems(3) that by (simp add: hydrate_rule_def update_conv')
  qed
  ultimately show ?case using Cons.IH [of "hydrate_rule st r"] Cons.prems by (simp add: hydrate_def)
qed (simp add: hydrate_def)

section \<open>Runs of the store\<close>

text \<open>A store starts from the persisted rules, which have distinct ids below the last one, and then
  takes any of its operations; ids are handed out as long as the counter has not reached its
  maximum.\<close>

inductive rs_edit :: "ServerRuleStore \<Rightarrow> ServerRuleStore \<Rightarrow> bool" where
  edit_active: "mark_active st i now = Inr st' \<Longrightarrow> rs_edit st st'"
| edit_failed: "mark_failed st i reason now = Inr st' \<Longrightarrow> rs_edit st st'"
| edit_pending: "mark_pending st i now = Inr st' \<Longrightarrow> rs_edit st st'"
| edit_remove: "rs_remove st i = Inr (st', r) \<Longrightarrow> rs_edit st st'"
| edit_rate: "update_rate_limit st i l = Inr (st', r) \<Longrightarrow> rs_edit st st'"
| edit_owner: "rs_edit st (fst (remove_owned_by st user))"
| edit_rename: "rs_edit st (fst (rs_rename_client st c n))"

inductive rs_step :: "ServerRuleStore \<Rightarrow> ServerRuleStore \<Rightarrow> bool" where
  step_push: "push_range_with_targets st a now = Inr (st', r) \<Longrightarrow> rs_next_id st < u64_max \<Longrightarrow> rs_step st st'"
| step_edit: "rs_edit st st' \<Longrightarrow> rs_step st st'"

inductive rs_reach :: "ServerRuleStore \<Rightarrow> bool" where
  reach_init: "distinct (map r_id rules) \<Longrightarrow> \<forall>r \<in> set rules. r_id r < u64_max \<Longrightarrow> rs_reach (hydrate rs_new rules)"
| reach_step: "rs_reach st \<Longrightarrow> rs_step st st' \<Longrightarrow> rs_reach st'"

lemmas mark_defs = mark_active_def mark_failed_def mark_pending_def

lemma edit_ok: "rs_edit st st' \<Longrightarrow> store_ok st \<Longrightarrow> store_ok st'"
  by (induction rule: rs_edit.induct)
    (auto simp: mark_defs remove_owned_by_def
      intro: store_ok_state store_ok_remove store_ok_rate store_ok_remove_ids store_ok_rename)

lemma step_ok: "rs_step st st' \<Longrightarrow> store_ok st \<Longrightarrow> store_ok st'"
  by (induction rule: rs_step.induct) (auto intro: store_ok_push edit_ok)

lemma reach_ok: "rs_reach st \<Longrightarrow> store_ok st"
proof (induction rule: rs_reach.induct)
  case (reach_init rules)
  then show ?case using store_ok_hydrate [OF store_ok_new] by (simp add: rs_new_def)
qed (rule step_ok)

text \<open>C19 (rule_index_exact): in every run of the rule store, the interval index lists each rule
  exactly once, under its client and its first listen port, and lists nothing else; ids are
  unique, agree with the stored rules and stay below the id counter.\<close>

theorem rule_index_exact:
  assumes "rs_reach st"
  shows "distinct (map fst (rs_rules st)) \<and>
    (\<forall>c p. distinct (indexed (rs_index st) c p) \<and>
       set (indexed (rs_index st) c p) =
         {i. \<exists>r. map_of (rs_rules st) i = Some r \<and> r_client_id r = c \<and> r_listen_port r = p}) \<and>
    (\<forall>i r. map_of (rs_rules st) i = Some r \<longrightarrow> r_id r = i \<and> i < rs_next_id st)"
  using reach_ok [OF assms] by (auto simp: store_ok_def li.mirrors_def rule_key_def)

definition demo_args :: "string option \<Rightarrow> PushArgs" where
  "demo_args sni = \<lparr>pa_client_id = 7, pa_client_name = ClientName ''edge'', pa_listen = pr_single 443,
     pa_target_host = ''10.0.0.1'', pa_target = pr_single 8443, pa_protocol = Tcp, pa_prefer_ipv6 = None,
     pa_range_cap = 100, pa_owner = UserId ''alice'', pa_targets = [], pa_health_check = None, pa_sni = sni,
     pa_rate_limit = None\<rparr>"

definition demo_rule :: Rule where
  "demo_rule = new_rule (demo_args (Some ''a.example'')) 0 5"

definition demo_store :: ServerRuleStore where
  "demo_store = \<lparr>rs_rules = [(0, demo_rule)], rs_index = [(7, [(443, [0])])], rs_next_id = 1\<rparr>"

lemma demo_push: "push_range_with_targets rs_new (demo_args (Some ''a.example'')) 5 = Inr (demo_store, demo_rule)"
  by (simp add: push_Inr_iff demo_args_def demo_store_def demo_rule_def rs_new_def check_conflicts_def index_add_def wrap64_def
      u64_max_def pr_single_def pr_len_def)

lemma rs_new_reach: "rs_reach rs_new"
  using reach_init [of "[]"] by (simp add: hydrate_def)

lemma demo_reach: "rs_reach demo_store"
  by (rule reach_step [OF rs_new_reach step_push [OF demo_push]]) (simp add: rs_new_def u64_max_def)

theorem rule_index_exact_witness:
  "map_of (rs_rules demo_store) 0 = Some demo_rule \<and> 0 < rs_next_id demo_store \<and> distinct (indexed (rs_index demo_store) 7 443)"
  using rule_index_exact [OF demo_reach] by (simp add: demo_store_def)

section \<open>The conflict check against its specification\<close>

lemma overlaps_shared:
  assumes "pr_start a \<le> pr_end a" "pr_start b \<le> pr_end b"
  shows "pr_overlaps a b \<longleftrightarrow> (\<exists>p. pr_contains a p \<and> pr_contains b p)"
proof
  assume "pr_overlaps a b"
  then show "\<exists>p. pr_contains a p \<and> pr_contains b p"
    using assms by (intro exI [of _ "max (pr_start a) (pr_start b)"]) (auto simp: pr_overlaps_def pr_contains_def max_def)
qed (auto simp: pr_overlaps_def pr_contains_def)

lemma pr_len_1_iff: "pr_start r \<le> pr_end r \<Longrightarrow> pr_len r = 1 \<longleftrightarrow> pr_end r = pr_start r"
  using unat_pr_len [of r] by (auto simp: word_le_nat_alt word_unat_eq_iff)

lemma pr_len_gt_1_iff: "pr_start r \<le> pr_end r \<Longrightarrow> pr_len r > 1 \<longleftrightarrow> pr_end r > pr_start r"
  using unat_pr_len [of r] by (auto simp: word_le_nat_alt word_less_nat_alt)

lemma range_of_end: "pr_wf r \<Longrightarrow> range_or_single (pr_start r) (end_of r) = r"
  by (auto simp: range_or_single_def end_of_def pr_len_gt_1_iff pr_wf_def pr_new_def pr_single_def not_less)

lemma listen_range_new: "pr_wf (pa_listen a) \<Longrightarrow> listen_range (new_rule a i now) = pa_listen a"
  by (simp add: listen_range_def range_of_end)

lemma range_or_single_le: "pr_start (range_or_single p e) = p" "p \<le> pr_end (range_or_single p e)"
  by (auto simp: range_or_single_def pr_new_def pr_single_def split: option.splits)

text \<open>A rule clashes with a request when it is settled, on the same client and protocol, shares a
  port with it, and the two are not selectors of one TLS listener that can stand side by side.\<close>

definition rules_of :: "ServerRuleStore \<Rightarrow> Rule set" where
  "rules_of st = snd ` set (rs_rules st)"

definition plain_sibling :: "ServerRuleStore \<Rightarrow> PushArgs \<Rightarrow> bool" where
  "plain_sibling st a \<longleftrightarrow> (\<exists>s \<in> rules_of st. r_client_id s = pa_client_id a \<and> r_listen_port s = pr_start (pa_listen a) \<and>
     is_single_tcp s \<and> r_sni s = None)"

definition clashes :: "ServerRuleStore \<Rightarrow> PushArgs \<Rightarrow> Rule \<Rightarrow> bool" where
  "clashes st a r \<longleftrightarrow>
     r_client_id r = pa_client_id a \<and> r_protocol r = pa_protocol a \<and> blocks_port (r_state r) \<and>
     (\<exists>p. pr_contains (listen_range r) p \<and> pr_contains (pa_listen a) p) \<and>
     \<not> (candidate_is_single_tcp a \<and> is_single_tcp r \<and> r_sni r \<noteq> None \<and> r_sni r \<noteq> pa_sni a \<and>
        (pa_sni a = None \<longrightarrow> \<not> plain_sibling st a))"

lemma rules_of_new [simp]: "rules_of rs_new = {}"
  by (simp add: rules_of_def rs_new_def)

lemma rules_of_iff:
  assumes ok: "store_ok st"
  shows "r \<in> rules_of st \<longleftrightarrow> map_of (rs_rules st) (r_id r) = Some r"
proof
  assume "r \<in> rules_of st"
  then obtain i where i: "(i, r) \<in> set (rs_rules st)" by (auto simp: rules_of_def)
  have "distinct (map fst (rs_rules st))" using ok unfolding store_ok_def by (rule conjunct1)
  then have "map_of (rs_rules st) i = Some r" using i by (rule map_of_is_SomeI)
  with store_get [OF ok this] show "map_of (rs_rules st) (r_id r) = Some r" by simp
qed (auto simp: rules_of_def dest!: map_of_SomeD intro: rev_image_eqI)

lemma indexed_rules:
  "store_ok st \<Longrightarrow> i \<in> set (indexed (rs_index st) c p) \<longleftrightarrow>
    (\<exists>r. map_of (rs_rules st) i = Some r \<and> r_client_id r = c \<and> r_listen_port r = p)"
  by (simp add: store_ok_def li.mirrors_def rule_key_def del: map_of_eq_Some_iff)

lemma rules_of_map_of: "store_ok st \<Longrightarrow> (\<exists>r \<in> rules_of st. P r) \<longleftrightarrow> (\<exists>i r. map_of (rs_rules st) i = Some r \<and> P r)"
  using rules_of_iff store_get by metis

lemma has_fallback_iff: "store_ok st \<Longrightarrow> has_fallback st a \<longleftrightarrow> plain_sibling st a"
proof -
  assume ok: "store_ok st"
  have "has_fallback st a \<longleftrightarrow> (\<exists>i \<in> set (indexed (rs_index st) (pa_client_id a) (pr_start (pa_listen a))).
      \<exists>s. map_of (rs_rules st) i = Some s \<and> is_single_tcp s \<and> r_sni s = None)"
    by (auto simp: has_fallback_def indexed_def or_default_def list_ex_iff split: option.splits)
  also have "\<dots> \<longleftrightarrow> plain_sibling st a"
    unfolding plain_sibling_def rules_of_map_of [OF ok] by (auto simp: indexed_rules [OF ok]) blast
  finally show ?thesis .
qed

lemma scan_ok: "is_ok (scan_conflicts st a ids) \<longleftrightarrow> (\<forall>i \<in> set ids. conflict_with st a i = None)"
  by (induction ids) (auto split: option.splits)

lemma single_shares_port:
  assumes "candidate_is_single_tcp a" "is_single_tcp r" "pr_wf (pa_listen a)" "pr_overlaps (listen_range r) (pa_listen a)"
  shows "r_listen_port r = pr_start (pa_listen a)"
proof -
  have "pr_end (pa_listen a) = pr_start (pa_listen a)"
    using assms(1,3) by (simp add: candidate_is_single_tcp_def pr_wf_def pr_len_1_iff)
  moreover have "listen_range r = pr_single (r_listen_port r)"
    using assms(2) by (simp add: is_single_tcp_def listen_range_def range_or_single_def)
  ultimately show ?thesis using assms(4) by (auto simp: pr_overlaps_def pr_single_def)
qed

lemma conflict_iff:
  assumes ok: "store_ok st" and wf: "pr_wf (pa_listen a)" and r: "map_of (rs_rules st) i = Some r" and c: "r_client_id r = pa_client_id a"
  shows "conflict_with st a i = None \<longleftrightarrow> \<not> clashes st a r"
proof -
  have ov: "pr_overlaps (listen_range r) (pa_listen a) \<longleftrightarrow> (\<exists>p. pr_contains (listen_range r) p \<and> pr_contains (pa_listen a) p)"
    using wf by (intro overlaps_shared) (simp_all add: listen_range_def range_or_single_le pr_wf_def)
  show ?thesis
    using single_shares_port [OF _ _ wf, of r] has_fallback_iff [OF ok]
    by (auto simp: conflict_with_def r c clashes_def ov [symmetric] sni_matrix_def Let_def split: option.splits if_splits)
qed

lemma check_conflicts_iff:
  assumes ok: "store_ok st" and wf: "pr_wf (pa_listen a)"
  shows "is_ok (check_conflicts st a) \<longleftrightarrow> (\<forall>r \<in> rules_of st. \<not> clashes st a r)"
proof -
  have wfi: "index_wf (rs_index st)" using ok by (simp add: store_ok_def)
  have "is_ok (check_conflicts st a) \<longleftrightarrow>
      (\<forall>i \<in> set (concat (map snd (index_range (or_default [] (rs_index st) (pa_client_id a)) (pr_end (pa_listen a))))). conflict_with st a i = None)"
    by (auto simp: check_conflicts_def or_default_def scan_ok index_range_def split: option.splits)
  also have "\<dots> \<longleftrightarrow> (\<forall>i r. map_of (rs_rules st) i = Some r \<and> r_client_id r = pa_client_id a \<and> r_listen_port r \<le> pr_end (pa_listen a)
      \<longrightarrow> conflict_with st a i = None)"
    unfolding index_range_ids [OF wfi] indexed_rules [OF ok] by blast
  also have "\<dots> \<longleftrightarrow> (\<forall>r \<in> rules_of st. \<not> clashes st a r)"
  proof -
    have "(r_client_id r = pa_client_id a \<and> r_listen_port r \<le> pr_end (pa_listen a) \<and> conflict_with st a i \<noteq> None) \<longleftrightarrow> clashes st a r"
      if r: "map_of (rs_rules st) i = Some r" for i r
    proof (cases "r_client_id r = pa_client_id a")
      case True
      have "clashes st a r \<Longrightarrow> r_listen_port r \<le> pr_end (pa_listen a)"
        by (auto simp: clashes_def pr_contains_def listen_range_def range_or_single_le)
      then show ?thesis using conflict_iff [OF ok wf r True] True by auto
    qed (simp add: clashes_def)
    then show ?thesis using rules_of_map_of [OF ok, of "clashes st a"] by (metis (no_types))
  qed
  finally show ?thesis .
qed

text \<open>C13 (push_accepts_iff_no_clash): the index-driven check decides exactly the conflict rule over
  all rules of the store.  A push is accepted if and only if the two ranges have the same length,
  within the cap, and no settled rule of the client and protocol shares a port with it, except
  for TLS selectors: a single-port TCP rule with a selector tolerates a request with another
  selector, and one without a selector as long as the port has no plain rule yet.\<close>

theorem push_accepts_iff_no_clash:
  assumes "rs_reach st" and "pr_wf (pa_listen a)"
  shows "(\<exists>st' r. push_range_with_targets st a now = Inr (st', r)) \<longleftrightarrow>
    pr_len (pa_listen a) = pr_len (pa_target a) \<and> pr_len (pa_listen a) \<le> pa_range_cap a \<and>
    (\<forall>r \<in> rules_of st. \<not> clashes st a r)"
  using check_conflicts_iff [OF reach_ok [OF assms(1)] assms(2)] by (simp add: push_Inr_iff)

theorem push_accepts_iff_no_clash_witness:
  "pr_wf (pa_listen (demo_args None)) \<and>
   (\<exists>st' r. push_range_with_targets demo_store (demo_args None) 6 = Inr (st', r))"
proof
  show wf: "pr_wf (pa_listen (demo_args None))" by (simp add: demo_args_def pr_wf_def pr_single_def)
  have "\<forall>r \<in> rules_of demo_store. \<not> clashes demo_store (demo_args None) r"
    by (simp add: rules_of_def demo_store_def demo_rule_def clashes_def)
  then show "\<exists>st' r. push_range_with_targets demo_store (demo_args None) 6 = Inr (st', r)"
    unfolding push_accepts_iff_no_clash [OF demo_reach wf] by (simp add: demo_args_def)
qed

section \<open>Rules that stand side by side\<close>

definition side_by_side :: "Rule \<Rightarrow> Rule \<Rightarrow> bool" where
  "side_by_side r s \<longleftrightarrow>
     (r_client_id r = r_client_id s \<and> r_protocol r = r_protocol s \<and> pr_overlaps (listen_range r) (listen_range s) \<longrightarrow>
      is_single_tcp r \<and> is_single_tcp s \<and> r_sni r \<noteq> r_sni s)"

definition pairs_ok :: "ServerRuleStore \<Rightarrow> bool" where
  "pairs_ok st \<longleftrightarrow> (\<forall>r \<in> rules_of st. \<forall>s \<in> rules_of st. r_id r \<noteq> r_id s \<longrightarrow> side_by_side r s)"

text \<open>Everything but a push leaves the shape of every surviving rule, and its owner, as it was.\<close>

definition shape :: "Rule \<Rightarrow> nat \<times> ClientId \<times> u16 \<times> u16 option \<times> Protocol \<times> string option \<times> UserId" where
  "shape r = (r_id r, r_client_id r, r_listen_port r, r_listen_port_end r, r_protocol r, r_sni r, r_owner r)"

lemma side_by_side_shape: "shape r = shape r' \<Longrightarrow> shape s = shape s' \<Longrightarrow> side_by_side r s = side_by_side r' s'"
  by (simp add: side_by_side_def shape_def listen_range_def is_single_tcp_def)

lemma set_update_sub: "snd ` set (AList.update k v xs) \<subseteq> insert v (snd ` set xs)"
  by (induction xs) auto

lemma set_delete_sub: "snd ` set (AList.delete k xs) \<subseteq> snd ` set xs"
  by (induction xs) auto

lemma replace_shape:
  assumes "map_of (rs_rules st) i = Some r" and "shape r' = shape r"
  shows "shape ` snd ` set (AList.update i r' (rs_rules st)) \<subseteq> shape ` rules_of st"
proof -
  have "shape r' \<in> shape ` rules_of st"
    using map_of_SomeD [OF assms(1)] assms(2) unfolding rules_of_def by (metis imageI snd_conv)
  then show ?thesis
    using image_mono [OF set_update_sub, of shape i r' "rs_rules st"] by (simp add: rules_of_def insert_absorb)
qed

lemma remove_shape: "rs_remove st i = Inr (st', r) \<Longrightarrow> rules_of st' \<subseteq> rules_of st"
proof -
  assume "rs_remove st i = Inr (st', r)"
  then have "rs_rules st' = AList.delete i (rs_rules st)" by (auto simp: rs_remove_def split: option.splits)
  then show ?thesis using set_delete_sub [of i "rs_rules st"] by (simp add: rules_of_def)
qed

lemma remove_ids_shape: "rules_of (fst (remove_ids st ids)) \<subseteq> rules_of st"
proof (induction ids arbitrary: st)
  case (Cons i ids)
  show ?case
  proof (cases "rs_remove st i")
    case (Inr p)
    obtain st1 r where p: "p = (st1, r)" by fastforce
    have "rules_of st1 \<subseteq> rules_of st" using remove_shape Inr p by blast
    moreover have "fst (remove_ids st (i # ids)) = fst (remove_ids st1 ids)"
      by (cases "remove_ids st1 ids") (simp add: Inr p)
    ultimately show ?thesis using Cons.IH [of st1] by simp
  qed (use Cons in simp)
qed simp

lemma set_state_shape: "set_state st i s now = Inr st' \<Longrightarrow> shape ` rules_of st' \<subseteq> shape ` rules_of st"
proof -
  assume "set_state st i s now = Inr st'"
  then obtain r where "map_of (rs_rules st) i = Some r"
    "rs_rules st' = AList.update i (r\<lparr>r_state := s, r_last_state_change_at := now\<rparr>) (rs_rules st)"
    by (auto simp: set_state_def split: option.splits if_splits)
  then show ?thesis using replace_shape [of st i r "r\<lparr>r_state := s, r_last_state_change_at := now\<rparr>"]
    by (simp add: shape_def rules_of_def [of st'])
qed

lemma edit_shape: "rs_edit st st' \<Longrightarrow> shape ` rules_of st' \<subseteq> shape ` rules_of st"
proof (induction rule: rs_edit.induct)
  case (edit_rate st i l st' r)
  then obtain r0 where "map_of (rs_rules st) i = Some r0" "rs_rules st' = AList.update i (r0\<lparr>r_rate_limit := l\<rparr>) (rs_rules st)"
    by (auto simp: update_rate_limit_def Let_def split: option.splits)
  then show ?case using replace_shape [of st i r0 "r0\<lparr>r_rate_limit := l\<rparr>"] by (simp add: shape_def rules_of_def [of st'])
next
  case (edit_rename st c n)
  have "shape (if r_client_id r = c then r\<lparr>r_client_name := n\<rparr> else r) = shape r" for r by (simp add: shape_def)
  then have "shape (snd (case x of (i, r) \<Rightarrow> (i, if r_client_id r = c then r\<lparr>r_client_name := n\<rparr> else r))) = shape (snd x)" for x
    by (cases x) simp
  then have "(\<lambda>x. shape (snd (case x of (i, r) \<Rightarrow> (i, if r_client_id r = c then r\<lparr>r_client_name := n\<rparr> else r)))) ` set (rs_rules st) =
      (\<lambda>x. shape (snd x)) ` set (rs_rules st)" by (intro image_cong refl)
  then show ?case by (simp add: rs_rename_client_def rules_of_def image_image)
next
  case (edit_remove st i st' r)
  then show ?case by (intro image_mono remove_shape)
next
  case (edit_owner st user)
  show ?case unfolding remove_owned_by_def by (intro image_mono remove_ids_shape)
qed (unfold mark_defs, (erule set_state_shape)+)

text \<open>Runs in which a rule is only pushed while every rule of its client and protocol is settled:
  no other push is waiting for the client's answer and no replay is under way.\<close>

inductive settled_run :: "ServerRuleStore \<Rightarrow> bool" where
  settled_init: "distinct (map r_id rules) \<Longrightarrow> \<forall>r \<in> set rules. r_id r < u64_max \<Longrightarrow>
     \<forall>r \<in> set rules. \<forall>s \<in> set rules. r_id r \<noteq> r_id s \<longrightarrow> side_by_side r s \<Longrightarrow> settled_run (hydrate rs_new rules)"
| settled_push: "settled_run st \<Longrightarrow> push_range_with_targets st a now = Inr (st', r) \<Longrightarrow> rs_next_id st < u64_max \<Longrightarrow>
     pr_wf (pa_listen a) \<Longrightarrow>
     \<forall>s \<in> rules_of st. r_client_id s = pa_client_id a \<and> r_protocol s = pa_protocol a \<longrightarrow> blocks_port (r_state s) \<Longrightarrow>
     settled_run st'"
| settled_edit: "settled_run st \<Longrightarrow> rs_edit st st' \<Longrightarrow> settled_run st'"

lemma settled_reach: "settled_run st \<Longrightarrow> rs_reach st"
  by (induction rule: settled_run.induct) (auto intro: reach_init reach_step step_push step_edit)

lemma hydrate_rules: "rules_of (hydrate st rules) \<subseteq> rules_of st \<union> set rules"
proof (induction rules arbitrary: st)
  case (Cons r rules)
  have "rules_of (hydrate_rule st r) \<subseteq> insert r (rules_of st)"
    using set_update_sub [of "r_id r" r "rs_rules st"] by (simp add: hydrate_rule_def rules_of_def)
  then show ?case using Cons.IH [of "hydrate_rule st r"] by (auto simp: hydrate_def)
qed (simp add: hydrate_def)

lemma side_by_side_sym: "side_by_side r s = side_by_side s r"
  by (auto simp: side_by_side_def pr_overlaps_sym)

lemma new_side_by_side:
  assumes ok: "store_ok st" and wf: "pr_wf (pa_listen a)" and acc: "is_ok (check_conflicts st a)"
    and s: "s \<in> rules_of st" and b: "r_client_id s = pa_client_id a \<and> r_protocol s = pa_protocol a \<longrightarrow> blocks_port (r_state s)"
  shows "side_by_side (new_rule a i now) s"
proof -
  have "\<not> clashes st a s" using acc s by (simp add: check_conflicts_iff [OF ok wf])
  moreover have "pr_overlaps (pa_listen a) (listen_range s) \<longleftrightarrow> (\<exists>p. pr_contains (listen_range s) p \<and> pr_contains (pa_listen a) p)"
    unfolding pr_overlaps_sym [of "pa_listen a"]
    using wf by (intro overlaps_shared) (simp_all add: listen_range_def range_or_single_le pr_wf_def)
  moreover have "is_single_tcp (new_rule a i now) \<longleftrightarrow> candidate_is_single_tcp a"
    using wf pr_len_1_iff [of "pa_listen a"] pr_len_gt_1_iff [of "pa_listen a"]
    by (auto simp: is_single_tcp_def candidate_is_single_tcp_def end_of_def pr_wf_def)
  ultimately show ?thesis
    using b by (auto simp: side_by_side_def clashes_def listen_range_new [OF wf])
qed

lemma settled_pairs: "settled_run st \<Longrightarrow> pairs_ok st"
proof (induction rule: settled_run.induct)
  case (settled_init rules)
  then show ?case using hydrate_rules [of rs_new rules] by (auto simp: pairs_ok_def)
next
  case (settled_push st a now st' r)
  have ok: "store_ok st" using settled_push.hyps(1) by (intro reach_ok settled_reach)
  have r: "r = new_rule a (rs_next_id st) now" "is_ok (check_conflicts st a)"
    "rs_rules st' = AList.update (rs_next_id st) r (rs_rules st)"
    using settled_push.hyps(2) by (auto simp: push_Inr_iff)
  have sub: "rules_of st' \<subseteq> insert r (rules_of st)" using set_update_sub by (simp add: rules_of_def r(3))
  have new: "side_by_side r s" "side_by_side s r" if "s \<in> rules_of st" for s
    using new_side_by_side [OF ok settled_push.hyps(4) r(2) that] settled_push.hyps(5) that
    by (auto simp: r(1) side_by_side_sym [of s])
  show ?case unfolding pairs_ok_def
  proof (intro ballI impI)
    fix x y assume "x \<in> rules_of st'" "y \<in> rules_of st'" "r_id x \<noteq> r_id y"
    then show "side_by_side x y" using sub new settled_push.IH unfolding pairs_ok_def by (metis insertE subsetD)
  qed
next
  case (settled_edit st st')
  have old: "\<exists>r \<in> rules_of st. shape r' = shape r" if "r' \<in> rules_of st'" for r'
  proof -
    have "shape r' \<in> shape ` rules_of st" using edit_shape [OF settled_edit.hyps(2)] imageI [OF that] by (rule subsetD)
    then show ?thesis by (rule imageE) blast
  qed
  show ?case unfolding pairs_ok_def
  proof (intro ballI impI)
    fix x' y' assume "x' \<in> rules_of st'" "y' \<in> rules_of st'" and ne: "r_id x' \<noteq> r_id y'"
    then obtain x y where "x \<in> rules_of st" "y \<in> rules_of st" and sh: "shape x' = shape x" "shape y' = shape y"
      using old by meson
    moreover have "r_id x \<noteq> r_id y" using ne sh by (simp add: shape_def)
    ultimately show "side_by_side x' y'" using settled_edit.IH side_by_side_shape [OF sh] by (auto simp: pairs_ok_def)
  qed
qed

text \<open>C12 (settled_rules_never_collide): as long as every push finds the rules of its client and
  protocol settled, two rules of one client and protocol share a listen port only as selectors
  of one TLS listener: both are single-port TCP rules and their selectors differ.\<close>

theorem settled_rules_never_collide:
  assumes "settled_run st" and "r \<in> rules_of st" and "s \<in> rules_of st" and "r_id r \<noteq> r_id s"
    and "r_client_id r = r_client_id s" and "r_protocol r = r_protocol s"
    and "pr_contains (listen_range r) p" and "pr_contains (listen_range s) p"
  shows "is_single_tcp r \<and> is_single_tcp s \<and> r_listen_port r = p \<and> r_listen_port s = p \<and> r_sni r \<noteq> r_sni s"
proof -
  have "pr_overlaps (listen_range r) (listen_range s)" using assms(7,8) by (auto simp: pr_overlaps_def pr_contains_def)
  then have "is_single_tcp r \<and> is_single_tcp s \<and> r_sni r \<noteq> r_sni s"
    using settled_pairs [OF assms(1)] assms(2-6) by (auto simp: pairs_ok_def side_by_side_def)
  then show ?thesis
    using assms(7,8) by (auto simp: is_single_tcp_def listen_range_def range_or_single_def pr_contains_def pr_single_def)
qed

definition demo_pair :: "Rule list" where
  "demo_pair = [demo_rule, new_rule (demo_args (Some ''b.example'')) 1 6]"

theorem settled_rules_never_collide_witness:
  "rs_rules (hydrate rs_new demo_pair) = [(0, demo_rule), (1, new_rule (demo_args (Some ''b.example'')) 1 6)] \<and>
   is_single_tcp demo_rule"
proof
  show rs: "rs_rules (hydrate rs_new demo_pair) = [(0, demo_rule), (1, new_rule (demo_args (Some ''b.example'')) 1 6)]"
    by (simp add: hydrate_def hydrate_rule_def demo_pair_def rs_new_def demo_rule_def)
  have r: "settled_run (hydrate rs_new demo_pair)"
    by (rule settled_init)
      (simp_all add: demo_pair_def demo_rule_def side_by_side_def is_single_tcp_def demo_args_def end_of_def u64_max_def)
  show "is_single_tcp demo_rule"
    using settled_rules_never_collide [OF r, of demo_rule "new_rule (demo_args (Some ''b.example'')) 1 6" 443]
    by (simp add: rules_of_def rs demo_rule_def demo_args_def listen_range_def end_of_def range_or_single_def
        pr_single_def [of 443] pr_contains_def)
qed

text \<open>C37 (unanswered_pushes_collide): without that condition the check does not keep rules apart.  A
  request that is accepted is accepted again, with the same ports and selector, while the first
  push is still waiting for the client's answer; both rules can then become active.\<close>

theorem unanswered_pushes_collide:
  assumes "rs_reach st" and "rs_next_id st + 1 < u64_max" and "pr_wf (pa_listen a)"
    and "pa_sni a = None \<longrightarrow> (\<forall>s \<in> rules_of st. r_sni s = None)"
    and "push_range_with_targets st a now = Inr (st1, r1)"
  shows "\<exists>st2 r2 st3 st4. push_range_with_targets st1 a now' = Inr (st2, r2) \<and>
    mark_active st2 (r_id r1) t1 = Inr st3 \<and> mark_active st3 (r_id r2) t2 = Inr st4 \<and>
    (\<exists>x \<in> rules_of st4. \<exists>y \<in> rules_of st4. r_id x \<noteq> r_id y \<and> r_state x = RsActive \<and> r_state y = RsActive \<and>
       r_client_id x = r_client_id y \<and> r_protocol x = r_protocol y \<and> listen_range x = listen_range y \<and> r_sni x = r_sni y)"
proof -
  let ?n = "rs_next_id st" and ?n1 = "rs_next_id st + 1"
  have ok: "store_ok st" using assms(1) by (rule reach_ok)
  have ok1: "store_ok st1" using store_ok_push [OF ok assms(5)] assms(2) by simp
  have p: "pr_len (pa_listen a) = pr_len (pa_target a)" "pr_len (pa_listen a) \<le> pa_range_cap a" "is_ok (check_conflicts st a)"
    and r1: "r1 = new_rule a ?n now" and rs1: "rs_rules st1 = AList.update ?n r1 (rs_rules st)" and n1: "rs_next_id st1 = ?n1"
    using assms(2,5) by (auto simp: push_Inr_iff wrap64_def u64_max_def)
  have sub: "rules_of st1 \<subseteq> insert r1 (rules_of st)" using set_update_sub by (simp add: rules_of_def rs1)
  have "\<not> clashes st1 a r" if "r \<in> rules_of st1" for r
  proof (cases "r = r1")
    case True
    then show ?thesis by (simp add: clashes_def r1)
  next
    case False
    then have "r \<in> rules_of st" using that sub by auto
    then have "\<not> clashes st a r" "pa_sni a = None \<longrightarrow> r_sni r = None"
      using p(3) assms(4) by (simp_all add: check_conflicts_iff [OF ok assms(3)])
    then show ?thesis by (auto simp: clashes_def)
  qed
  then have "is_ok (check_conflicts st1 a)" by (simp add: check_conflicts_iff [OF ok1 assms(3)])
  then obtain st2 r2 where push2: "push_range_with_targets st1 a now' = Inr (st2, r2)"
    and r2: "r2 = new_rule a ?n1 now'" and rs2: "rs_rules st2 = AList.update ?n1 r2 (rs_rules st1)"
    using p(1,2) by (simp add: push_Inr_iff n1)
  define x y where "x = r1\<lparr>r_state := RsActive, r_last_state_change_at := t1\<rparr>"
    and "y = r2\<lparr>r_state := RsActive, r_last_state_change_at := t2\<rparr>"
  define st3 where "st3 = st2\<lparr>rs_rules := AList.update ?n x (rs_rules st2)\<rparr>"
  define st4 where "st4 = st3\<lparr>rs_rules := AList.update ?n1 y (rs_rules st3)\<rparr>"
  have "mark_active st2 (r_id r1) t1 = Inr st3" "mark_active st3 (r_id r2) t2 = Inr st4"
    by (simp_all add: mark_active_def set_state_def r1 r2 rs1 rs2 st3_def st4_def x_def y_def update_conv')
  moreover have "map_of (rs_rules st4) ?n = Some x" "map_of (rs_rules st4) ?n1 = Some y"
    by (simp_all add: st4_def st3_def update_conv')
  then have "x \<in> rules_of st4" "y \<in> rules_of st4"
    unfolding rules_of_def by (auto dest!: map_of_SomeD intro: rev_image_eqI)
  moreover have "r_id x \<noteq> r_id y \<and> r_state x = RsActive \<and> r_state y = RsActive \<and> r_client_id x = r_client_id y \<and>
      r_protocol x = r_protocol y \<and> listen_range x = listen_range y \<and> r_sni x = r_sni y"
    by (simp add: listen_range_def x_def y_def r1 r2)
  ultimately show ?thesis using push2 by blast
qed

theorem unanswered_pushes_collide_witness:
  "push_range_with_targets rs_new (demo_args (Some ''a.example'')) 5 = Inr (demo_store, demo_rule) \<and>
   (\<exists>st2 r2. push_range_with_targets demo_store (demo_args (Some ''a.example'')) 6 = Inr (st2, r2))"
proof
  show "push_range_with_targets rs_new (demo_args (Some ''a.example'')) 5 = Inr (demo_store, demo_rule)" by (rule demo_push)
  show "\<exists>st2 r2. push_range_with_targets demo_store (demo_args (Some ''a.example'')) 6 = Inr (st2, r2)"
    using unanswered_pushes_collide [OF rs_new_reach _ _ _ demo_push, of 6 7 8]
    by (auto simp: rs_new_def u64_max_def demo_args_def pr_wf_def pr_single_def)
qed

end
