(* ===== verification/Rbac.thy ===== *)
theory Rbac
  imports Rule_Store Web_Auth
begin

text \<open>
  Authorisation, crates/portunus-server/src/operator/rbac.rs: who may push a rule, read one, or use
  an administrative endpoint.  The functions are pure; the grants are those of the caller.
\<close>

datatype PushProtocol = PpTcp | PpUdp

fun pp_as_set :: "PushProtocol \<Rightarrow> ProtocolSet" where
  "pp_as_set PpTcp = PS_TCP"
| "pp_as_set PpUdp = PS_UDP"

record PushRequest =
  pq_client :: ClientName
  pq_listen_port_start :: u16
  pq_listen_port_end :: u16
  pq_protocol :: PushProtocol

fun matches_client :: "ClientScope \<Rightarrow> ClientName \<Rightarrow> bool" where
  "matches_client ScopeAny want = True"
| "matches_client (ScopeNamed n) want = (n = want)"

definition enforce_push :: "OperatorIdentity \<Rightarrow> PushRequest \<Rightarrow> Grant list \<Rightarrow> (RbacError, unit) result" where
  "enforce_push identity push grants =
     (if oi_role identity = Superadmin then Inr ()
      else let proto_set = pp_as_set (pq_protocol push);
               client_match = filter (\<lambda>g. matches_client (g_client g) (pq_client push)) grants in
        if client_match = [] then Inl ClientNotGranted
        else let proto_match = filter (\<lambda>g. ps_contains (g_protocols g) proto_set) client_match in
          if proto_match = [] then Inl ProtocolNotGranted
          else if \<not> list_ex (\<lambda>g. g_listen_port_start g \<le> pq_listen_port_start push \<and>
                              pq_listen_port_end push \<le> g_listen_port_end g) proto_match
          then Inl PortOutsideGrant
          else Inr ())"

definition enforce_read :: "OperatorIdentity \<Rightarrow> UserId \<Rightarrow> (RbacError, unit) result" where
  "enforce_read identity rule_owner =
     (if oi_role identity = Superadmin then Inr ()
      else if oi_user_id identity = rule_owner then Inr () else Inl NotOwner)"

definition filter_visible :: "OperatorIdentity \<Rightarrow> Rule list \<Rightarrow> Rule list" where
  "filter_visible identity rules =
     (if oi_role identity = Superadmin then rules else filter (\<lambda>r. r_owner r = oi_user_id identity) rules)"

definition require_role :: "OperatorIdentity \<Rightarrow> OperatorRole \<Rightarrow> (RbacError, unit) result" where
  "require_role identity required =
     (if oi_role identity = Superadmin then Inr ()
      else if oi_role identity = required then Inr () else Inl RoleRequired)"

section \<open>Coverage\<close>

text \<open>One single grant covers every dimension of the request.\<close>

definition grant_covers :: "Grant \<Rightarrow> PushRequest \<Rightarrow> bool" where
  "grant_covers g q \<longleftrightarrow> matches_client (g_client g) (pq_client q) \<and> ps_contains (g_protocols g) (pp_as_set (pq_protocol q)) \<and>
     g_listen_port_start g \<le> pq_listen_port_start q \<and> pq_listen_port_end q \<le> g_listen_port_end g"

lemma enforce_push_ok_iff:
  "is_ok (enforce_push identity q grants) \<longleftrightarrow> oi_role identity = Superadmin \<or> (\<exists>g \<in> set grants. grant_covers g q)"
  by (auto simp: enforce_push_def grant_covers_def Let_def list_ex_iff filter_empty_conv split: if_split)

lemma enforce_push_unit: "enforce_push identity q grants = Inr () \<longleftrightarrow> is_ok (enforce_push identity q grants)"
  by (cases "enforce_push identity q grants") simp_all

lemma require_superadmin_iff: "require_role identity Superadmin = Inr () \<longleftrightarrow> oi_role identity = Superadmin"
  by (simp add: require_role_def)

lemma enforce_read_iff: "is_ok (enforce_read identity owner) \<longleftrightarrow> oi_role identity = Superadmin \<or> oi_user_id identity = owner"
  by (simp add: enforce_read_def)

end
