(* ===== verification/Client_Registry.thy ===== *)
theory Client_Registry
  imports Identity "HOL-Library.AList"
begin

text \<open>
  The registry of connected clients, crates/portunus-server/src/clients.rs.  A session is its
  number: the cancel token, the outbound channel and the table of status waiters of a session are
  reached through it, and firing a token adds the session to the cancelled ones.  The hash map is
  an association list with one entry per client; where the source takes the first match of an
  unordered walk the model takes the first in list order.
\<close>

datatype WireProtocol = WpUnspecified | WpTcp | WpUdp

record ConnectedClient =
  cl_client_name :: ClientName
  cl_remote_addr :: "string option"
  cl_connected_at :: timestamp
  cl_session_id :: nat
  cl_supported_protocols :: "WireProtocol list"
  cl_client_version :: "string option"

definition cl_supports :: "ConnectedClient \<Rightarrow> WireProtocol \<Rightarrow> bool" where
  "cl_supports c p \<longleftrightarrow> p \<noteq> WpUnspecified \<and> p \<in> set (cl_supported_protocols c)"

record ConnectedClients =
  cs_inner :: "(ClientId \<times> ConnectedClient) list"
  cs_next_session :: nat
  cs_cancelled :: "nat list"
  cs_root_cancelled :: bool

definition cs_new :: ConnectedClients where
  "cs_new = \<lparr>cs_inner = [], cs_next_session = 0, cs_cancelled = [], cs_root_cancelled = False\<rparr>"

definition cs_register ::
  "ConnectedClients \<Rightarrow> ClientId \<Rightarrow> ClientName \<Rightarrow> string option \<Rightarrow> timestamp \<Rightarrow> ConnectedClients \<times> nat" where
  "cs_register cs client_id client_name remote_addr now =
     (let session_id = cs_next_session cs;
          entry = \<lparr>cl_client_name = client_name, cl_remote_addr = remote_addr, cl_connected_at = now,
                   cl_session_id = session_id, cl_supported_protocols = [WpTcp], cl_client_version = None\<rparr>;
          cancelled = (case map_of (cs_inner cs) client_id of
              None \<Rightarrow> cs_cancelled cs | Some prev \<Rightarrow> cl_session_id prev # cs_cancelled cs)
      in (cs\<lparr>cs_next_session := wrap64 (session_id + 1), cs_inner := AList.update client_id entry (cs_inner cs),
             cs_cancelled := cancelled\<rparr>, session_id))"

text \<open>An update of the entry, guarded by the session it comes from.\<close>

definition update_session ::
  "ConnectedClients \<Rightarrow> ClientId \<Rightarrow> nat \<Rightarrow> (ConnectedClient \<Rightarrow> ConnectedClient) \<Rightarrow> ConnectedClients \<times> bool" where
  "update_session cs client_id session_id f =
     (case map_of (cs_inner cs) client_id of
        None \<Rightarrow> (cs, False)
      | Some existing \<Rightarrow>
          if cl_session_id existing = session_id
          then (cs\<lparr>cs_inner := AList.update client_id (f existing) (cs_inner cs)\<rparr>, True)
          else (cs, False))"

definition set_supported_protocols ::
  "ConnectedClients \<Rightarrow> ClientId \<Rightarrow> nat \<Rightarrow> WireProtocol list \<Rightarrow> ConnectedClients \<times> bool" where
  "set_supported_protocols cs client_id session_id caps =
     update_session cs client_id session_id (\<lambda>c. c\<lparr>cl_supported_protocols := caps\<rparr>)"

definition set_client_version :: "ConnectedClients \<Rightarrow> ClientId \<Rightarrow> nat \<Rightarrow> string \<Rightarrow> ConnectedClients \<times> bool" where
  "set_client_version cs client_id session_id version =
     update_session cs client_id session_id (\<lambda>c. c\<lparr>cl_client_version := Some version\<rparr>)"

definition cs_supports :: "ConnectedClients \<Rightarrow> ClientId \<Rightarrow> WireProtocol \<Rightarrow> bool option" where
  "cs_supports cs client_id p = map_option (\<lambda>c. cl_supports c p) (map_of (cs_inner cs) client_id)"

definition client_version_of :: "ConnectedClients \<Rightarrow> ClientId \<Rightarrow> string option" where
  "client_version_of cs client_id =
     (case map_of (cs_inner cs) client_id of None \<Rightarrow> None | Some c \<Rightarrow> cl_client_version c)"

definition handles :: "ConnectedClients \<Rightarrow> ClientId \<Rightarrow> nat option" where
  "handles cs client_id = map_option cl_session_id (map_of (cs_inner cs) client_id)"

definition unregister :: "ConnectedClients \<Rightarrow> ClientId \<Rightarrow> nat \<Rightarrow> ConnectedClients" where
  "unregister cs client_id session_id =
     (case map_of (cs_inner cs) client_id of
        None \<Rightarrow> cs
      | Some existing \<Rightarrow>
          if cl_session_id existing = session_id then cs\<lparr>cs_inner := AList.delete client_id (cs_inner cs)\<rparr> else cs)"

definition cs_disconnect :: "ConnectedClients \<Rightarrow> ClientId \<Rightarrow> ConnectedClients \<times> bool" where
  "cs_disconnect cs client_id =
     (case map_of (cs_inner cs) client_id of
        None \<Rightarrow> (cs, False)
      | Some c \<Rightarrow> (cs\<lparr>cs_cancelled := cl_session_id c # cs_cancelled cs\<rparr>, True))"

text \<open>The bridges for callers that hold a display name only.\<close>

definition find_by_name :: "ConnectedClients \<Rightarrow> ClientName \<Rightarrow> (ClientId \<times> ConnectedClient) option" where
  "find_by_name cs client_name = find (\<lambda>(i, c). cl_client_name c = client_name) (cs_inner cs)"

definition handles_by_name :: "ConnectedClients \<Rightarrow> ClientName \<Rightarrow> nat option" where
  "handles_by_name cs client_name = map_option (\<lambda>(i, c). cl_session_id c) (find_by_name cs client_name)"

definition client_id_by_name :: "ConnectedClients \<Rightarrow> ClientName \<Rightarrow> ClientId option" where
  "client_id_by_name cs client_name = map_option fst (find_by_name cs client_name)"

definition client_version_by_name :: "ConnectedClients \<Rightarrow> ClientName \<Rightarrow> string option" where
  "client_version_by_name cs client_name =
     (case find_by_name cs client_name of None \<Rightarrow> None | Some (i, c) \<Rightarrow> cl_client_version c)"

definition supports_by_name :: "ConnectedClients \<Rightarrow> ClientName \<Rightarrow> WireProtocol \<Rightarrow> bool option" where
  "supports_by_name cs client_name p = map_option (\<lambda>(i, c). cl_supports c p) (find_by_name cs client_name)"

definition disconnect_by_name :: "ConnectedClients \<Rightarrow> ClientName \<Rightarrow> ConnectedClients \<times> bool" where
  "disconnect_by_name cs client_name =
     (let named = filter (\<lambda>(i, c). cl_client_name c = client_name) (cs_inner cs)
      in (cs\<lparr>cs_cancelled := map (\<lambda>(i, c). cl_session_id c) named @ cs_cancelled cs\<rparr>, named \<noteq> []))"

definition cs_len :: "ConnectedClients \<Rightarrow> nat" where
  "cs_len cs = length (cs_inner cs)"

definition cs_shutdown :: "ConnectedClients \<Rightarrow> ConnectedClients" where
  "cs_shutdown cs = cs\<lparr>cs_root_cancelled := True\<rparr>"

section \<open>Sessions\<close>

text \<open>What the sessions of the server do to the registry, with the sessions opened so far and
  the sessions that ended by themselves.\<close>

datatype session_op =
    SoRegister ClientId ClientName "string option" timestamp
  | SoHello ClientId nat "WireProtocol list" string
  | SoEnd ClientId nat
  | SoRevoke ClientId
  | SoRevokeName ClientName

record session_world =
  sw_clients :: ConnectedClients
  sw_opened :: "(ClientId \<times> nat) list"
  sw_ended :: "(ClientId \<times> nat) list"

definition sw_init :: session_world where
  "sw_init = \<lparr>sw_clients = cs_new, sw_opened = [], sw_ended = []\<rparr>"

fun sw_apply :: "session_world \<Rightarrow> session_op \<Rightarrow> session_world" where
  "sw_apply w (SoRegister i n r t) =
     (let (cs, s) = cs_register (sw_clients w) i n r t in w\<lparr>sw_clients := cs, sw_opened := (i, s) # sw_opened w\<rparr>)"
| "sw_apply w (SoHello i s caps v) =
     w\<lparr>sw_clients := fst (set_client_version (fst (set_supported_protocols (sw_clients w) i s caps)) i s v)\<rparr>"
| "sw_apply w (SoEnd i s) = w\<lparr>sw_clients := unregister (sw_clients w) i s, sw_ended := (i, s) # sw_ended w\<rparr>"
| "sw_apply w (SoRevoke i) = w\<lparr>sw_clients := fst (cs_disconnect (sw_clients w) i)\<rparr>"
| "sw_apply w (SoRevokeName n) = w\<lparr>sw_clients := fst (disconnect_by_name (sw_clients w) n)\<rparr>"

definition current :: "ConnectedClients \<Rightarrow> ClientId \<Rightarrow> nat \<Rightarrow> bool" where
  "current cs i s \<longleftrightarrow> (\<exists>c. map_of (cs_inner cs) i = Some c \<and> cl_session_id c = s)"

text \<open>Every session is current, or it ended, or its token has been fired; the current session is
  the last one opened for the client.\<close>

definition sw_inv :: "session_world \<Rightarrow> bool" where
  "sw_inv w \<longleftrightarrow> cs_next_session (sw_clients w) = length (sw_opened w) \<and> set (sw_ended w) \<subseteq> set (sw_opened w) \<and>
     (\<forall>(i, s) \<in> set (sw_opened w). s < length (sw_opened w) \<and>
        (current (sw_clients w) i s \<or> (i, s) \<in> set (sw_ended w) \<or> s \<in> set (cs_cancelled (sw_clients w)))) \<and>
     (\<forall>i s. current (sw_clients w) i s \<longrightarrow> map_of (sw_opened w) i = Some s \<and> (i, s) \<notin> set (sw_ended w))"

lemma map_of_update: "map_of (AList.update k v xs) k' = (if k' = k then Some v else map_of xs k')"
  by (simp add: update_conv')

lemma map_of_delete: "map_of (AList.delete k xs) k' = (if k' = k then None else map_of xs k')"
  by (simp add: delete_conv')

lemma current_update_session:
  "(\<And>c. cl_session_id (f c) = cl_session_id c) \<Longrightarrow> current (fst (update_session cs i s f)) = current cs"
  by (intro ext) (auto simp: current_def update_session_def map_of_update split: option.splits)

lemma update_session_frame:
  "cs_next_session (fst (update_session cs i s f)) = cs_next_session cs"
  "cs_cancelled (fst (update_session cs i s f)) = cs_cancelled cs"
  by (auto simp: update_session_def split: option.splits)

lemma current_unregister: "current (unregister cs i s) j t \<longleftrightarrow> current cs j t \<and> (j, t) \<noteq> (i, s)"
  by (auto simp: current_def unregister_def map_of_delete split: option.splits)

lemma unregister_frame:
  "cs_next_session (unregister cs i s) = cs_next_session cs" "cs_cancelled (unregister cs i s) = cs_cancelled cs"
  by (auto simp: unregister_def split: option.splits)

lemma current_cancelled: "current (cs\<lparr>cs_cancelled := xs\<rparr>) = current cs"
  by (intro ext) (simp add: current_def)

lemma current_register:
  "current (fst (cs_register cs i n r t)) j s \<longleftrightarrow> (if j = i then s = cs_next_session cs else current cs j s)"
  by (auto simp: current_def cs_register_def map_of_update Let_def)

lemma register_cancelled:
  "set (cs_cancelled (fst (cs_register cs i n r t))) = {s. current cs i s} \<union> set (cs_cancelled cs)"
  by (auto simp: cs_register_def current_def Let_def split: option.splits)

lemma register_next: "cs_next_session (fst (cs_register cs i n r t)) = wrap64 (cs_next_session cs + 1)"
  "snd (cs_register cs i n r t) = cs_next_session cs"
  by (simp_all add: cs_register_def Let_def)

lemmas session_frames = current_update_session update_session_frame current_unregister unregister_frame
  current_cancelled current_register register_cancelled register_next

lemma sw_inv_mono:
  assumes "sw_inv w" and "cs_next_session cs = cs_next_session (sw_clients w)"
    and "current cs = current (sw_clients w)" and "set (cs_cancelled (sw_clients w)) \<subseteq> set (cs_cancelled cs)"
  shows "sw_inv (w\<lparr>sw_clients := cs\<rparr>)"
  using assms by (auto simp: sw_inv_def)

text \<open>A session ends only if it was opened; the session counter does not wrap around.\<close>

inductive sw_reach :: "session_world \<Rightarrow> bool" where
  sw_start: "sw_reach sw_init"
| sw_open: "sw_reach w \<Longrightarrow> length (sw_opened w) < u64_max \<Longrightarrow> sw_reach (sw_apply w (SoRegister i n r t))"
| sw_hello: "sw_reach w \<Longrightarrow> sw_reach (sw_apply w (SoHello i s caps v))"
| sw_end: "sw_reach w \<Longrightarrow> (i, s) \<in> set (sw_opened w) \<Longrightarrow> sw_reach (sw_apply w (SoEnd i s))"
| sw_revoke: "sw_reach w \<Longrightarrow> sw_reach (sw_apply w (SoRevoke i))"
| sw_revoke_name: "sw_reach w \<Longrightarrow> sw_reach (sw_apply w (SoRevokeName n))"

lemma sw_inv_reach: "sw_reach w \<Longrightarrow> sw_inv w"
proof (induction rule: sw_reach.induct)
  case sw_start
  then show ?case by (simp add: sw_inv_def sw_init_def cs_new_def current_def)
next
  case (sw_open w i n r t)
  have nx: "cs_next_session (sw_clients w) = length (sw_opened w)" using sw_open.IH by (simp add: sw_inv_def)
  have sel: "sw_clients (sw_apply w (SoRegister i n r t)) = fst (cs_register (sw_clients w) i n r t)"
    "sw_opened (sw_apply w (SoRegister i n r t)) = (i, length (sw_opened w)) # sw_opened w"
    "sw_ended (sw_apply w (SoRegister i n r t)) = sw_ended w"
    by (simp_all add: case_prod_beta register_next nx)
  let ?n = "length (sw_opened w)" and ?cs = "fst (cs_register (sw_clients w) i n r t)"
  have old: "s < ?n \<and> (current ?cs j s \<or> (j, s) \<in> set (sw_ended w) \<or> s \<in> set (cs_cancelled ?cs))"
    if "(j, s) \<in> set (sw_opened w)" for j s
    using sw_open.IH that by (cases "j = i") (auto simp: sw_inv_def session_frames)
  have fresh: "(i, ?n) \<notin> set (sw_ended w)" using sw_open.IH by (auto simp: sw_inv_def)
  have new: "map_of ((i, ?n) # sw_opened w) j = Some s \<and> (j, s) \<notin> set (sw_ended w)" if "current ?cs j s" for j s
    using sw_open.IH that fresh by (cases "j = i") (simp_all add: sw_inv_def session_frames)
  show ?case
    unfolding sw_inv_def sel using sw_open.IH sw_open.hyps(2) old new
    by (auto simp: session_frames nx sw_inv_def less_Suc_eq)
next
  case (sw_hello w i s caps v)
  then show ?case
    by (auto intro!: sw_inv_mono simp: set_client_version_def set_supported_protocols_def session_frames)
next
  case (sw_end w i s)
  then show ?case by (auto simp: sw_inv_def session_frames)
next
  case (sw_revoke w i)
  then show ?case
    by (auto intro!: sw_inv_mono simp: cs_disconnect_def session_frames split: option.splits)
next
  case (sw_revoke_name w n)
  then show ?case
    by (auto intro!: sw_inv_mono simp: disconnect_by_name_def session_frames Let_def)
qed


lemma not_current_update: "\<not> current cs i s \<Longrightarrow> update_session cs i s f = (cs, False)"
  by (auto simp: current_def update_session_def split: option.splits)

lemma not_current_unregister: "\<not> current cs i s \<Longrightarrow> unregister cs i s = cs"
  by (auto simp: current_def unregister_def split: option.splits)

text \<open>C28 (superseded_session_harmless): once a client has opened a newer session, every earlier one
  has ended or its cancel token has been fired, and whatever it still does (a late Hello, its
  clean-up) leaves the registry as it is.\<close>

theorem superseded_session_harmless:
  assumes "sw_reach w" and "(i, s) \<in> set (sw_opened w)" and "map_of (sw_opened w) i \<noteq> Some s"
  shows "((i, s) \<in> set (sw_ended w) \<or> s \<in> set (cs_cancelled (sw_clients w))) \<and>
    set_supported_protocols (sw_clients w) i s caps = (sw_clients w, False) \<and>
    set_client_version (sw_clients w) i s v = (sw_clients w, False) \<and>
    unregister (sw_clients w) i s = sw_clients w"
proof -
  have "\<not> current (sw_clients w) i s" using sw_inv_reach [OF assms(1)] assms(3) by (auto simp: sw_inv_def)
  then show ?thesis
    using sw_inv_reach [OF assms(1)] assms(2)
    by (auto simp: sw_inv_def set_supported_protocols_def set_client_version_def not_current_update not_current_unregister)
qed

definition demo_sessions :: session_world where
  "demo_sessions = sw_apply (sw_apply sw_init (SoRegister 7 (ClientName ''edge'') None 0)) (SoRegister 7 (ClientName ''edge'') None 1)"

theorem superseded_session_harmless_witness:
  "0 \<in> set (cs_cancelled (sw_clients demo_sessions)) \<and> unregister (sw_clients demo_sessions) 7 0 = sw_clients demo_sessions"
proof -
  have opened: "sw_opened demo_sessions = [(7, 1), (7, 0)]" "sw_ended demo_sessions = []"
    by (simp_all add: demo_sessions_def sw_init_def cs_new_def cs_register_def u64_max_def)
  have "sw_reach demo_sessions"
    unfolding demo_sessions_def
    by (intro sw_reach.intros) (simp_all add: sw_init_def cs_new_def cs_register_def u64_max_def)
  from superseded_session_harmless [OF this, of 7 0] show ?thesis by (simp add: opened)
qed

end
