(* ===== verification/Wire.thy ===== *)
theory Wire
  imports Rule_Store Client_Registry
begin

text \<open>
  The control protocol between server and client: the messages of proto/portunus.proto as far as
  rules, owner limits and quotas need them, the server's encoding of a rule (grpc/service.rs and
  operator/cli.rs) and the client's decoding of it (the push branch of handle_server_message in
  crates/portunus-client/src/control.rs).  Enumerations travel as integers.  The byte encoding of
  protobuf and the transport are third-party code: a message arrives as it was sent.
\<close>

section \<open>Messages\<close>

record ProtoTarget =
  pt_host :: string
  pt_port :: u32
  pt_priority :: nat
  pt_proxy_protocol :: "int option"

record ProtoRule =
  w_rule_id :: nat
  w_listen_port :: u32
  w_target_host :: string
  w_target_port :: u32
  w_protocol :: int
  w_listen_port_end :: u32
  w_target_port_end :: u32
  w_prefer_ipv6 :: "bool option"
  w_targets :: "ProtoTarget list"
  w_health_check :: nat
  w_sni :: "string option"
  w_rate_limit :: "RateLimit option"
  w_owner_id :: "string option"

record TrafficQuotaState =
  tq_monthly_bytes :: int
  tq_budget_remaining_bytes :: int
  tq_period_started_at :: int
  tq_period_ends_at :: int
  tq_exhausted :: bool

datatype ServerMessage =
    RuleUpdate string int "ProtoRule option"
  | OwnerRateLimitUpdate string string "RateLimit option" int ClientId
  | TrafficQuotaUpdate string string string int "TrafficQuotaState option" ClientId
  | Welcome

datatype RuleAction = ActUnspecified | ActPush | ActRemove

fun rule_action :: "RuleAction \<Rightarrow> int" where
  "rule_action ActUnspecified = 0"
| "rule_action ActPush = 1"
| "rule_action ActRemove = 2"

definition rule_action_of :: "int \<Rightarrow> RuleAction" where
  "rule_action_of n = (if n = 1 then ActPush else if n = 2 then ActRemove else ActUnspecified)"

fun proto_protocol :: "Protocol \<Rightarrow> int" where
  "proto_protocol Tcp = 1"
| "proto_protocol Udp = 2"

fun proto_proxy :: "ProxyProtocolVersion \<Rightarrow> int" where
  "proto_proxy V1 = 1"
| "proto_proxy V2 = 2"

section \<open>Encoding\<close>

definition proto_target :: "RuleTarget \<Rightarrow> ProtoTarget" where
  "proto_target t = \<lparr>pt_host = rt_host t, pt_port = ucast (rt_port t), pt_priority = rt_priority t,
     pt_proxy_protocol = map_option proto_proxy (rt_proxy_protocol t)\<rparr>"

definition end_or_zero :: "u16 option \<Rightarrow> u32" where
  "end_or_zero e = (case e of None \<Rightarrow> 0 | Some p \<Rightarrow> ucast p)"

definition proto_rule_from_rule :: "Rule \<Rightarrow> ProtoRule" where
  "proto_rule_from_rule r =
     \<lparr>w_rule_id = r_id r, w_listen_port = ucast (r_listen_port r), w_target_host = r_target_host r,
      w_target_port = ucast (r_target_port r), w_protocol = proto_protocol (r_protocol r),
      w_listen_port_end = end_or_zero (r_listen_port_end r), w_target_port_end = end_or_zero (r_target_port_end r),
      w_prefer_ipv6 = r_prefer_ipv6 r, w_targets = map proto_target (r_targets r),
      w_health_check = (case r_health_check r of None \<Rightarrow> 0 | Some n \<Rightarrow> n), w_sni = r_sni r,
      w_rate_limit = r_rate_limit r, w_owner_id = Some (uid_as_str (r_owner r))\<rparr>"

text \<open>The push of a single-target rule, of a rule with targets, the update of a limit and the
  removal each build the message themselves.\<close>

definition end_if_range :: "PortRange \<Rightarrow> u32" where
  "end_if_range r = (if pr_len r > 1 then ucast (pr_end r) else 0)"

definition single_push_rule :: "Rule \<Rightarrow> PortRange \<Rightarrow> string \<Rightarrow> PortRange \<Rightarrow> Protocol \<Rightarrow> bool option \<Rightarrow> ProtoRule" where
  "single_push_rule rule listen target_host target proto prefer_ipv6 =
     \<lparr>w_rule_id = r_id rule, w_listen_port = ucast (pr_start listen), w_target_host = target_host,
      w_target_port = ucast (pr_start target), w_protocol = proto_protocol proto,
      w_listen_port_end = end_if_range listen, w_target_port_end = end_if_range target, w_prefer_ipv6 = prefer_ipv6,
      w_targets = [], w_health_check = 0, w_sni = None, w_rate_limit = None,
      w_owner_id = Some (uid_as_str (r_owner rule))\<rparr>"

definition multi_push_rule ::
  "Rule \<Rightarrow> PortRange \<Rightarrow> RuleTarget list \<Rightarrow> nat option \<Rightarrow> Protocol \<Rightarrow> bool option \<Rightarrow> ProtoRule" where
  "multi_push_rule rule listen targets health_check proto prefer_ipv6 =
     \<lparr>w_rule_id = r_id rule, w_listen_port = ucast (pr_start listen), w_target_host = rt_host (hd targets),
      w_target_port = ucast (rt_port (hd targets)), w_protocol = proto_protocol proto,
      w_listen_port_end = end_if_range listen, w_target_port_end = 0, w_prefer_ipv6 = prefer_ipv6,
      w_targets = map proto_target targets, w_health_check = (case health_check of None \<Rightarrow> 0 | Some n \<Rightarrow> n),
      w_sni = r_sni rule, w_rate_limit = r_rate_limit rule, w_owner_id = Some (uid_as_str (r_owner rule))\<rparr>"

definition limit_update_rule :: "Rule \<Rightarrow> ProtoRule" where
  "limit_update_rule updated =
     (let first = hd (targets_view updated); listen = listen_range updated in
      \<lparr>w_rule_id = r_id updated, w_listen_port = ucast (pr_start listen), w_target_host = r_target_host updated,
       w_target_port = ucast (rt_port first), w_protocol = proto_protocol (r_protocol updated),
       w_listen_port_end = end_if_range listen, w_target_port_end = end_or_zero (r_target_port_end updated),
       w_prefer_ipv6 = r_prefer_ipv6 updated, w_targets = map proto_target (r_targets updated),
       w_health_check = (case r_health_check updated of None \<Rightarrow> 0 | Some n \<Rightarrow> n), w_sni = r_sni updated,
       w_rate_limit = r_rate_limit updated, w_owner_id = Some (uid_as_str (r_owner updated))\<rparr>)"

definition removal_rule :: "Rule \<Rightarrow> ProtoRule" where
  "removal_rule removed =
     \<lparr>w_rule_id = r_id removed, w_listen_port = ucast (r_listen_port removed), w_target_host = r_target_host removed,
      w_target_port = ucast (r_target_port removed), w_protocol = proto_protocol Tcp,
      w_listen_port_end = end_or_zero (r_listen_port_end removed),
      w_target_port_end = end_or_zero (r_target_port_end removed), w_prefer_ipv6 = r_prefer_ipv6 removed,
      w_targets = [], w_health_check = 0, w_sni = None, w_rate_limit = None, w_owner_id = None\<rparr>"

section \<open>Decoding\<close>

record ClientRule =
  k_rule_id :: nat
  k_listen_range :: PortRange
  k_target_host :: string
  k_target :: Target
  k_target_range :: PortRange
  k_prefer_ipv6 :: bool
  k_protocol :: Protocol
  k_targets :: "(RuleTarget \<times> Target) list"
  k_health_check :: "nat option"
  k_sni :: "string option"
  k_rate_limit :: "RateLimit option"
  k_owner :: "string option"

definition try_u16 :: "u32 \<Rightarrow> u16 option" where
  "try_u16 n = (if n \<le> 65535 then Some (ucast n) else None)"

definition port_or_zero :: "u32 \<Rightarrow> u16" where
  "port_or_zero n = (case try_u16 n of None \<Rightarrow> 0 | Some p \<Rightarrow> p)"

definition end_or :: "u16 \<Rightarrow> u32 \<Rightarrow> u16" where
  "end_or port n = (case try_u16 n of None \<Rightarrow> port | Some e \<Rightarrow> if e \<noteq> 0 then e else port)"

definition decode_proxy :: "int option \<Rightarrow> ProxyProtocolVersion option" where
  "decode_proxy v = (case v of None \<Rightarrow> None | Some n \<Rightarrow> if n = 1 then Some V1 else if n = 2 then Some V2 else None)"

fun decode_targets :: "nat \<Rightarrow> ProtoTarget list \<Rightarrow> (string, (RuleTarget \<times> Target) list) result" where
  "decode_targets idx [] = Inr []"
| "decode_targets idx (t # ts) =
     (case target_parse (pt_host t) of
        Inl _ \<Rightarrow> Inl ''invalid_target_host''
      | Inr parsed \<Rightarrow>
          (case try_u16 (pt_port t) of
             Some p \<Rightarrow>
               if p > 0
               then rbind (decode_targets (Suc idx) ts) (\<lambda>out.
                 Inr ((\<lparr>rt_host = pt_host t, rt_port = p, rt_priority = pt_priority t,
                        rt_proxy_protocol = decode_proxy (pt_proxy_protocol t)\<rparr>, parsed) # out))
               else Inl (''target_invalid_port:'' @ show_dec idx)
           | None \<Rightarrow> Inl (''target_invalid_port:'' @ show_dec idx)))"

definition decode_rule :: "ProtoRule \<Rightarrow> (string, ClientRule) result" where
  "decode_rule rule =
     (let listen_port = port_or_zero (w_listen_port rule);
          target_port = port_or_zero (w_target_port rule);
          listen_end = end_or listen_port (w_listen_port_end rule);
          target_end = end_or target_port (w_target_port_end rule) in
      rbind (map_err (\<lambda>_. ''range_invalid'') (pr_new listen_port listen_end)) (\<lambda>listen_range.
      rbind (map_err (\<lambda>_. ''range_invalid'') (pr_new target_port target_end)) (\<lambda>target_range.
      rbind (map_err (\<lambda>_. ''invalid_target_host'') (target_parse (w_target_host rule))) (\<lambda>target.
      rbind (decode_targets 0 (w_targets rule)) (\<lambda>multi_targets.
      Inr \<lparr>k_rule_id = w_rule_id rule, k_listen_range = listen_range, k_target_host = w_target_host rule, k_target = target,
           k_target_range = target_range,
           k_prefer_ipv6 = (case w_prefer_ipv6 rule of None \<Rightarrow> False | Some b \<Rightarrow> b),
           k_protocol = (if w_protocol rule = 2 then Udp else Tcp), k_targets = multi_targets,
           k_health_check = (if w_health_check rule = 0 then None else Some (w_health_check rule)),
           k_sni = w_sni rule, k_rate_limit = w_rate_limit rule,
           k_owner = (case w_owner_id rule of None \<Rightarrow> None | Some s \<Rightarrow> if s = [] then None else Some s)\<rparr>)))))"


section \<open>One rule on both sides\<close>

text \<open>The four encodings agree with the one used for replay, up to what a removal leaves out.\<close>

lemma end_if_range_end_of: "end_if_range r = end_or_zero (end_of r)"
  by (simp add: end_if_range_def end_or_zero_def end_of_def)

lemma single_push_encoding:
  assumes "pa_targets a = []" and "pa_health_check a = None" and "pa_sni a = None" and "pa_rate_limit a = None"
  shows "single_push_rule (new_rule a i now) (pa_listen a) (pa_target_host a) (pa_target a) (pa_protocol a) (pa_prefer_ipv6 a) =
    proto_rule_from_rule (new_rule a i now)"
  using assms by (simp add: single_push_rule_def proto_rule_from_rule_def new_rule_def end_if_range_end_of)

lemma multi_push_encoding:
  assumes "pa_target_host a = rt_host (hd (pa_targets a))" and "pa_target a = pr_single (rt_port (hd (pa_targets a)))"
  shows "multi_push_rule (new_rule a i now) (pa_listen a) (pa_targets a) (pa_health_check a) (pa_protocol a) (pa_prefer_ipv6 a) =
    proto_rule_from_rule (new_rule a i now)"
  using assms by (simp add: multi_push_rule_def proto_rule_from_rule_def new_rule_def end_if_range_end_of
      pr_single_def end_of_def pr_len_def end_or_zero_def)

lemma try_u16_ucast [simp]: "try_u16 (ucast (p :: u16)) = Some p"
proof -
  have "ucast p \<le> (65535 :: u32)"
    using unat_u16_bound [of p] by (simp add: word_le_nat_alt unat_ucast_16_32)
  moreover have "ucast (ucast p :: u32) = p"
    by (rule word_unat_eq_iff [THEN iffD2]) (simp add: unat_ucast_32_16 unat_ucast_16_32 unat_u16_bound)
  ultimately show ?thesis by (simp add: try_u16_def)
qed

lemma port_or_zero_ucast [simp]: "port_or_zero (ucast (p :: u16)) = p"
  by (simp add: port_or_zero_def)

lemma try_u16_0 [simp]: "try_u16 0 = Some 0"
  by (simp add: try_u16_def)

text \<open>A stored rule the client can take: its port ends lie above the starts, its hosts parse.\<close>

definition ends_ok :: "u16 \<Rightarrow> u16 option \<Rightarrow> bool" where
  "ends_ok port e \<longleftrightarrow> port > 0 \<and> (case e of None \<Rightarrow> True | Some q \<Rightarrow> port < q)"

definition wire_ok :: "Rule \<Rightarrow> bool" where
  "wire_ok r \<longleftrightarrow> ends_ok (r_listen_port r) (r_listen_port_end r) \<and> ends_ok (r_target_port r) (r_target_port_end r) \<and>
     is_ok (target_parse (r_target_host r)) \<and> list_all valid_target (r_targets r) \<and> r_health_check r \<noteq> Some 0 \<and>
     uid_as_str (r_owner r) \<noteq> []"

lemma range_decoded:
  assumes "ends_ok port e"
  shows "pr_new port (end_or port (end_or_zero e)) = Inr (range_or_single port e)"
  using assms by (auto simp: ends_ok_def end_or_def end_or_zero_def range_or_single_def pr_new_def pr_single_def word_gt_0
      split: option.splits)

lemma targets_decoded:
  "list_all valid_target ts \<Longrightarrow>
   \<exists>ps. decode_targets i (map proto_target ts) = Inr ps \<and> map fst ps = ts \<and> (\<forall>(t, p) \<in> set ps. target_parse (rt_host t) = Inr p)"
proof (induction ts arbitrary: i)
  case (Cons t ts)
  obtain ps where ps: "decode_targets (Suc i) (map proto_target ts) = Inr ps" "map fst ps = ts"
    "\<forall>(t, p) \<in> set ps. target_parse (rt_host t) = Inr p"
    using Cons.IH [of "Suc i"] Cons.prems by auto
  obtain p where p: "target_parse (rt_host t) = Inr p" "rt_port t > 0"
    using Cons.prems by (cases "target_parse (rt_host t)") (auto simp: valid_target_def word_gt_0)
  have proxy: "decode_proxy (map_option proto_proxy (rt_proxy_protocol t)) = rt_proxy_protocol t"
    by (cases "rt_proxy_protocol t"; cases "the (rt_proxy_protocol t)") (auto simp: decode_proxy_def)
  have "decode_targets i (map proto_target (t # ts)) = Inr ((t, p) # ps)"
    using ps(1) p proxy by (simp add: proto_target_def [of t])
  with ps p show ?case by (intro exI [of _ "(t, p) # ps"]) simp
qed simp

text \<open>What the client knows of a rule of the server: identifier, both port ranges, protocol, address
  preference, the target and the targets in order with their priorities and proxy protocol,
  selector, limits, health check interval and owner.\<close>

definition client_sees :: "ClientRule \<Rightarrow> Rule \<Rightarrow> bool" where
  "client_sees k r \<longleftrightarrow> k_rule_id k = r_id r \<and>
    k_listen_range k = listen_range r \<and> k_target_range k = target_range r \<and> k_protocol k = r_protocol r \<and>
    k_target_host k = r_target_host r \<and> target_parse (r_target_host r) = Inr (k_target k) \<and>
    map fst (k_targets k) = r_targets r \<and> (\<forall>(t, p) \<in> set (k_targets k). target_parse (rt_host t) = Inr p) \<and>
    k_prefer_ipv6 k = (r_prefer_ipv6 r = Some True) \<and> k_health_check k = r_health_check r \<and> k_sni k = r_sni r \<and>
    k_rate_limit k = r_rate_limit r \<and> k_owner k = Some (uid_as_str (r_owner r))"

lemma decode_encoded:
  assumes "wire_ok r"
  shows "\<exists>k. decode_rule (proto_rule_from_rule r) = Inr k \<and> client_sees k r"
proof -
  obtain t where t: "target_parse (r_target_host r) = Inr t"
    using assms by (cases "target_parse (r_target_host r)") (auto simp: wire_ok_def)
  obtain ps where ps: "decode_targets 0 (map proto_target (r_targets r)) = Inr ps" "map fst ps = r_targets r"
    "\<forall>(t, p) \<in> set ps. target_parse (rt_host t) = Inr p"
    using assms targets_decoded [of "r_targets r" 0] by (auto simp: wire_ok_def)
  have ranges: "ends_ok (r_listen_port r) (r_listen_port_end r)" "ends_ok (r_target_port r) (r_target_port_end r)"
    using assms by (simp_all add: wire_ok_def)
  have proto: "(if proto_protocol (r_protocol r) = 2 then Udp else Tcp) = r_protocol r"
    by (cases "r_protocol r") simp_all
  have health: "(let n = case r_health_check r of None \<Rightarrow> 0 | Some n \<Rightarrow> n in if n = 0 then None else Some n) = r_health_check r"
    using assms by (cases "r_health_check r") (auto simp: wire_ok_def)
  show ?thesis
    using assms t ps proto health
    by (simp add: decode_rule_def proto_rule_from_rule_def range_decoded [OF ranges(1)] range_decoded [OF ranges(2)]
        listen_range_def target_range_def wire_ok_def client_sees_def Let_def split: option.splits)
qed


end
