(* ===== verification/Rule_Rows.thy ===== *)
theory Rule_Rows
  imports Rule_Store Operator_Store
begin

text \<open>
  The persisted rules, crates/portunus-server/src/store/rule_store.rs, with the columns and
  constraints of the migrations that define the tables.  A table is the list of its rows; the
  seven rate-limit columns are one envelope whose fields are null or a number.  Timestamps and
  client ids are stored as themselves: their text forms belong to chrono and the ULID crate.
\<close>

section \<open>Rows\<close>

record RuleRow =
  rw_id :: nat
  rw_client_id :: ClientId
  rw_client_name :: string
  rw_listen_port :: u16
  rw_listen_port_end :: "u16 option"
  rw_target_host :: string
  rw_target_port :: u16
  rw_target_port_end :: "u16 option"
  rw_prefer_ipv6 :: "int option"
  rw_protocol :: string
  rw_state_kind :: string
  rw_state_reason :: "string option"
  rw_owner :: string
  rw_health_check :: "nat option"
  rw_created_at :: timestamp
  rw_updated_at :: timestamp
  rw_sni :: "string option"
  rw_rate_limit :: RateLimit

record TargetRow =
  tw_rule_id :: nat
  tw_idx :: nat
  tw_host :: string
  tw_port :: u16
  tw_priority :: nat
  tw_proxy_protocol :: "string option"

record RuleDb =
  rd_rules :: "RuleRow list"
  rd_targets :: "TargetRow list"

definition rd_empty :: RuleDb where
  "rd_empty = \<lparr>rd_rules = [], rd_targets = []\<rparr>"

definition no_limit :: RateLimit where
  "no_limit = \<lparr>bandwidth_in_bps = None, bandwidth_out_bps = None, new_connections_per_sec = None,
     concurrent_connections = None, bandwidth_in_burst = None, bandwidth_out_burst = None, new_connections_burst = None\<rparr>"

fun state_columns :: "RuleState \<Rightarrow> string \<times> string option" where
  "state_columns RsPending = (''pending'', None)"
| "state_columns RsActive = (''active'', None)"
| "state_columns (RsFailed reason) = (''failed'', Some reason)"
| "state_columns RsRemoved = (''removed'', None)"

definition rule_row :: "Rule \<Rightarrow> RuleRow" where
  "rule_row r =
     \<lparr>rw_id = r_id r, rw_client_id = r_client_id r, rw_client_name = cn_as_str (r_client_name r),
      rw_listen_port = r_listen_port r, rw_listen_port_end = r_listen_port_end r,
      rw_target_host = r_target_host r, rw_target_port = r_target_port r, rw_target_port_end = r_target_port_end r,
      rw_prefer_ipv6 = map_option of_bool (r_prefer_ipv6 r), rw_protocol = protocol_as_str (r_protocol r),
      rw_state_kind = fst (state_columns (r_state r)), rw_state_reason = snd (state_columns (r_state r)),
      rw_owner = uid_as_str (r_owner r), rw_health_check = r_health_check r,
      rw_created_at = r_created_at r, rw_updated_at = r_last_state_change_at r, rw_sni = r_sni r,
      rw_rate_limit = (case r_rate_limit r of None \<Rightarrow> no_limit | Some rl \<Rightarrow> rl)\<rparr>"

fun proxy_column :: "ProxyProtocolVersion option \<Rightarrow> string option" where
  "proxy_column None = None"
| "proxy_column (Some V1) = Some ''v1''"
| "proxy_column (Some V2) = Some ''v2''"

fun target_rows :: "nat \<Rightarrow> nat \<Rightarrow> RuleTarget list \<Rightarrow> TargetRow list" where
  "target_rows rid idx [] = []"
| "target_rows rid idx (t # ts) =
     \<lparr>tw_rule_id = rid, tw_idx = idx, tw_host = rt_host t, tw_port = rt_port t, tw_priority = rt_priority t,
      tw_proxy_protocol = proxy_column (rt_proxy_protocol t)\<rparr> # target_rows rid (Suc idx) ts"

section \<open>Constraints\<close>

text \<open>SQLite integers are signed: the driver refuses to bind a larger unsigned number.\<close>

definition fits_i64 :: "nat option \<Rightarrow> bool" where
  "fits_i64 v = (case v of None \<Rightarrow> True | Some n \<Rightarrow> int n \<le> i64_max)"

definition row_binds :: "RuleRow \<Rightarrow> bool" where
  "row_binds w \<longleftrightarrow> fits_i64 (Some (rw_id w)) \<and> fits_i64 (bandwidth_in_bps (rw_rate_limit w)) \<and>
     fits_i64 (bandwidth_out_bps (rw_rate_limit w)) \<and> fits_i64 (bandwidth_in_burst (rw_rate_limit w)) \<and>
     fits_i64 (bandwidth_out_burst (rw_rate_limit w))"

definition null_or :: "('a \<Rightarrow> bool) \<Rightarrow> 'a option \<Rightarrow> bool" where
  "null_or P v = (case v of None \<Rightarrow> True | Some x \<Rightarrow> P x)"

definition row_checks :: "(string \<Rightarrow> bool) \<Rightarrow> RuleRow \<Rightarrow> bool" where
  "row_checks known_user w \<longleftrightarrow>
     rw_listen_port w \<ge> 1 \<and> null_or (\<lambda>e. rw_listen_port w \<le> e) (rw_listen_port_end w) \<and>
     rw_target_port w \<ge> 1 \<and> null_or (\<lambda>e. rw_target_port w \<le> e) (rw_target_port_end w) \<and>
     rw_protocol w \<in> {''tcp'', ''udp''} \<and> known_user (rw_owner w) \<and>
     null_or (\<lambda>n. 1 \<le> n \<and> n \<le> 3600) (rw_health_check w) \<and>
     (let rl = rw_rate_limit w; pos = null_or (\<lambda>n. n > (0 :: nat)) in
      pos (bandwidth_in_bps rl) \<and> pos (bandwidth_out_bps rl) \<and> pos (new_connections_per_sec rl) \<and>
      pos (concurrent_connections rl) \<and> pos (bandwidth_in_burst rl) \<and> pos (bandwidth_out_burst rl) \<and>
      pos (new_connections_burst rl))"

definition target_checks :: "TargetRow \<Rightarrow> bool" where
  "target_checks t \<longleftrightarrow> tw_idx t \<le> 7 \<and> tw_port t \<ge> 1 \<and> tw_priority t \<le> 99"

section \<open>Operations\<close>

definition upsert_row :: "RuleRow list \<Rightarrow> RuleRow \<Rightarrow> RuleRow list" where
  "upsert_row rows w =
     (if list_ex (\<lambda>old. rw_id old = rw_id w) rows
      then map (\<lambda>old. if rw_id old = rw_id w then w\<lparr>rw_created_at := rw_created_at old\<rparr> else old) rows
      else rows @ [w])"

definition upsert_rule :: "(string \<Rightarrow> bool) \<Rightarrow> RuleDb \<Rightarrow> Rule \<Rightarrow> (StoreError, RuleDb) result" where
  "upsert_rule known_user db rule =
     (let w = rule_row rule; ts = target_rows (r_id rule) 0 (r_targets rule) in
      if \<not> row_binds w then Inl (SeInternal ''value out of range'')
      else if \<not> row_checks known_user w then Inl (SeConflict ''constraint failed'')
      else if \<not> list_all target_checks ts then Inl (SeConflict ''constraint failed'')
      else Inr \<lparr>rd_rules = upsert_row (rd_rules db) w,
                rd_targets = filter (\<lambda>t. tw_rule_id t \<noteq> r_id rule) (rd_targets db) @ ts\<rparr>)"

text \<open>Deleting a rule cascades to its targets.\<close>

definition delete_rows :: "(RuleRow \<Rightarrow> bool) \<Rightarrow> RuleDb \<Rightarrow> RuleDb" where
  "delete_rows P db =
     (let gone = map rw_id (filter P (rd_rules db))
      in \<lparr>rd_rules = filter (\<lambda>w. \<not> P w) (rd_rules db),
          rd_targets = filter (\<lambda>t. tw_rule_id t \<notin> set gone) (rd_targets db)\<rparr>)"

definition rd_delete_rule :: "RuleDb \<Rightarrow> nat \<Rightarrow> RuleDb" where
  "rd_delete_rule db rid = delete_rows (\<lambda>w. rw_id w = rid) db"

definition delete_rules_owned_by :: "RuleDb \<Rightarrow> UserId \<Rightarrow> RuleDb" where
  "delete_rules_owned_by db owner = delete_rows (\<lambda>w. rw_owner w = uid_as_str owner) db"

definition proxy_of_column :: "string option \<Rightarrow> ProxyProtocolVersion option" where
  "proxy_of_column c =
     (case c of None \<Rightarrow> None | Some s \<Rightarrow> if s = ''v2'' then Some V2 else if s = ''v1'' then Some V1 else None)"

definition load_targets :: "RuleDb \<Rightarrow> nat \<Rightarrow> RuleTarget list" where
  "load_targets db rid =
     map (\<lambda>t. \<lparr>rt_host = tw_host t, rt_port = tw_port t, rt_priority = tw_priority t,
               rt_proxy_protocol = proxy_of_column (tw_proxy_protocol t)\<rparr>)
       (sort_key tw_idx (filter (\<lambda>t. tw_rule_id t = rid) (rd_targets db)))"

definition state_of_columns :: "string \<Rightarrow> string option \<Rightarrow> RuleState" where
  "state_of_columns kind reason =
     (if kind = ''active'' then RsActive
      else if kind = ''failed'' then RsFailed (case reason of None \<Rightarrow> ''unspecified'' | Some r \<Rightarrow> r)
      else if kind = ''removed'' then RsRemoved
      else RsPending)"

definition build_rate_limit_from_row :: "RateLimit \<Rightarrow> RateLimit option" where
  "build_rate_limit_from_row rl =
     (if bandwidth_in_bps rl = None \<and> bandwidth_out_bps rl = None \<and> new_connections_per_sec rl = None \<and>
         concurrent_connections rl = None \<and> bandwidth_in_burst rl = None \<and> bandwidth_out_burst rl = None \<and>
         new_connections_burst rl = None
      then None else Some rl)"

definition owner_of_column :: "string \<Rightarrow> (RbacError, UserId) result" where
  "owner_of_column raw = (if strip_prefix ''_'' raw \<noteq> None then Inr (uid_reserved raw) else uid_from_str raw)"

definition load_rule :: "RuleDb \<Rightarrow> RuleRow \<Rightarrow> (StoreError, Rule) result" where
  "load_rule db w =
     rbind (map_err (\<lambda>e. SeInternal ''client_name'') (client_name_new (rw_client_name w))) (\<lambda>client_name.
       rbind (map_err (\<lambda>e. SeInternal ''owner_user_id'') (owner_of_column (rw_owner w))) (\<lambda>owner.
         Inr \<lparr>r_id = rw_id w, r_client_id = rw_client_id w, r_client_name = client_name,
              r_listen_port = rw_listen_port w, r_listen_port_end = rw_listen_port_end w,
              r_target_host = rw_target_host w, r_target_port = rw_target_port w,
              r_target_port_end = rw_target_port_end w,
              r_prefer_ipv6 = map_option (\<lambda>v. v \<noteq> 0) (rw_prefer_ipv6 w),
              r_protocol = (if rw_protocol w = ''udp'' then Udp else Tcp),
              r_state = state_of_columns (rw_state_kind w) (rw_state_reason w),
              r_created_at = rw_created_at w, r_last_state_change_at = rw_updated_at w, r_owner = owner,
              r_targets = load_targets db (rw_id w), r_health_check = rw_health_check w, r_sni = rw_sni w,
              r_rate_limit = build_rate_limit_from_row (rw_rate_limit w)\<rparr>))"

fun load_all :: "RuleDb \<Rightarrow> RuleRow list \<Rightarrow> (StoreError, Rule list) result" where
  "load_all db [] = Inr []"
| "load_all db (w # ws) = rbind (load_rule db w) (\<lambda>r. rbind (load_all db ws) (\<lambda>rs. Inr (r # rs)))"

definition list_rules :: "RuleDb \<Rightarrow> (StoreError, Rule list) result" where
  "list_rules db = load_all db (sort_key rw_id (rd_rules db))"

definition get_rule :: "RuleDb \<Rightarrow> nat \<Rightarrow> (StoreError, Rule option) result" where
  "get_rule db rid = rbind (list_rules db) (\<lambda>rules. Inr (find (\<lambda>r. r_id r = rid) rules))"

section \<open>The table is a map of rules\<close>

text \<open>A rule survives the round trip when its name and owner read back and its envelope, if it has
  one, limits something: an envelope without a limit reads back as none.\<close>

definition persistable :: "Rule \<Rightarrow> bool" where
  "persistable r \<longleftrightarrow> client_name_new (cn_as_str (r_client_name r)) = Inr (r_client_name r) \<and>
     owner_of_column (uid_as_str (r_owner r)) = Inr (r_owner r) \<and> r_rate_limit r \<noteq> Some no_limit"

definition accepted :: "(string \<Rightarrow> bool) \<Rightarrow> Rule \<Rightarrow> bool" where
  "accepted known_user r \<longleftrightarrow> row_binds (rule_row r) \<and> row_checks known_user (rule_row r) \<and>
     list_all target_checks (target_rows (r_id r) 0 (r_targets r))"

datatype row_op = RowUpsert Rule | RowDelete nat | RowDeleteOwner UserId

fun row_apply :: "(string \<Rightarrow> bool) \<Rightarrow> RuleDb \<Rightarrow> row_op \<Rightarrow> RuleDb" where
  "row_apply known db (RowUpsert r) = (case upsert_rule known db r of Inl _ \<Rightarrow> db | Inr db' \<Rightarrow> db')"
| "row_apply known db (RowDelete i) = rd_delete_rule db i"
| "row_apply known db (RowDeleteOwner u) = delete_rules_owned_by db u"

text \<open>The specification: a finite map, in which an update keeps the time of creation.\<close>

definition keep_created :: "Rule option \<Rightarrow> Rule \<Rightarrow> Rule" where
  "keep_created old r = (case old of None \<Rightarrow> r | Some old_rule \<Rightarrow> r\<lparr>r_created_at := r_created_at old_rule\<rparr>)"

fun map_apply :: "(string \<Rightarrow> bool) \<Rightarrow> (nat \<rightharpoonup> Rule) \<Rightarrow> row_op \<Rightarrow> (nat \<rightharpoonup> Rule)" where
  "map_apply known m (RowUpsert r) = (if accepted known r then m(r_id r \<mapsto> keep_created (m (r_id r)) r) else m)"
| "map_apply known m (RowDelete i) = m(i := None)"
| "map_apply known m (RowDeleteOwner u) = (\<lambda>i. case m i of None \<Rightarrow> None | Some r \<Rightarrow> if r_owner r = u then None else Some r)"

fun op_ok :: "row_op \<Rightarrow> bool" where
  "op_ok (RowUpsert r) = persistable r"
| "op_ok _ = True"

definition row_of :: "RuleDb \<Rightarrow> nat \<Rightarrow> RuleRow option" where
  "row_of db i = find (\<lambda>w. rw_id w = i) (rd_rules db)"

definition mirrors_map :: "RuleDb \<Rightarrow> (nat \<rightharpoonup> Rule) \<Rightarrow> bool" where
  "mirrors_map db m \<longleftrightarrow> distinct (map rw_id (rd_rules db)) \<and>
     (\<forall>i. row_of db i = map_option rule_row (m i)) \<and>
     (\<forall>i r. m i = Some r \<longrightarrow> r_id r = i \<and> persistable r \<and> load_targets db i = r_targets r)"

lemma state_round_trip: "state_of_columns (fst (state_columns s)) (snd (state_columns s)) = s"
  by (cases s) (simp_all add: state_of_columns_def)

lemma proxy_round_trip: "proxy_of_column (proxy_column p) = p"
  by (cases p rule: proxy_column.cases) (simp_all add: proxy_of_column_def)

lemma protocol_column_round_trip: "(if protocol_as_str p = ''udp'' then Udp else Tcp) = p"
  by (cases p) simp_all

lemma rate_limit_round_trip:
  "l \<noteq> Some no_limit \<Longrightarrow> build_rate_limit_from_row (case l of None \<Rightarrow> no_limit | Some rl \<Rightarrow> rl) = l"
proof (cases l)
  case (Some rl)
  assume "l \<noteq> Some no_limit"
  then show ?thesis by (cases rl) (auto simp: Some build_rate_limit_from_row_def no_limit_def)
qed (simp add: build_rate_limit_from_row_def no_limit_def)

lemma load_rule_row: "persistable r \<Longrightarrow> load_targets db (r_id r) = r_targets r \<Longrightarrow> load_rule db (rule_row r) = Inr r"
  by (cases r) (simp add: load_rule_def rule_row_def persistable_def state_round_trip protocol_column_round_trip
      rate_limit_round_trip option.map_comp comp_def option.map_ident)

lemma target_rows_sorted: "sorted (map tw_idx (target_rows rid i ts)) \<and> (\<forall>t \<in> set (target_rows rid i ts). i \<le> tw_idx t \<and> tw_rule_id t = rid)"
  by (induction rid i ts rule: target_rows.induct) (auto simp: Suc_le_eq less_imp_le)

lemma target_rows_back:
  "map (\<lambda>t. \<lparr>rt_host = tw_host t, rt_port = tw_port t, rt_priority = tw_priority t,
       rt_proxy_protocol = proxy_of_column (tw_proxy_protocol t)\<rparr>) (target_rows rid i ts) = ts"
  by (induction rid i ts rule: target_rows.induct) (simp_all add: proxy_round_trip)

lemma load_targets_upsert:
  "load_targets \<lparr>rd_rules = rs, rd_targets = filter (\<lambda>t. tw_rule_id t \<noteq> rid) (rd_targets db) @ target_rows rid 0 ts\<rparr> i =
     (if i = rid then ts else load_targets db i)"
proof -
  let ?t = "target_rows rid 0 ts"
  have own: "filter (\<lambda>t. tw_rule_id t = rid) ?t = ?t" and other: "i \<noteq> rid \<Longrightarrow> filter (\<lambda>t. tw_rule_id t = i) ?t = []"
    using target_rows_sorted [of rid 0 ts] by (auto simp: filter_id_conv filter_empty_conv)
  have "filter (\<lambda>t. tw_rule_id t \<noteq> rid \<and> tw_rule_id t = i) (rd_targets db) = (if i = rid then [] else filter (\<lambda>t. tw_rule_id t = i) (rd_targets db))"
    by (auto simp: filter_empty_conv intro: filter_cong)
  moreover have "sort_key tw_idx ?t = ?t" using target_rows_sorted [of rid 0 ts] by (intro sort_key_id_if_sorted) simp
  ultimately show ?thesis using own other by (simp add: load_targets_def target_rows_back)
qed

lemma upsert_Inr_iff:
  "upsert_rule known db r = Inr db' \<longleftrightarrow> accepted known r \<and>
     db' = \<lparr>rd_rules = upsert_row (rd_rules db) (rule_row r),
            rd_targets = filter (\<lambda>t. tw_rule_id t \<noteq> r_id r) (rd_targets db) @ target_rows (r_id r) 0 (r_targets r)\<rparr>"
  by (auto simp: upsert_rule_def accepted_def Let_def split: if_splits)

lemma find_map_upd:
  "find (\<lambda>w. rw_id w = i) (map (\<lambda>old. if rw_id old = rw_id v then v\<lparr>rw_created_at := rw_created_at old\<rparr> else old) ws) =
     map_option (\<lambda>old. if i = rw_id v then v\<lparr>rw_created_at := rw_created_at old\<rparr> else old) (find (\<lambda>w. rw_id w = i) ws)"
  by (induction ws) auto

lemma find_append: "find P (xs @ ys) = (case find P xs of None \<Rightarrow> find P ys | Some x \<Rightarrow> Some x)"
  by (induction xs) auto

lemma row_of_upsert:
  "find (\<lambda>w. rw_id w = i) (upsert_row ws v) =
     (if i = rw_id v
      then Some (case find (\<lambda>w. rw_id w = i) ws of None \<Rightarrow> v | Some old \<Rightarrow> v\<lparr>rw_created_at := rw_created_at old\<rparr>)
      else find (\<lambda>w. rw_id w = i) ws)"
proof (cases "find (\<lambda>w. rw_id w = rw_id v) ws")
  case None
  then have "upsert_row ws v = ws @ [v]" by (auto simp: upsert_row_def list_ex_iff find_None_iff)
  then show ?thesis using None by (cases "i = rw_id v") (simp_all add: find_append split: option.split)
next
  case (Some old)
  then have "upsert_row ws v = map (\<lambda>old. if rw_id old = rw_id v then v\<lparr>rw_created_at := rw_created_at old\<rparr> else old) ws"
    by (auto simp: upsert_row_def list_ex_iff find_Some_iff)
  then show ?thesis using Some by (cases "i = rw_id v") (simp_all add: find_map_upd option.map_ident)
qed

lemma upsert_row_distinct: "distinct (map rw_id ws) \<Longrightarrow> distinct (map rw_id (upsert_row ws v))"
proof -
  have "map rw_id (map (\<lambda>old. if rw_id old = rw_id v then v\<lparr>rw_created_at := rw_created_at old\<rparr> else old) ws) = map rw_id ws"
    by (induction ws) auto
  then show "distinct (map rw_id ws) \<Longrightarrow> distinct (map rw_id (upsert_row ws v))"
    unfolding upsert_row_def by (auto simp: list_ex_iff simp del: map_map)
qed

lemma rule_row_created: "rule_row (keep_created o' r) = (case o' of None \<Rightarrow> rule_row r | Some x \<Rightarrow> (rule_row r)\<lparr>rw_created_at := rw_created_at (rule_row x)\<rparr>)"
  by (simp add: keep_created_def rule_row_def split: option.splits)

lemma keep_created_sel [simp]: "r_id (keep_created o' r) = r_id r" "r_targets (keep_created o' r) = r_targets r"
  "persistable (keep_created o' r) = persistable r"
  by (auto simp: keep_created_def persistable_def split: option.splits)

lemma mirrors_upsert:
  assumes M: "mirrors_map db m" and "persistable r" and up: "upsert_rule known db r = Inr db'"
  shows "mirrors_map db' (m(r_id r \<mapsto> keep_created (m (r_id r)) r))"
proof -
  have db': "db' = \<lparr>rd_rules = upsert_row (rd_rules db) (rule_row r),
      rd_targets = filter (\<lambda>t. tw_rule_id t \<noteq> r_id r) (rd_targets db) @ target_rows (r_id r) 0 (r_targets r)\<rparr>"
    using up by (simp add: upsert_Inr_iff)
  have rid: "rw_id (rule_row r) = r_id r" by (simp add: rule_row_def)
  have old: "find (\<lambda>w. rw_id w = i) (rd_rules db) = map_option rule_row (m i)" for i
    using M by (simp add: mirrors_map_def row_of_def)
  have "row_of db' i = map_option rule_row ((m(r_id r \<mapsto> keep_created (m (r_id r)) r)) i)" for i
    by (simp add: row_of_def db' row_of_upsert rid old rule_row_created split: option.splits)
  moreover have "distinct (map rw_id (rd_rules db'))"
    using M by (simp add: db' mirrors_map_def upsert_row_distinct)
  moreover have "load_targets db' i = (if i = r_id r then r_targets r else load_targets db i)" for i
    unfolding db' by (rule load_targets_upsert)
  ultimately show ?thesis using M assms(2) unfolding mirrors_map_def by simp
qed

lemma find_filter_not:
  "distinct (map rw_id ws) \<Longrightarrow>
   find (\<lambda>w. rw_id w = i) (filter (\<lambda>w. \<not> P w) ws) =
     (case find (\<lambda>w. rw_id w = i) ws of None \<Rightarrow> None | Some w \<Rightarrow> if P w then None else Some w)"
proof (induction ws)
  case (Cons w ws)
  have "rw_id w = i \<Longrightarrow> find (\<lambda>w. rw_id w = i) ws = None"
    using Cons.prems by (simp add: find_None_iff fresh_image)
  then show ?case using Cons by (auto split: option.splits)
qed simp

lemma load_targets_delete:
  assumes "row_of db i = Some w" "\<not> P w" "distinct (map rw_id (rd_rules db))"
  shows "load_targets (delete_rows P db) i = load_targets db i"
proof -
  have "i \<notin> set (map rw_id (filter P (rd_rules db)))"
  proof
    assume "i \<in> set (map rw_id (filter P (rd_rules db)))"
    then obtain v where v: "v \<in> set (rd_rules db)" "P v" "rw_id v = i" by auto
    have "w \<in> set (rd_rules db)" "rw_id w = i" using assms(1) by (auto simp: row_of_def find_Some_iff)
    then have "v = w" using v assms(3) by (metis distinct_map inj_onD)
    then show False using v assms(2) by simp
  qed
  then have "filter (\<lambda>t. tw_rule_id t = i) (filter (\<lambda>t. tw_rule_id t \<notin> set (map rw_id (filter P (rd_rules db)))) (rd_targets db)) =
      filter (\<lambda>t. tw_rule_id t = i) (rd_targets db)"
    unfolding filter_filter by (intro filter_cong) auto
  then show ?thesis by (simp only: load_targets_def delete_rows_def Let_def RuleDb.simps)
qed

lemma mirrors_delete:
  assumes M: "mirrors_map db m" and "\<And>r. persistable r \<Longrightarrow> P (rule_row r) \<longleftrightarrow> Q r"
  shows "mirrors_map (delete_rows P db) (\<lambda>i. case m i of None \<Rightarrow> None | Some r \<Rightarrow> if Q r then None else Some r)"
proof -
  have d: "distinct (map rw_id (rd_rules db))" and row: "find (\<lambda>w. rw_id w = i) (rd_rules db) = map_option rule_row (m i)"
    and p: "m i = Some r \<Longrightarrow> r_id r = i \<and> persistable r \<and> load_targets db i = r_targets r" for i r
    using M by (auto simp: mirrors_map_def row_of_def)
  have pq: "m i = Some r \<Longrightarrow> P (rule_row r) \<longleftrightarrow> Q r" for i r using p assms(2) by blast
  have "row_of (delete_rows P db) i = map_option rule_row (case m i of None \<Rightarrow> None | Some r \<Rightarrow> if Q r then None else Some r)" for i
    using pq [of i] by (auto simp: row_of_def delete_rows_def Let_def find_filter_not [OF d] row split: option.splits)
  moreover have "load_targets (delete_rows P db) i = r_targets r" if "m i = Some r" "\<not> Q r" for i r
    using load_targets_delete [of db i "rule_row r" P] that p [OF that(1)] pq [OF that(1)] d by (simp add: row_of_def row)
  moreover have "distinct (map rw_id (rd_rules (delete_rows P db)))"
    using d by (simp add: delete_rows_def Let_def distinct_map_filter)
  ultimately show ?thesis using p unfolding mirrors_map_def by (auto split: option.splits if_splits)
qed

lemma owner_column_inj:
  "persistable r \<Longrightarrow> uid_as_str (r_owner r) = uid_as_str u \<longleftrightarrow> r_owner r = u"
  by (cases u; cases "r_owner r") auto

lemma mirrors_apply:
  assumes M: "mirrors_map db m" and ok: "op_ok op"
  shows "mirrors_map (row_apply known db op) (map_apply known m op)"
proof (cases op)
  case (RowUpsert r)
  show ?thesis
  proof (cases "upsert_rule known db r")
    case (Inl e)
    then have "\<not> accepted known r" using upsert_Inr_iff [of known db r] by fastforce
    then show ?thesis using M by (simp add: RowUpsert Inl)
  next
    case (Inr db')
    then have "accepted known r" by (simp add: upsert_Inr_iff)
    then show ?thesis using mirrors_upsert [OF M _ Inr] ok by (simp add: RowUpsert Inr)
  qed
next
  case (RowDelete i)
  have "r_id r = j" if "m j = Some r" for j r using M that by (simp add: mirrors_map_def)
  then have "(\<lambda>j. case m j of None \<Rightarrow> None | Some r \<Rightarrow> if r_id r = i then None else Some r) = m(i := None)"
    by (fastforce split: option.split)
  then show ?thesis
    using mirrors_delete [OF M, of "\<lambda>w. rw_id w = i" "\<lambda>r. r_id r = i"] by (simp add: RowDelete rd_delete_rule_def rule_row_def)
next
  case (RowDeleteOwner u)
  then show ?thesis
    using mirrors_delete [OF M, of "\<lambda>w. rw_owner w = uid_as_str u" "\<lambda>r. r_owner r = u"]
    by (simp add: delete_rules_owned_by_def rule_row_def owner_column_inj)
qed

lemma load_all_map:
  "(\<And>w. w \<in> set ws \<Longrightarrow> load_rule db w = Inr (f w)) \<Longrightarrow> load_all db ws = Inr (map f ws)"
  by (induction ws) simp_all

lemma find_distinct: "distinct (map f xs) \<Longrightarrow> x \<in> set xs \<Longrightarrow> find (\<lambda>y. f y = f x) xs = Some x"
  by (induction xs) (auto intro: rev_image_eqI)

lemma mirrors_list:
  assumes M: "mirrors_map db m"
  shows "list_rules db = Inr (map (\<lambda>i. the (m i)) (sorted_list_of_set (dom m)))"
proof -
  have d: "distinct (map rw_id (rd_rules db))" and row: "row_of db i = map_option rule_row (m i)"
    and p: "m i = Some r \<Longrightarrow> r_id r = i \<and> persistable r \<and> load_targets db i = r_targets r" for i r
    using M by (auto simp: mirrors_map_def)
  have w: "\<exists>r. m (rw_id w) = Some r \<and> w = rule_row r" if "w \<in> set (rd_rules db)" for w
  proof -
    have "row_of db (rw_id w) = Some w" unfolding row_of_def using d that by (rule find_distinct)
    then have "map_option rule_row (m (rw_id w)) = Some w" unfolding row .
    then show ?thesis unfolding map_option_eq_Some by blast
  qed
  have "load_rule db w = Inr (the (m (rw_id w)))" if in_rows: "w \<in> set (rd_rules db)" for w
  proof -
    obtain r where r: "m (rw_id w) = Some r" "w = rule_row r" using w [OF in_rows] by blast
    have "persistable r" "load_targets db (r_id r) = r_targets r" using p [OF r(1)] by auto
    then have "load_rule db w = Inr r" unfolding r(2) by (rule load_rule_row)
    then show ?thesis unfolding r(1) option.sel .
  qed
  then have "list_rules db = Inr (map (\<lambda>w. the (m (rw_id w))) (sort_key rw_id (rd_rules db)))"
    unfolding list_rules_def by (intro load_all_map) simp
  moreover have "map rw_id (sort_key rw_id (rd_rules db)) = sorted_list_of_set (dom m)"
  proof -
    have "rw_id ` set (rd_rules db) = dom m"
    proof
      show "rw_id ` set (rd_rules db) \<subseteq> dom m" using w by (intro image_subsetI) (meson domI)
      show "dom m \<subseteq> rw_id ` set (rd_rules db)"
      proof
        fix i assume "i \<in> dom m"
        then obtain r where "find (\<lambda>w. rw_id w = i) (rd_rules db) = Some (rule_row r)"
          unfolding row_of_def [symmetric] row by auto
        then have "rule_row r \<in> set (rd_rules db)" "rw_id (rule_row r) = i" by (auto simp: find_Some_iff)
        then show "i \<in> rw_id ` set (rd_rules db)" by blast
      qed
    qed
    moreover have "distinct (map rw_id (sort_key rw_id (rd_rules db)))" using d by (simp add: distinct_map)
    moreover have "sorted (map rw_id (sort_key rw_id (rd_rules db)))" by simp
    ultimately show ?thesis by (metis list.set_map set_sort sorted_list_of_set.idem_if_sorted_distinct)
  qed
  then have "map (\<lambda>i. the (m i)) (map rw_id (sort_key rw_id (rd_rules db))) = map (\<lambda>i. the (m i)) (sorted_list_of_set (dom m))"
    by (rule arg_cong)
  ultimately show ?thesis by (simp add: comp_def)
qed



end
