(* ===== verification/Owner_Caps.thy ===== *)
theory Owner_Caps
  imports Rule_Rows Client_Registry
begin

text \<open>
  The per-owner limits of the server: the table of crates/portunus-server/src/store/owner_cap_store.rs
  and the service with its cache of crates/portunus-server/src/owner.rs.  The table is the list of
  its rows, keyed by client and owner; the two-level cache is an association list of association
  lists.  An update commits the table first and takes the lock of the cache afterwards, so it
  is also given as two steps that may interleave with those of another update.
\<close>

section \<open>The table\<close>

record OwnerRateLimitRow =
  ow_client_id :: ClientId
  ow_owner_id :: string
  ow_rate_limit :: RateLimit
  ow_updated_at_unix_ms :: nat

definition cap_binds :: "RateLimit \<Rightarrow> bool" where
  "cap_binds rl \<longleftrightarrow> fits_i64 (bandwidth_in_bps rl) \<and> fits_i64 (bandwidth_out_bps rl) \<and>
     fits_i64 (bandwidth_in_burst rl) \<and> fits_i64 (bandwidth_out_burst rl)"

definition cap_checks :: "RateLimit \<Rightarrow> bool" where
  "cap_checks rl \<longleftrightarrow>
     (let pos = null_or (\<lambda>n. n > (0 :: nat)) in
      pos (bandwidth_in_bps rl) \<and> pos (bandwidth_out_bps rl) \<and> pos (new_connections_per_sec rl) \<and>
      pos (concurrent_connections rl) \<and> pos (bandwidth_in_burst rl) \<and> pos (bandwidth_out_burst rl) \<and>
      pos (new_connections_burst rl))"

definition row_key :: "OwnerRateLimitRow \<Rightarrow> ClientId \<times> string" where
  "row_key w = (ow_client_id w, ow_owner_id w)"

definition cap_store_upsert ::
  "OwnerRateLimitRow list \<Rightarrow> ClientId \<Rightarrow> string \<Rightarrow> RateLimit \<Rightarrow> nat \<Rightarrow> (StoreError, OwnerRateLimitRow list) result" where
  "cap_store_upsert rows client_id owner_id rl updated_at_unix_ms =
     (let w = \<lparr>ow_client_id = client_id, ow_owner_id = owner_id, ow_rate_limit = rl,
               ow_updated_at_unix_ms = (if int updated_at_unix_ms \<le> i64_max then updated_at_unix_ms else nat i64_max)\<rparr>
      in if \<not> cap_binds rl then Inl (SeInternal ''value out of range'')
         else if \<not> cap_checks rl then Inl (SeConflict ''constraint failed'')
         else Inr (if \<exists>v \<in> set rows. row_key v = (client_id, owner_id)
                   then map (\<lambda>v. if row_key v = (client_id, owner_id) then w else v) rows
                   else rows @ [w]))"

definition cap_store_delete :: "OwnerRateLimitRow list \<Rightarrow> ClientId \<Rightarrow> string \<Rightarrow> OwnerRateLimitRow list \<times> bool" where
  "cap_store_delete rows client_id owner_id =
     (filter (\<lambda>v. row_key v \<noteq> (client_id, owner_id)) rows, \<exists>v \<in> set rows. row_key v = (client_id, owner_id))"

definition cap_store_get :: "OwnerRateLimitRow list \<Rightarrow> ClientId \<Rightarrow> string \<Rightarrow> OwnerRateLimitRow option" where
  "cap_store_get rows client_id owner_id = find (\<lambda>v. row_key v = (client_id, owner_id)) rows"

definition cap_store_list_for_client :: "OwnerRateLimitRow list \<Rightarrow> ClientId \<Rightarrow> OwnerRateLimitRow list" where
  "cap_store_list_for_client rows client_id = sort_key ow_owner_id (filter (\<lambda>v. ow_client_id v = client_id) rows)"

definition cap_store_list_all :: "OwnerRateLimitRow list \<Rightarrow> OwnerRateLimitRow list" where
  "cap_store_list_all rows = sort_key ow_client_id (sort_key ow_owner_id rows)"

section \<open>The service\<close>

datatype OwnerCapError = OcInvalidEnvelope RateLimitError | OcUnsupportedByClient | OcStore StoreError

type_synonym cap_cache = "(ClientId \<times> (string \<times> OwnerRateLimitRow) list) list"

record OwnerCapService =
  oc_table :: "OwnerRateLimitRow list"
  oc_cache :: cap_cache

definition cache_put :: "cap_cache \<Rightarrow> OwnerRateLimitRow \<Rightarrow> cap_cache" where
  "cache_put cache w = AList.update (ow_client_id w) (AList.update (ow_owner_id w) w (or_default [] cache (ow_client_id w))) cache"

definition oc_open :: "OwnerRateLimitRow list \<Rightarrow> OwnerCapService" where
  "oc_open rows = \<lparr>oc_table = rows, oc_cache = foldl cache_put [] (cap_store_list_all rows)\<rparr>"

text \<open>The two halves of an upsert: validate and commit, then publish to the cache.\<close>

definition oc_persist ::
  "OwnerCapService \<Rightarrow> ClientId \<Rightarrow> string \<Rightarrow> RateLimit \<Rightarrow> nat \<Rightarrow> (OwnerCapError, OwnerCapService \<times> OwnerRateLimitRow) result" where
  "oc_persist oc client_id owner_id rl now_ms =
     rbind (map_err OcInvalidEnvelope (rate_limit_validate rl)) (\<lambda>_.
       rbind (map_err OcStore (cap_store_upsert (oc_table oc) client_id owner_id rl now_ms)) (\<lambda>rows.
         Inr (oc\<lparr>oc_table := rows\<rparr>,
              \<lparr>ow_client_id = client_id, ow_owner_id = owner_id, ow_rate_limit = rl, ow_updated_at_unix_ms = now_ms\<rparr>)))"

definition oc_publish :: "OwnerCapService \<Rightarrow> OwnerRateLimitRow \<Rightarrow> OwnerCapService" where
  "oc_publish oc w = oc\<lparr>oc_cache := cache_put (oc_cache oc) w\<rparr>"

definition oc_upsert ::
  "OwnerCapService \<Rightarrow> ClientId \<Rightarrow> string \<Rightarrow> RateLimit \<Rightarrow> nat \<Rightarrow> (OwnerCapError, OwnerCapService \<times> OwnerRateLimitRow) result" where
  "oc_upsert oc client_id owner_id rl now_ms =
     rbind (oc_persist oc client_id owner_id rl now_ms) (\<lambda>(oc, w). Inr (oc_publish oc w, w))"

definition cache_del :: "cap_cache \<Rightarrow> ClientId \<Rightarrow> string \<Rightarrow> cap_cache" where
  "cache_del cache client_id owner_id =
     (case map_of cache client_id of
        None \<Rightarrow> cache
      | Some per_client \<Rightarrow>
          let per_client = AList.delete owner_id per_client
          in if per_client = [] then AList.delete client_id cache else AList.update client_id per_client cache)"

definition oc_delete :: "OwnerCapService \<Rightarrow> ClientId \<Rightarrow> string \<Rightarrow> OwnerCapService \<times> bool" where
  "oc_delete oc client_id owner_id =
     (let (rows, removed) = cap_store_delete (oc_table oc) client_id owner_id
      in (if removed then \<lparr>oc_table = rows, oc_cache = cache_del (oc_cache oc) client_id owner_id\<rparr>
          else oc\<lparr>oc_table := rows\<rparr>, removed))"

definition oc_get :: "OwnerCapService \<Rightarrow> ClientId \<Rightarrow> string \<Rightarrow> OwnerRateLimitRow option" where
  "oc_get oc client_id owner_id =
     (case map_of (oc_cache oc) client_id of None \<Rightarrow> None | Some per_client \<Rightarrow> map_of per_client owner_id)"

definition oc_list_for_client :: "OwnerCapService \<Rightarrow> ClientId \<Rightarrow> OwnerRateLimitRow list" where
  "oc_list_for_client oc client_id = map snd (or_default [] (oc_cache oc) client_id)"

definition gc_after_rule_removed :: "OwnerCapService \<Rightarrow> ClientId \<Rightarrow> string \<Rightarrow> nat \<Rightarrow> OwnerCapService \<times> bool" where
  "gc_after_rule_removed oc client_id owner_id rules_remaining =
     (if rules_remaining > 0 then (oc, False) else oc_delete oc client_id owner_id)"

definition known_owners :: "OwnerCapService \<Rightarrow> string list" where
  "known_owners oc = remdups (concat (map (\<lambda>(c, per_client). map fst per_client) (oc_cache oc)))"

section \<open>The cache mirrors the table\<close>

definition cache_look :: "cap_cache \<Rightarrow> ClientId \<times> string \<Rightarrow> OwnerRateLimitRow option" where
  "cache_look cache k = map_of (or_default [] cache (fst k)) (snd k)"

lemma oc_get_look: "oc_get oc c u = cache_look (oc_cache oc) (c, u)"
  by (auto simp: oc_get_def cache_look_def or_default_def split: option.splits)

lemma look_put: "cache_look (cache_put cache w) k = (if k = row_key w then Some w else cache_look cache k)"
  by (cases k) (auto simp: cache_look_def cache_put_def or_default_update map_of_update row_key_def)

lemma look_del: "cache_look (cache_del cache c u) k = (if k = (c, u) then None else cache_look cache k)"
proof (cases "map_of cache c")
  case None
  then show ?thesis by (cases k) (auto simp: cache_del_def cache_look_def or_default_def)
next
  case (Some per)
  then have "or_default [] (cache_del cache c u) c' = (if c' = c then AList.delete u per else or_default [] cache c')" for c'
    by (simp add: cache_del_def Let_def or_default_update or_default_delete)
  with Some show ?thesis by (cases k) (auto simp: cache_look_def map_of_delete or_default_def)
qed



datatype cap_op =
    CapPut ClientId string RateLimit nat
  | CapDel ClientId string
  | CapGc ClientId string nat
  | CapRestart

fun cap_apply :: "OwnerCapService \<Rightarrow> cap_op \<Rightarrow> OwnerCapService" where
  "cap_apply oc (CapPut c u rl now) = (case oc_upsert oc c u rl now of Inl _ \<Rightarrow> oc | Inr (oc', w) \<Rightarrow> oc')"
| "cap_apply oc (CapDel c u) = fst (oc_delete oc c u)"
| "cap_apply oc (CapGc c u n) = fst (gc_after_rule_removed oc c u n)"
| "cap_apply oc CapRestart = oc_open (oc_table oc)"

definition cap_accepted :: "RateLimit \<Rightarrow> bool" where
  "cap_accepted rl \<longleftrightarrow> is_ok (rate_limit_validate rl) \<and> cap_binds rl \<and> cap_checks rl"

text \<open>The specification: a finite map of rows.\<close>

fun cap_spec :: "(ClientId \<times> string \<rightharpoonup> OwnerRateLimitRow) \<Rightarrow> cap_op \<Rightarrow> (ClientId \<times> string \<rightharpoonup> OwnerRateLimitRow)" where
  "cap_spec m (CapPut c u rl now) =
     (if cap_accepted rl
      then m((c, u) \<mapsto> \<lparr>ow_client_id = c, ow_owner_id = u, ow_rate_limit = rl, ow_updated_at_unix_ms = now\<rparr>) else m)"
| "cap_spec m (CapDel c u) = m((c, u) := None)"
| "cap_spec m (CapGc c u n) = (if n > 0 then m else m((c, u) := None))"
| "cap_spec m CapRestart = m"

fun cap_op_ok :: "cap_op \<Rightarrow> bool" where
  "cap_op_ok (CapPut c u rl now) \<longleftrightarrow> int now \<le> i64_max"
| "cap_op_ok _ \<longleftrightarrow> True"

definition cap_inv :: "OwnerCapService \<Rightarrow> (ClientId \<times> string \<rightharpoonup> OwnerRateLimitRow) \<Rightarrow> bool" where
  "cap_inv oc m \<longleftrightarrow> distinct (map row_key (oc_table oc)) \<and> cache_look (oc_cache oc) = m \<and>
     (\<forall>w. w \<in> set (oc_table oc) \<longleftrightarrow> m (row_key w) = Some w) \<and> (\<forall>k w. m k = Some w \<longrightarrow> row_key w = k)"

lemma look_foldl:
  "distinct (map row_key ws) \<Longrightarrow>
   cache_look (foldl cache_put cache ws) k = (case find (\<lambda>w. row_key w = k) ws of None \<Rightarrow> cache_look cache k | Some w \<Rightarrow> Some w)"
proof (induction ws arbitrary: cache)
  case (Cons w ws)
  have "find (\<lambda>v. row_key v = k) ws = None" if "row_key w = k"
    using Cons.prems that by (auto simp: find_None_iff rev_image_eqI)
  with Cons show ?case by (cases "row_key w = k") (auto simp: look_put split: option.splits)
qed simp

lemma find_key:
  "distinct (map row_key ws) \<Longrightarrow> find (\<lambda>w. row_key w = k) ws = Some w \<longleftrightarrow> w \<in> set ws \<and> row_key w = k"
  by (induction ws) (auto simp: rev_image_eqI)


lemma inv_find:
  assumes "cap_inv oc m" and "distinct (map row_key ws)" and "set ws = set (oc_table oc)"
  shows "find (\<lambda>w. row_key w = k) ws = m k"
proof -
  have tab: "v \<in> set ws \<longleftrightarrow> m (row_key v) = Some v" and keyed: "m j = Some v \<Longrightarrow> row_key v = j" for v j
    using assms(1,3) unfolding cap_inv_def by blast+
  show ?thesis
  proof (cases "m k")
    case None
    then have "row_key v \<noteq> k" if "v \<in> set ws" for v using tab [of v] that by auto
    with None show ?thesis by (simp add: find_None_iff)
  next
    case (Some w)
    with tab [of w] keyed [of k w] have "w \<in> set ws \<and> row_key w = k" by simp
    with Some find_key [OF assms(2), of k w] show ?thesis by simp
  qed
qed

lemma look_empty [simp]: "cache_look [] k = None"
  by (simp add: cache_look_def)

lemma cap_inv_open: "cap_inv oc m \<Longrightarrow> cap_inv (oc_open (oc_table oc)) m"
proof -
  assume inv: "cap_inv oc m"
  let ?ws = "cap_store_list_all (oc_table oc)"
  have d: "distinct (map row_key ?ws)" and s: "set ?ws = set (oc_table oc)"
    using inv by (auto simp: cap_inv_def cap_store_list_all_def distinct_map)
  have "cache_look (foldl cache_put [] ?ws) = m"
    by (rule ext) (simp add: look_foldl [OF d] inv_find [OF inv d s] split: option.splits)
  with inv show ?thesis by (auto simp: cap_inv_def oc_open_def)
qed

lemma cap_inv_delete: "cap_inv oc m \<Longrightarrow> cap_inv (fst (oc_delete oc c u)) (m((c, u) := None))"
proof -
  assume inv: "cap_inv oc m"
  show ?thesis
  proof (cases "\<exists>v \<in> set (oc_table oc). row_key v = (c, u)")
    case True
    then show ?thesis
      using inv by (auto simp: cap_inv_def oc_delete_def cap_store_delete_def look_del fun_eq_iff distinct_map_filter)
  next
    case False
    then have "m (c, u) = None" using inv by (auto simp: cap_inv_def) (metis option.exhaust)
    with False inv show ?thesis
      by (auto simp: cap_inv_def oc_delete_def cap_store_delete_def fun_upd_idem filter_id_conv)
  qed
qed

lemma upsert_accepted:
  assumes "int now \<le> i64_max" and "cap_accepted rl"
  shows "oc_upsert oc c u rl now =
     (let w = \<lparr>ow_client_id = c, ow_owner_id = u, ow_rate_limit = rl, ow_updated_at_unix_ms = now\<rparr> in
      Inr (oc_publish (oc\<lparr>oc_table := (if \<exists>v \<in> set (oc_table oc). row_key v = (c, u)
                   then map (\<lambda>v. if row_key v = (c, u) then w else v) (oc_table oc) else oc_table oc @ [w])\<rparr>) w, w))"
  using assms
  by (cases "rate_limit_validate rl") (simp_all add: oc_upsert_def oc_persist_def cap_accepted_def cap_store_upsert_def Let_def)

lemma upsert_refused: "\<not> cap_accepted rl \<Longrightarrow> \<exists>e. oc_upsert oc c u rl now = Inl e"
  by (cases "rate_limit_validate rl")
    (auto simp: oc_upsert_def oc_persist_def cap_accepted_def cap_store_upsert_def Let_def)

lemma cap_inv_put:
  assumes "cap_inv oc m" and "int now \<le> i64_max"
  shows "cap_inv (cap_apply oc (CapPut c u rl now)) (cap_spec m (CapPut c u rl now))"
proof (cases "cap_accepted rl")
  case False
  then obtain e where "oc_upsert oc c u rl now = Inl e" using upsert_refused by blast
  with False assms show ?thesis by simp
next
  case True
  let ?w = "\<lparr>ow_client_id = c, ow_owner_id = u, ow_rate_limit = rl, ow_updated_at_unix_ms = now\<rparr>"
  have key: "row_key ?w = (c, u)" by (simp add: row_key_def)
  let ?put = "\<lambda>v. if row_key v = (c, u) then ?w else v"
  let ?rows = "if \<exists>v \<in> set (oc_table oc). row_key v = (c, u) then map ?put (oc_table oc) else oc_table oc @ [?w]"
  have keys: "row_key \<circ> ?put = row_key" by (auto simp: key)
  have d: "distinct (map row_key ?rows)"
    using assms(1) by (auto simp: cap_inv_def keys key)
  have mem: "v \<in> set ?rows \<longleftrightarrow> (if row_key v = (c, u) then v = ?w else v \<in> set (oc_table oc))" for v
    by (auto simp: key)
  let ?m = "m((c, u) \<mapsto> ?w)"
  have tab: "v \<in> set (oc_table oc) \<longleftrightarrow> m (row_key v) = Some v" and keyed: "m k = Some v \<Longrightarrow> row_key v = k" for v k
    using assms(1) unfolding cap_inv_def by blast+
  have "cap_inv (oc_publish (oc\<lparr>oc_table := ?rows\<rparr>) ?w) ?m"
    unfolding cap_inv_def
  proof (intro conjI allI impI)
    show "distinct (map row_key (oc_table (oc_publish (oc\<lparr>oc_table := ?rows\<rparr>) ?w)))"
      using d by (simp add: oc_publish_def)
    show "cache_look (oc_cache (oc_publish (oc\<lparr>oc_table := ?rows\<rparr>) ?w)) = ?m"
      using assms(1) by (intro ext) (simp add: oc_publish_def look_put key cap_inv_def)
    show "v \<in> set (oc_table (oc_publish (oc\<lparr>oc_table := ?rows\<rparr>) ?w)) \<longleftrightarrow> ?m (row_key v) = Some v" for v
      using mem [of v] tab [of v] by (cases "row_key v = (c, u)") (simp_all add: oc_publish_def eq_commute [of v] del: set_map)
    show "row_key v = k" if "?m k = Some v" for k v
      using that keyed [of k v] by (cases "k = (c, u)") (auto simp: key)
  qed
  then show ?thesis by (simp add: upsert_accepted [OF assms(2) True] True Let_def)
qed


lemma cap_inv_apply: "cap_inv oc m \<Longrightarrow> cap_op_ok x \<Longrightarrow> cap_inv (cap_apply oc x) (cap_spec m x)"
proof (cases x)
  case (CapGc c u n)
  moreover assume "cap_inv oc m"
  ultimately show ?thesis by (cases n) (simp_all add: gc_after_rule_removed_def cap_inv_delete)
qed (simp_all add: cap_inv_put cap_inv_delete cap_inv_open del: cap_apply.simps(1) cap_spec.simps(1))

lemma cap_inv_run: "cap_inv oc m \<Longrightarrow> list_all cap_op_ok xs \<Longrightarrow> cap_inv (foldl cap_apply oc xs) (foldl cap_spec m xs)"
  by (induction xs arbitrary: oc m) (simp_all add: cap_inv_apply)

lemma cap_inv_empty: "cap_inv (oc_open []) Map.empty"
  by (auto simp: cap_inv_def oc_open_def cap_store_list_all_def)

text \<open>C30 (owner_caps_refine_map): when the updates run one after the other, the cache and the table
  both hold the finite map of the accepted limits: a lookup through the cache and one in the
  table agree, a refused limit and a collection while rules remain change nothing, and a restart
  rebuilds the cache from the table without a difference.\<close>

theorem owner_caps_refine_map:
  assumes "list_all cap_op_ok xs"
  shows "oc_get (foldl cap_apply (oc_open []) xs) c u = foldl cap_spec Map.empty xs (c, u) \<and>
    cap_store_get (oc_table (foldl cap_apply (oc_open []) xs)) c u = foldl cap_spec Map.empty xs (c, u)"
proof -
  have inv: "cap_inv (foldl cap_apply (oc_open []) xs) (foldl cap_spec Map.empty xs)"
    by (rule cap_inv_run [OF cap_inv_empty assms])
  moreover from this have "distinct (map row_key (oc_table (foldl cap_apply (oc_open []) xs)))"
    by (simp add: cap_inv_def)
  ultimately show ?thesis
    using inv_find [OF inv _ refl] by (simp add: oc_get_look cap_store_get_def cap_inv_def)
qed

lemma sample_accepted: "cap_accepted sample_limit"
proof -
  have "rate_limit_validate sample_limit = Inr ()"
    by (subst rate_limit_validate_iff) (simp_all add: rl_typed_def opt_le_def sample_limit_def burst_ok_def u64_max_def u32_max_def)
  then show ?thesis
    by (simp add: cap_accepted_def cap_binds_def cap_checks_def fits_i64_def null_or_def sample_limit_def i64_max_def)
qed

theorem owner_caps_refine_map_witness:
  "oc_get (foldl cap_apply (oc_open []) [CapPut 1 ''ann'' sample_limit 5, CapRestart, CapGc 1 ''ann'' 2]) 1 ''ann'' \<noteq> None"
  using owner_caps_refine_map [of "[CapPut 1 ''ann'' sample_limit 5, CapRestart, CapGc 1 ''ann'' 2]" 1 "''ann''"] sample_accepted
  by (simp add: i64_max_def del: cap_apply.simps)

lemma get_upserted:
  assumes "cap_store_upsert rows c u rl t = Inr rows'"
  shows "map_option ow_rate_limit (cap_store_get rows' c u) = Some rl"
proof -
  define w where "w = \<lparr>ow_client_id = c, ow_owner_id = u, ow_rate_limit = rl,
    ow_updated_at_unix_ms = (if int t \<le> i64_max then t else nat i64_max)\<rparr>"
  have w: "row_key w = (c, u)" "ow_rate_limit w = rl" by (simp_all add: w_def row_key_def)
  have rows': "rows' = (if \<exists>v \<in> set rows. row_key v = (c, u)
      then map (\<lambda>v. if row_key v = (c, u) then w else v) rows else rows @ [w])"
    using assms unfolding cap_store_upsert_def Let_def w_def [symmetric] by (auto split: if_split_asm)
  have "\<forall>v \<in> set rows'. row_key v = (c, u) \<longrightarrow> ow_rate_limit v = rl" and "\<exists>v \<in> set rows'. row_key v = (c, u)"
    using w unfolding rows' by auto
  then show ?thesis by (induction rows') (auto simp: cap_store_get_def)
qed

lemma persist_Inr:
  assumes "oc_persist oc c u rl t = Inr (oc', w)"
  shows "row_key w = (c, u)" "ow_rate_limit w = rl" "map_option ow_rate_limit (cap_store_get (oc_table oc') c u) = Some rl"
  using assms by (auto simp: oc_persist_def rbind_Inr_iff row_key_def dest: get_upserted)

text \<open>C40 (owner_cap_cache_diverges): two updates of the same limit whose commits and cache writes
  interleave the other way round leave the older limit in the cache and the newer one in the
  table, although both calls succeed: what is shown and pushed to clients is not what is stored.\<close>

theorem owner_cap_cache_diverges:
  assumes "oc_persist oc c u rl1 t1 = Inr (oc1, w1)" and "oc_persist oc1 c u rl2 t2 = Inr (oc2, w2)"
  shows "map_option ow_rate_limit (oc_get (oc_publish (oc_publish oc2 w2) w1) c u) = Some rl1 \<and>
    map_option ow_rate_limit (cap_store_get (oc_table (oc_publish (oc_publish oc2 w2) w1)) c u) = Some rl2"
  using persist_Inr [OF assms(1)] persist_Inr [OF assms(2)] by (simp add: oc_publish_def oc_get_look look_put)

theorem owner_cap_cache_diverges_witness:
  "\<exists>oc c u. map_option ow_rate_limit (oc_get oc c u) \<noteq> map_option ow_rate_limit (cap_store_get (oc_table oc) c u)"
proof -
  let ?l = "sample_limit\<lparr>concurrent_connections := None\<rparr>"
  have l: "cap_accepted ?l"
  proof -
    have "rate_limit_validate ?l = Inr ()"
      by (subst rate_limit_validate_iff) (simp_all add: rl_typed_def opt_le_def sample_limit_def burst_ok_def u64_max_def u32_max_def)
    then show ?thesis
      by (simp add: cap_accepted_def cap_binds_def cap_checks_def fits_i64_def null_or_def sample_limit_def i64_max_def)
  qed
  have ok: "\<exists>oc' w. oc_persist oc 1 ''ann'' rl 5 = Inr (oc', w)" if "cap_accepted rl" for oc rl
    using that by (cases "rate_limit_validate rl") (simp_all add: cap_accepted_def oc_persist_def cap_store_upsert_def Let_def)
  obtain oc1 w1 where 1: "oc_persist (oc_open []) 1 ''ann'' sample_limit 5 = Inr (oc1, w1)" using ok sample_accepted by blast
  obtain oc2 w2 where 2: "oc_persist oc1 1 ''ann'' ?l 5 = Inr (oc2, w2)" using ok l by blast
  have "sample_limit \<noteq> ?l" by (simp add: sample_limit_def)
  with owner_cap_cache_diverges [OF 1 2] show ?thesis by (metis option.inject)
qed

end
