(* ===== verification/Rule_Api.thy ===== *)
theory Rule_Api
  imports Rbac Wire Owner_Caps
begin

text \<open>
  The handlers of the operator API that create, change and remove rules, users and grants, and the
  parts of the client session that touch rules: operator/http.rs, operator/cli.rs,
  operator/grants.rs, operator/users.rs and grpc/service.rs of crates/portunus-server/src.  The
  state joins the operator tables, the rule registry and its table, the connected clients, the
  owner limits and the messages handed to each session.  A push or an update of a limit is two
  functions, since the handler waits for the client's answer in between: up to the message (begin) and
  from the answer on (finish).  Whether a session's channel still takes a message, the answer,
  request ids, the time and the argon hash are arguments.
\<close>

section \<open>Errors\<close>

datatype AuthError = AeFailed string | AeClientAlreadyExists ClientName | AeIo string | AeStoreCorrupt string

text \<open>The messages that go along with a code are left out; \<open>OpAdvertisedEndpoint\<close> carries the code of the
  endpoint error it wraps.\<close>

datatype OperatorError =
    OpInvalidName ClientNameError
  | OpClientAlreadyExists ClientName
  | OpIo string
  | OpAuth AuthError
  | OpStore StoreError
  | OpClientNotFound ClientName
  | OpClientIdNotFound ClientId
  | OpClientIdInvalid
  | OpClientNotRevoked ClientName
  | OpInvalidTarget string
  | OpInvalidClientAddress string
  | OpInvalidEnrollmentTtl nat
  | OpAdvertisedEndpoint string
  | OpClientNotConnected ClientName
  | OpPortInUse "u16 option"
  | OpActivationFailed string
  | OpAckTimeout
  | OpRuleNotFound
  | OpInvalidProtocol string
  | OpInvalidTargetHost string
  | OpExceedsCap u32 u32
  | OpRangeInvalid string
  | OpUnsupportedProtocol ClientName string
  | OpRbac RbacError
  | OpRuleShapeConflict
  | OpRuleShapeMissing
  | OpTargetsInvalid RuleTargetError
  | OpHealthCheckIntervalOutOfRange nat
  | OpMultiTargetUnsupportedByClient ClientName string
  | OpSniRouteDuplicate ClientName u16 string
  | OpSniFallbackDuplicate ClientName u16
  | OpLegacyToSniUnsupported ClientName u16 string string
  | OpSniUnsupportedByClient ClientName string
  | OpSniValidation string
  | OpProxyProtocolUnsupportedByClient ClientName string
  | OpProxyProtocolValidation string
  | OpRateLimitUnsupportedByClient ClientName string
  | OpRateLimitValidation string

definition target_host_code :: "TargetError \<Rightarrow> string" where
  "target_host_code e =
     (case e of
        TgtHostname (TotalTooLong _) \<Rightarrow> ''invalid_target_host_too_long''
      | TgtHostname (LabelTooLong _ _) \<Rightarrow> ''invalid_target_host_label_too_long''
      | TgtHostname (HyphenBoundary _) \<Rightarrow> ''invalid_target_host_label_hyphen''
      | _ \<Rightarrow> ''invalid_target_host'')"

fun range_error_text :: "PortRangeError \<Rightarrow> string" where
  "range_error_text (Inverted a b) = ''range_inverted: start='' @ show_dec (unat a) @ '' > end='' @ show_dec (unat b)"
| "range_error_text OutOfBounds = ''range_out_of_bounds: port 0 is not a valid listening port''"
| "range_error_text (LengthMismatch l t) =
     ''range_length_mismatch: listen_len='' @ show_dec (unat l) @ '' target_len='' @ show_dec (unat t)"
| "range_error_text (PortRangeError.ExceedsCap r c) = ''exceeds_cap: requested='' @ show_dec (unat r) @ '' cap='' @ show_dec (unat c)"

fun op_of_store :: "RuleStoreError \<Rightarrow> OperatorError" where
  "op_of_store (PortInUse p) = OpPortInUse (Some p)"
| "op_of_store RuleNotFound = OpRuleNotFound"
| "op_of_store InvalidTransition = OpActivationFailed ''invalid_state''"
| "op_of_store (RuleStoreError.ExceedsCap requested cap) = OpExceedsCap requested cap"
| "op_of_store (RangeInvalid e) = OpRangeInvalid (range_error_text e)"
| "op_of_store (StoreUnsupportedProtocol c p) = OpUnsupportedProtocol c p"
| "op_of_store (SniRouteDuplicate c p s) = OpSniRouteDuplicate c p s"
| "op_of_store (SniFallbackDuplicate c p) = OpSniFallbackDuplicate c p"
| "op_of_store (LegacyToSniUnsupported c p x y) = OpLegacyToSniUnsupported c p x y"

fun op_code :: "OperatorError \<Rightarrow> string" where
  "op_code (OpInvalidName _) = ''invalid_name''"
| "op_code (OpClientAlreadyExists _) = ''client_already_exists''"
| "op_code (OpIo _) = ''io_error''"
| "op_code (OpAuth e) = (case e of AeClientAlreadyExists _ \<Rightarrow> ''client_already_exists'' | _ \<Rightarrow> ''auth_error'')"
| "op_code (OpStore _) = ''store_error''"
| "op_code (OpClientNotFound _) = ''client_not_found''"
| "op_code (OpClientIdNotFound _) = ''client_not_found''"
| "op_code OpClientIdInvalid = ''client_not_found''"
| "op_code (OpClientNotRevoked _) = ''client_not_revoked''"
| "op_code (OpInvalidTarget _) = ''invalid_target''"
| "op_code (OpInvalidClientAddress _) = ''invalid_client_address''"
| "op_code (OpInvalidEnrollmentTtl _) = ''invalid_enrollment_ttl''"
| "op_code (OpAdvertisedEndpoint code) = code"
| "op_code (OpClientNotConnected _) = ''client_not_connected''"
| "op_code (OpPortInUse _) = ''port_in_use''"
| "op_code (OpActivationFailed _) = ''activation_failed''"
| "op_code OpAckTimeout = ''ack_timeout''"
| "op_code OpRuleNotFound = ''rule_not_found''"
| "op_code (OpInvalidProtocol _) = ''invalid_protocol''"
| "op_code (OpInvalidTargetHost code) = code"
| "op_code (OpExceedsCap _ _) = ''exceeds_cap''"
| "op_code (OpRangeInvalid _) = ''range_invalid''"
| "op_code (OpUnsupportedProtocol _ _) = ''unsupported_protocol''"
| "op_code (OpRbac e) = rbac_code e"
| "op_code OpRuleShapeConflict = ''rule_shape_conflict''"
| "op_code OpRuleShapeMissing = ''rule_shape_missing''"
| "op_code (OpTargetsInvalid e) =
     (case e of RtEmpty \<Rightarrow> ''targets_empty'' | RtTooMany _ \<Rightarrow> ''targets_too_many''
      | RtEmptyHost _ \<Rightarrow> ''target_invalid_host'' | RtInvalidHost _ _ _ \<Rightarrow> ''target_invalid_host''
      | RtInvalidPort _ _ \<Rightarrow> ''target_invalid_port'' | RtDuplicate _ _ _ _ \<Rightarrow> ''targets_duplicate'')"
| "op_code (OpHealthCheckIntervalOutOfRange _) = ''health_check_interval_out_of_range''"
| "op_code (OpMultiTargetUnsupportedByClient _ _) = ''multi_target_unsupported_by_client''"
| "op_code (OpSniRouteDuplicate _ _ _) = ''conflict.sni_route_duplicate''"
| "op_code (OpSniFallbackDuplicate _ _) = ''conflict.sni_fallback_duplicate''"
| "op_code (OpLegacyToSniUnsupported _ _ _ _) = ''conflict.legacy_to_sni_unsupported''"
| "op_code (OpSniUnsupportedByClient _ _) = ''sni_unsupported_by_client''"
| "op_code (OpSniValidation code) = code"
| "op_code (OpProxyProtocolUnsupportedByClient _ _) = ''proxy_protocol_unsupported_by_client''"
| "op_code (OpProxyProtocolValidation code) = code"
| "op_code (OpRateLimitUnsupportedByClient _ _) = ''rate_limit_unsupported_by_client''"
| "op_code (OpRateLimitValidation code) = code"

fun op_status :: "OperatorError \<Rightarrow> nat" where
  "op_status (OpPortInUse _) = 409"
| "op_status (OpSniRouteDuplicate _ _ _) = 409"
| "op_status (OpSniFallbackDuplicate _ _) = 409"
| "op_status (OpLegacyToSniUnsupported _ _ _ _) = 409"
| "op_status (OpClientNotConnected _) = 422"
| "op_status (OpActivationFailed _) = 422"
| "op_status (OpUnsupportedProtocol _ _) = 422"
| "op_status (OpMultiTargetUnsupportedByClient _ _) = 422"
| "op_status (OpSniUnsupportedByClient _ _) = 422"
| "op_status (OpProxyProtocolUnsupportedByClient _ _) = 422"
| "op_status (OpRateLimitUnsupportedByClient _ _) = 422"
| "op_status OpAckTimeout = 504"
| "op_status OpRuleNotFound = 404"
| "op_status (OpRbac e) = http_status_for e"
| "op_status (OpClientAlreadyExists _) = 409"
| "op_status (OpAuth e) = (case e of AeClientAlreadyExists _ \<Rightarrow> 409 | _ \<Rightarrow> 500)"
| "op_status (OpClientNotRevoked _) = 409"
| "op_status (OpAdvertisedEndpoint _) = 422"
| "op_status (OpClientNotFound _) = 404"
| "op_status (OpClientIdNotFound _) = 404"
| "op_status OpClientIdInvalid = 404"
| "op_status (OpIo _) = 500"
| "op_status (OpStore _) = 500"
| "op_status (OpInvalidEnrollmentTtl _) = 500"
| "op_status _ = 400"

text \<open>What a handler answers when it fails; an \<open>expect\<close> that does not hold aborts the request.\<close>

datatype ApiFailure = AfError ApiError | AfPanic string

definition api_error :: "OperatorError \<Rightarrow> ApiFailure" where
  "api_error e = AfError (ApiError (op_status e) (op_code e))"

definition rbac_error :: "RbacError \<Rightarrow> ApiFailure" where
  "rbac_error e = AfError (api_rbac e)"

definition admin_api_store :: "IdentityStoreError \<Rightarrow> ApiFailure" where
  "admin_api_store e =
     (case as_rbac e of
        Some r \<Rightarrow> rbac_error r
      | None \<Rightarrow>
          (case e of
             IsInvalidPortRange _ _ \<Rightarrow> AfError (ApiError 422 ''invalid_port_range'')
           | IsHashCollision \<Rightarrow> AfError (ApiError 409 ''hash_collision'')
           | _ \<Rightarrow> AfError (ApiError 500 ''internal'')))"


section \<open>State\<close>

record AppState =
  as_db :: OperatorDb
  as_rules :: ServerRuleStore
  as_rows :: RuleDb
  as_clients :: ConnectedClients
  as_owner_caps :: OwnerCapService
  as_stats :: "nat list"
  as_per_port :: "nat list"
  as_sent :: "(nat \<times> ServerMessage) list"
  as_range_cap :: u32

text \<open>The foreign key of the rules table: the owner is a known user.\<close>

definition known_user :: "AppState \<Rightarrow> string \<Rightarrow> bool" where
  "known_user st s = list_ex (\<lambda>r. uid_as_str (u_id (ur_user r)) = s) (db_users (as_db st))"

definition queue_msg :: "AppState \<Rightarrow> nat \<Rightarrow> ServerMessage \<Rightarrow> AppState" where
  "queue_msg st session msg = st\<lparr>as_sent := as_sent st @ [(session, msg)]\<rparr>"

text \<open>\<open>let _ = rule_store.upsert_rule(...)\<close>: a refused row leaves the table as it is.\<close>

definition persist_best_effort :: "AppState \<Rightarrow> nat \<Rightarrow> AppState" where
  "persist_best_effort st rid =
     (case rs_get (as_rules st) rid of
        None \<Rightarrow> st
      | Some rule \<Rightarrow> (case upsert_rule (known_user st) (as_rows st) rule of Inl _ \<Rightarrow> st | Inr rows \<Rightarrow> st\<lparr>as_rows := rows\<rparr>))"

section \<open>Pushing a rule (cli.rs)\<close>

definition parse_protocol :: "string \<Rightarrow> (OperatorError, Protocol) result" where
  "parse_protocol s =
     (let lower = to_ascii_lowercase s in
      if lower = ''tcp'' then Inr Tcp else if lower = ''udp'' then Inr Udp else Inl (OpInvalidProtocol lower))"

fun push_proto :: "Protocol \<Rightarrow> PushProtocol" where
  "push_proto Tcp = PpTcp"
| "push_proto Udp = PpUdp"

definition push_request :: "ClientName \<Rightarrow> PortRange \<Rightarrow> Protocol \<Rightarrow> PushRequest" where
  "push_request client_name listen proto =
     \<lparr>pq_client = client_name, pq_listen_port_start = pr_start listen, pq_listen_port_end = pr_end listen,
      pq_protocol = push_proto proto\<rparr>"

definition udp_gate :: "AppState \<Rightarrow> ClientName \<Rightarrow> Protocol \<Rightarrow> (OperatorError, unit) result" where
  "udp_gate st client_name proto =
     (if proto = Udp \<and> supports_by_name (as_clients st) client_name WpUdp \<noteq> Some True
      then Inl (OpUnsupportedProtocol client_name ''udp'') else Inr ())"

text \<open>Record, persist, send: a rule the table refuses stays in the registry; a rule that cannot be
  sent is taken back.\<close>

definition push_deliver ::
  "AppState \<Rightarrow> PushArgs \<Rightarrow> (Rule \<Rightarrow> ProtoRule) \<Rightarrow> nat \<Rightarrow> string \<Rightarrow> bool \<Rightarrow> timestamp
   \<Rightarrow> AppState \<times> (OperatorError, Rule) result" where
  "push_deliver st a encode session request_id sent now =
     (case push_range_with_targets (as_rules st) a now of
        Inl e \<Rightarrow> (st, Inl (op_of_store e))
      | Inr (rules, rule) \<Rightarrow>
          let st = st\<lparr>as_rules := rules\<rparr> in
          (case upsert_rule (known_user st) (as_rows st) rule of
             Inl e \<Rightarrow> (st, Inl (OpActivationFailed (''persist_rule: '' @ store_error_text e)))
           | Inr rows \<Rightarrow>
               let st = st\<lparr>as_rows := rows\<rparr> in
               if sent
               then (queue_msg st session (RuleUpdate request_id (rule_action ActPush) (Some (encode rule))), Inr rule)
               else (st\<lparr>as_rules := (case rs_remove (as_rules st) (r_id rule) of Inl _ \<Rightarrow> as_rules st | Inr (rs, _) \<Rightarrow> rs),
                        as_rows := rd_delete_rule rows (r_id rule)\<rparr>,
                     Inl (OpClientNotConnected (pa_client_name a)))))"

definition push_rule_begin ::
  "AppState \<Rightarrow> OperatorIdentity \<Rightarrow> string \<Rightarrow> PortRange \<Rightarrow> string \<Rightarrow> PortRange \<Rightarrow> string \<Rightarrow> bool option \<Rightarrow> u32
   \<Rightarrow> string \<Rightarrow> bool \<Rightarrow> timestamp \<Rightarrow> AppState \<times> (OperatorError, Rule) result" where
  "push_rule_begin st identity raw_client listen target_host target protocol prefer_ipv6 range_cap request_id sent now =
     (case rbind (map_err OpInvalidName (client_name_new raw_client)) (\<lambda>client_name.
           rbind (parse_protocol protocol) (\<lambda>proto.
           rbind (map_err OpRbac (enforce_push identity (push_request client_name listen proto)
                    (grants_for (as_db st) (oi_user_id identity)))) (\<lambda>_.
           rbind (map_err (\<lambda>e. OpInvalidTargetHost (target_host_code e)) (target_parse target_host)) (\<lambda>_.
           rbind (ok_or (OpClientNotConnected client_name) (handles_by_name (as_clients st) client_name)) (\<lambda>session.
           rbind (ok_or (OpClientNotConnected client_name) (client_id_by_name (as_clients st) client_name)) (\<lambda>client_id.
           rbind (udp_gate st client_name proto) (\<lambda>_.
             Inr (client_name, proto, session, client_id)))))))) of
        Inl e \<Rightarrow> (st, Inl e)
      | Inr (client_name, proto, session, client_id) \<Rightarrow>
          push_deliver st
            \<lparr>pa_client_id = client_id, pa_client_name = client_name, pa_listen = listen, pa_target_host = target_host,
             pa_target = target, pa_protocol = proto, pa_prefer_ipv6 = prefer_ipv6, pa_range_cap = range_cap,
             pa_owner = oi_user_id identity, pa_targets = [], pa_health_check = None, pa_sni = None, pa_rate_limit = None\<rparr>
            (\<lambda>rule. single_push_rule rule listen target_host target proto prefer_ipv6) session request_id sent now)"

definition push_multi_begin ::
  "AppState \<Rightarrow> OperatorIdentity \<Rightarrow> ClientName \<Rightarrow> PortRange \<Rightarrow> RuleTarget list \<Rightarrow> nat option \<Rightarrow> Protocol \<Rightarrow> bool option \<Rightarrow> u32
   \<Rightarrow> string option \<Rightarrow> RateLimit option \<Rightarrow> string \<Rightarrow> bool \<Rightarrow> timestamp \<Rightarrow> AppState \<times> (OperatorError, Rule) result" where
  "push_multi_begin st identity client_name listen targets health_check proto prefer_ipv6 range_cap sni rate_limit request_id sent now =
     (let first = hd targets in
      case rbind (ok_or (OpClientNotConnected client_name) (handles_by_name (as_clients st) client_name)) (\<lambda>session.
           rbind (ok_or (OpClientNotConnected client_name) (client_id_by_name (as_clients st) client_name)) (\<lambda>client_id.
           rbind (udp_gate st client_name proto) (\<lambda>_. Inr (session, client_id)))) of
        Inl e \<Rightarrow> (st, Inl e)
      | Inr (session, client_id) \<Rightarrow>
          push_deliver st
            \<lparr>pa_client_id = client_id, pa_client_name = client_name, pa_listen = listen, pa_target_host = rt_host first,
             pa_target = pr_single (rt_port first), pa_protocol = proto, pa_prefer_ipv6 = prefer_ipv6, pa_range_cap = range_cap,
             pa_owner = oi_user_id identity, pa_targets = targets, pa_health_check = health_check, pa_sni = sni,
             pa_rate_limit = rate_limit\<rparr>
            (\<lambda>rule. multi_push_rule rule listen targets health_check proto prefer_ipv6) session request_id sent now)"

text \<open>The answer: a status of the client, or none.\<close>

datatype ActivationOutcome = AoUnspecified | AoActivated | AoFailed | AoRemoved

definition outcome_of :: "int \<Rightarrow> ActivationOutcome" where
  "outcome_of n = (if n = 1 then AoActivated else if n = 2 then AoFailed else if n = 3 then AoRemoved else AoUnspecified)"

record RuleStatus =
  st_request_id :: string
  st_rule_id :: nat
  st_outcome :: int
  st_reason :: string

datatype ack = AckStatus RuleStatus | AckLost | AckElapsed

definition reason_of :: "RuleStatus \<Rightarrow> string" where
  "reason_of s = (if st_reason s = [] then ''unspecified'' else st_reason s)"

definition push_finish :: "AppState \<Rightarrow> nat \<Rightarrow> ack \<Rightarrow> timestamp \<Rightarrow> AppState \<times> (OperatorError, Rule) result" where
  "push_finish st rid a now =
     (case a of
        AckStatus status \<Rightarrow>
          (case outcome_of (st_outcome status) of
             AoActivated \<Rightarrow>
               (case mark_active (as_rules st) rid now of
                  Inl e \<Rightarrow> (st, Inl (op_of_store e))
                | Inr rules \<Rightarrow>
                    let st = persist_best_effort (st\<lparr>as_rules := rules\<rparr>) rid
                    in (st, ok_or OpRuleNotFound (rs_get (as_rules st) rid)))
           | AoFailed \<Rightarrow>
               let reason = reason_of status;
                   st = (case mark_failed (as_rules st) rid reason now of Inl _ \<Rightarrow> st | Inr rules \<Rightarrow> st\<lparr>as_rules := rules\<rparr>)
               in (persist_best_effort st rid, Inl (OpActivationFailed reason))
           | _ \<Rightarrow> (st, Inl (OpActivationFailed ''unexpected_outcome'')))
      | _ \<Rightarrow> (st, Inl OpAckTimeout))"


section \<open>Removing and updating a rule (cli.rs)\<close>

definition remove_rule :: "AppState \<Rightarrow> nat \<Rightarrow> string \<Rightarrow> bool \<Rightarrow> AppState \<times> (OperatorError, Rule) result" where
  "remove_rule st rid request_id sent =
     (case rs_remove (as_rules st) rid of
        Inl e \<Rightarrow> (st, Inl (op_of_store e))
      | Inr (rules, removed) \<Rightarrow>
          let st = st\<lparr>as_rules := rules, as_rows := rd_delete_rule (as_rows st) rid,
                      as_stats := removeAll rid (as_stats st), as_per_port := removeAll rid (as_per_port st)\<rparr>;
              st = (case handles_by_name (as_clients st) (r_client_name removed) of
                  None \<Rightarrow> st
                | Some session \<Rightarrow>
                    if sent then queue_msg st session (RuleUpdate request_id (rule_action ActRemove) (Some (removal_rule removed)))
                    else st);
              rules_remaining = length (filter (\<lambda>r. r_client_id r = r_client_id removed) (list_owned_by rules (r_owner removed)));
              caps = fst (gc_after_rule_removed (as_owner_caps st) (r_client_id removed) (uid_as_str (r_owner removed)) rules_remaining)
          in (st\<lparr>as_owner_caps := caps\<rparr>, Inr removed))"

definition update_limit_begin ::
  "AppState \<Rightarrow> nat \<Rightarrow> RateLimit option \<Rightarrow> string \<Rightarrow> bool \<Rightarrow> AppState \<times> (OperatorError, Rule) result" where
  "update_limit_begin st rid rate_limit request_id sent =
     (case rs_get (as_rules st) rid of
        None \<Rightarrow> (st, Inl OpRuleNotFound)
      | Some existing \<Rightarrow>
          (case handles_by_name (as_clients st) (r_client_name existing) of
             None \<Rightarrow> (st, Inl (OpClientNotConnected (r_client_name existing)))
           | Some session \<Rightarrow>
               (case update_rate_limit (as_rules st) rid rate_limit of
                  Inl e \<Rightarrow> (st, Inl (op_of_store e))
                | Inr (rules, updated) \<Rightarrow>
                    let st = st\<lparr>as_rules := rules\<rparr> in
                    (case upsert_rule (known_user st) (as_rows st) updated of
                       Inl e \<Rightarrow> (st, Inl (OpActivationFailed (''persist_rule: '' @ store_error_text e)))
                     | Inr rows \<Rightarrow>
                         let st = st\<lparr>as_rows := rows\<rparr> in
                         if sent
                         then (queue_msg st session (RuleUpdate request_id (rule_action ActPush) (Some (limit_update_rule updated))),
                               Inr updated)
                         else (st, Inl (OpClientNotConnected (r_client_name existing)))))))"

definition update_limit_finish :: "AppState \<Rightarrow> nat \<Rightarrow> ack \<Rightarrow> (OperatorError, Rule) result" where
  "update_limit_finish st rid a =
     (case a of AckStatus _ \<Rightarrow> ok_or OpRuleNotFound (rs_get (as_rules st) rid) | _ \<Rightarrow> Inl OpAckTimeout)"

definition cli_list_rules :: "AppState \<Rightarrow> string option \<Rightarrow> Rule list" where
  "cli_list_rules st raw_client =
     (let rules = rs_list (as_rules st) None in
      case raw_client of
        None \<Rightarrow> rules
      | Some raw \<Rightarrow> let name = trim raw in if name = [] then rules else filter (\<lambda>r. cn_as_str (r_client_name r) = name) rules)"

section \<open>Request bodies (http.rs)\<close>

record RateLimitBody =
  rb_limit :: RateLimit
  rb_concurrent_connections_burst :: "nat option"

record TargetBody =
  tb_host :: string
  tb_port :: u16
  tb_priority :: "nat option"
  tb_proxy_protocol :: "string option"

record PushRuleBody =
  pb_client :: string
  pb_listen_port :: u16
  pb_listen_port_end :: "u16 option"
  pb_target_host :: "string option"
  pb_target_port :: "u16 option"
  pb_target_port_end :: "u16 option"
  pb_protocol :: string
  pb_prefer_ipv6 :: "bool option"
  pb_targets :: "TargetBody list option"
  pb_health_check :: "nat option"
  pb_sni :: "string option"
  pb_rate_limit :: "RateLimitBody option"

text \<open>\<open>str::parse::<u32>()\<close> on a text without a plus sign.\<close>

definition parse_u32 :: "string \<Rightarrow> nat option" where
  "parse_u32 s = (case parse_u64 s of None \<Rightarrow> None | Some n \<Rightarrow> if n \<le> u32_max then Some n else None)"

definition version_pair :: "string \<Rightarrow> nat \<times> nat" where
  "version_pair version =
     (let trimmed = takeWhile (\<lambda>c. c \<noteq> CHR ''-'' \<and> c \<noteq> CHR ''+'') version;
          parts = split_on CHR ''.'' trimmed;
          num = (\<lambda>i. if i < length parts then (case parse_u32 (parts ! i) of None \<Rightarrow> 0 | Some n \<Rightarrow> n) else 0)
      in (num 0, num 1))"

definition version_ge :: "string \<Rightarrow> nat \<Rightarrow> nat \<Rightarrow> bool" where
  "version_ge version major_floor minor_floor =
     (let (major, minor) = version_pair version in major > major_floor \<or> major = major_floor \<and> minor \<ge> minor_floor)"

definition parse_rate_limit_body :: "RateLimitBody option \<Rightarrow> (OperatorError, RateLimit option) result" where
  "parse_rate_limit_body body =
     (case body of
        None \<Rightarrow> Inr None
      | Some b \<Rightarrow>
          if rb_concurrent_connections_burst b \<noteq> None then Inl (OpRateLimitValidation ''validation.rate_limit_burst_unsupported'')
          else (case rate_limit_validate (rb_limit b) of
                  Inl (CapZero _) \<Rightarrow> Inl (OpRateLimitValidation ''validation.rate_limit_cap_zero'')
                | Inl (BurstWithoutRate _) \<Rightarrow> Inl (OpRateLimitValidation ''validation.rate_limit_burst_without_rate'')
                | Inl (BurstRange _ _ _ _ _) \<Rightarrow> Inl (OpRateLimitValidation ''validation.rate_limit_burst_range'')
                | Inr _ \<Rightarrow> Inr (Some (rb_limit b))))"

definition parse_proxy_protocol_version :: "string option \<Rightarrow> (OperatorError, ProxyProtocolVersion option) result" where
  "parse_proxy_protocol_version raw =
     (case raw of
        None \<Rightarrow> Inr None
      | Some r \<Rightarrow>
          let trimmed = trim r in
          if trimmed = [] then Inr None
          else let lower = to_ascii_lowercase trimmed in
            if lower = ''v1'' then Inr (Some V1) else if lower = ''v2'' then Inr (Some V2)
            else Inl (OpProxyProtocolValidation ''validation.proxy_protocol_invalid''))"

definition sni_malformed :: OperatorError where
  "sni_malformed = OpSniValidation ''validation.sni_pattern_malformed''"

fun validate_sni_labels :: "string list \<Rightarrow> (OperatorError, unit) result" where
  "validate_sni_labels [] = Inr ()"
| "validate_sni_labels (label # labels) =
     (if label = [] \<or> length label > 63 \<or> hd label = CHR ''-'' \<or> last label = CHR ''-'' \<or>
         \<not> list_all (\<lambda>c. is_ascii_lower c \<or> is_ascii_digit c \<or> c = CHR ''-'') label
      then Inl sni_malformed else validate_sni_labels labels)"

definition validate_sni_pattern :: "string \<Rightarrow> (OperatorError, string) result" where
  "validate_sni_pattern raw =
     (let trimmed = trim raw in
      if trimmed = [] \<or> length trimmed > 253 then Inl sni_malformed
      else let lower = to_ascii_lowercase trimmed;
               (wildcard, body) = (case strip_prefix ''*.'' lower of Some rest \<Rightarrow> (True, rest) | None \<Rightarrow> (False, lower)) in
        if body = [] then Inl sni_malformed
        else if wildcard \<and> CHR ''.'' \<notin> set body then Inl sni_malformed
        else rbind (validate_sni_labels (split_on CHR ''.'' body)) (\<lambda>_.
          Inr (if wildcard then ''*.'' @ body else body)))"

definition build_range :: "u16 \<Rightarrow> u16 option \<Rightarrow> (OperatorError, PortRange) result" where
  "build_range start e =
     map_err (\<lambda>err. OpRangeInvalid (range_error_text err)) (pr_new start (case e of None \<Rightarrow> start | Some v \<Rightarrow> v))"

definition parse_protocol_str :: "string \<Rightarrow> (OperatorError, Protocol) result" where
  "parse_protocol_str s =
     (let lower = to_ascii_lowercase s in
      if lower = ''tcp'' then Inr Tcp else if lower = ''udp'' then Inr Udp else Inl (OpInvalidProtocol s))"

fun typed_targets :: "nat \<Rightarrow> TargetBody list \<Rightarrow> (OperatorError, RuleTarget list) result" where
  "typed_targets i [] = Inr []"
| "typed_targets i (t # ts) =
     rbind (parse_proxy_protocol_version (tb_proxy_protocol t)) (\<lambda>proxy.
     rbind (typed_targets (Suc i) ts) (\<lambda>out.
       Inr (\<lparr>rt_host = tb_host t, rt_port = tb_port t,
             rt_priority = (case tb_priority t of None \<Rightarrow> min i u32_max | Some p \<Rightarrow> p), rt_proxy_protocol = proxy\<rparr> # out)))"


section \<open>POST /v1/rules (http.rs)\<close>

text \<open>The gates of the client's version: the first two let an unknown version pass.\<close>

definition version_gates ::
  "AppState \<Rightarrow> ClientName \<Rightarrow> RuleTarget list \<Rightarrow> string option \<Rightarrow> RateLimit option \<Rightarrow> (OperatorError, unit) result" where
  "version_gates st client_name typed sni rate_limit =
     (let version = client_version_by_name (as_clients st) client_name;
          below = (\<lambda>minor. case version of None \<Rightarrow> False | Some v \<Rightarrow> \<not> version_ge v 0 minor);
          shown = (case version of None \<Rightarrow> ''unknown'' | Some v \<Rightarrow> v) in
      if length typed \<ge> 2 \<and> below 7 then Inl (OpMultiTargetUnsupportedByClient client_name shown)
      else if sni \<noteq> None \<and> below 9 then Inl (OpSniUnsupportedByClient client_name shown)
      else if list_ex (\<lambda>t. rt_proxy_protocol t \<noteq> None) typed \<and> (version = None \<or> below 10)
      then Inl (OpProxyProtocolUnsupportedByClient client_name shown)
      else if rate_limit \<noteq> None \<and> (version = None \<or> below 11)
      then Inl (OpRateLimitUnsupportedByClient client_name shown)
      else Inr ())"

definition check_multi_target ::
  "AppState \<Rightarrow> OperatorIdentity \<Rightarrow> PushRuleBody \<Rightarrow> TargetBody list \<Rightarrow> PortRange \<Rightarrow> string option \<Rightarrow> RateLimit option
   \<Rightarrow> (OperatorError, ClientName \<times> RuleTarget list \<times> Protocol) result" where
  "check_multi_target st identity body raw_targets listen sni rate_limit =
     rbind (case pb_health_check body of
              None \<Rightarrow> Inr ()
            | Some hci \<Rightarrow> if hci = 0 \<or> hci > 3600 then Inl (OpHealthCheckIntervalOutOfRange hci) else Inr ()) (\<lambda>_.
     rbind (if raw_targets = [] then Inl (OpTargetsInvalid RtEmpty) else Inr ()) (\<lambda>_.
     rbind (typed_targets 0 raw_targets) (\<lambda>typed.
     rbind (map_err OpTargetsInvalid (targets_validate typed)) (\<lambda>_.
     rbind (map_err OpInvalidName (client_name_new (pb_client body))) (\<lambda>client_name.
     rbind (parse_protocol_str (pb_protocol body)) (\<lambda>proto.
     rbind (map_err OpRbac (enforce_push identity (push_request client_name listen proto)
              (grants_for (as_db st) (oi_user_id identity)))) (\<lambda>_.
     rbind (if proto = Udp \<and> list_ex (\<lambda>t. rt_proxy_protocol t \<noteq> None) typed
            then Inl (OpProxyProtocolValidation ''validation.proxy_protocol_on_unsupported_rule'') else Inr ()) (\<lambda>_.
     rbind (version_gates st client_name typed sni rate_limit) (\<lambda>_.
       Inr (client_name, typed, proto))))))))))"

definition push_multi_target ::
  "AppState \<Rightarrow> OperatorIdentity \<Rightarrow> PushRuleBody \<Rightarrow> TargetBody list \<Rightarrow> PortRange \<Rightarrow> string option \<Rightarrow> RateLimit option
   \<Rightarrow> string \<Rightarrow> bool \<Rightarrow> timestamp \<Rightarrow> AppState \<times> (OperatorError, Rule) result" where
  "push_multi_target st identity body raw_targets listen sni rate_limit request_id sent now =
     (case check_multi_target st identity body raw_targets listen sni rate_limit of
        Inl e \<Rightarrow> (st, Inl e)
      | Inr (client_name, typed, proto) \<Rightarrow>
          push_multi_begin st identity client_name listen typed (pb_health_check body) proto (pb_prefer_ipv6 body)
            (as_range_cap st) sni rate_limit request_id sent now)"

definition push_legacy_with_sni ::
  "AppState \<Rightarrow> OperatorIdentity \<Rightarrow> string \<Rightarrow> string \<Rightarrow> PortRange \<Rightarrow> string \<Rightarrow> PortRange \<Rightarrow> bool option \<Rightarrow> string
   \<Rightarrow> string \<Rightarrow> bool \<Rightarrow> timestamp \<Rightarrow> AppState \<times> (OperatorError, Rule) result" where
  "push_legacy_with_sni st identity raw_client protocol listen target_host target prefer_ipv6 sni request_id sent now =
     (let synth = [\<lparr>rt_host = target_host, rt_port = pr_start target, rt_priority = 0, rt_proxy_protocol = None\<rparr>] in
      case rbind (map_err OpInvalidName (client_name_new raw_client)) (\<lambda>client_name.
           rbind (parse_protocol_str protocol) (\<lambda>proto.
           rbind (map_err OpRbac (enforce_push identity (push_request client_name listen proto)
                    (grants_for (as_db st) (oi_user_id identity)))) (\<lambda>_.
           rbind (case client_version_by_name (as_clients st) client_name of
                    None \<Rightarrow> Inr ()
                  | Some v \<Rightarrow> if version_ge v 0 9 then Inr () else Inl (OpSniUnsupportedByClient client_name v)) (\<lambda>_.
           rbind (map_err OpTargetsInvalid (targets_validate synth)) (\<lambda>_.
             Inr (client_name, proto)))))) of
        Inl e \<Rightarrow> (st, Inl e)
      | Inr (client_name, proto) \<Rightarrow>
          push_multi_begin st identity client_name listen synth None proto prefer_ipv6 (as_range_cap st) (Some sni) None
            request_id sent now)"

text \<open>What both shapes have in common.\<close>

definition rule_shape :: "PushRuleBody \<Rightarrow> (OperatorError, PortRange) result" where
  "rule_shape body =
     (let has_legacy = (pb_target_host body \<noteq> None \<or> pb_target_port body \<noteq> None); has_new = (pb_targets body \<noteq> None) in
      if has_legacy \<and> has_new then Inl OpRuleShapeConflict
      else if \<not> has_legacy \<and> \<not> has_new then Inl OpRuleShapeMissing
      else if (pb_listen_port_end body \<noteq> None) \<noteq> (pb_target_port_end body \<noteq> None)
      then Inl (OpRangeInvalid ''mismatched_range: listen_port_end and target_port_end must be present together'')
      else build_range (pb_listen_port body) (pb_listen_port_end body))"

definition sni_of_body :: "PushRuleBody \<Rightarrow> PortRange \<Rightarrow> (OperatorError, string option) result" where
  "sni_of_body body listen =
     (case pb_sni body of
        None \<Rightarrow> Inr None
      | Some raw \<Rightarrow>
          if \<not> eq_ignore_ascii_case (pb_protocol body) ''tcp'' then Inl (OpSniValidation ''validation.sni_on_unsupported_rule'')
          else if pr_len listen > 1 then Inl (OpSniValidation ''validation.sni_on_unsupported_rule'')
          else rbind (validate_sni_pattern raw) (\<lambda>p. Inr (Some p)))"

definition lift_api :: "AppState \<times> (OperatorError, 'a) result \<Rightarrow> AppState \<times> (ApiFailure, 'a) result" where
  "lift_api r = (fst r, map_err api_error (snd r))"

definition post_rules_begin ::
  "AppState \<Rightarrow> OperatorIdentity \<Rightarrow> PushRuleBody \<Rightarrow> string \<Rightarrow> bool \<Rightarrow> timestamp \<Rightarrow> AppState \<times> (ApiFailure, Rule) result" where
  "post_rules_begin st identity body request_id sent now =
     (case rbind (rule_shape body) (\<lambda>listen. rbind (sni_of_body body listen) (\<lambda>sni.
             rbind (parse_rate_limit_body (pb_rate_limit body)) (\<lambda>rl. Inr (listen, sni, rl)))) of
        Inl e \<Rightarrow> (st, Inl (api_error e))
      | Inr (listen, sni, rate_limit) \<Rightarrow>
          (case pb_targets body of
             Some raw_targets \<Rightarrow> lift_api (push_multi_target st identity body raw_targets listen sni rate_limit request_id sent now)
           | None \<Rightarrow>
               if rate_limit \<noteq> None then (st, Inl (api_error (OpRateLimitValidation ''validation.rate_limit_on_legacy_shape'')))
               else (case (pb_target_host body, pb_target_port body) of
                       (Some target_host, Some target_port) \<Rightarrow>
                         (case build_range target_port (pb_target_port_end body) of
                            Inl e \<Rightarrow> (st, Inl (api_error e))
                          | Inr target \<Rightarrow>
                              lift_api (case sni of
                                  Some pat \<Rightarrow> push_legacy_with_sni st identity (pb_client body) (pb_protocol body) listen target_host
                                    target (pb_prefer_ipv6 body) pat request_id sent now
                                | None \<Rightarrow> push_rule_begin st identity (pb_client body) listen target_host target (pb_protocol body)
                                    (pb_prefer_ipv6 body) (as_range_cap st) request_id sent now))
                     | _ \<Rightarrow> (st, Inl (AfPanic ''has_legacy true'')))))"

definition post_rules ::
  "AppState \<Rightarrow> OperatorIdentity \<Rightarrow> PushRuleBody \<Rightarrow> string \<Rightarrow> bool \<Rightarrow> timestamp \<Rightarrow> ack \<Rightarrow> timestamp
   \<Rightarrow> AppState \<times> (ApiFailure, Rule) result" where
  "post_rules st identity body request_id sent now a later =
     (case post_rules_begin st identity body request_id sent now of
        (st, Inl e) \<Rightarrow> (st, Inl e)
      | (st, Inr rule) \<Rightarrow> lift_api (push_finish st (r_id rule) a later))"

section \<open>The other rule endpoints (http.rs)\<close>

definition delete_rule ::
  "AppState \<Rightarrow> OperatorIdentity \<Rightarrow> nat \<Rightarrow> string \<Rightarrow> bool \<Rightarrow> AppState \<times> (ApiFailure, unit) result" where
  "delete_rule st identity rid request_id sent =
     (case (case rs_get (as_rules st) rid of None \<Rightarrow> Inr () | Some rule \<Rightarrow> enforce_read identity (r_owner rule)) of
        Inl e \<Rightarrow> (st, Inl (rbac_error e))
      | Inr _ \<Rightarrow> (case remove_rule st rid request_id sent of
            (st, Inl e) \<Rightarrow> (st, Inl (api_error e)) | (st, Inr _) \<Rightarrow> (st, Inr ())))"

definition shape_mismatch :: ApiFailure where
  "shape_mismatch = AfError (ApiError 400 ''validation.rule_update_shape_mismatch'')"

definition same_target :: "TargetBody \<Rightarrow> RuleTarget \<Rightarrow> bool" where
  "same_target incoming cur \<longleftrightarrow> tb_host incoming = rt_host cur \<and> tb_port incoming = rt_port cur \<and>
     (case tb_priority incoming of None \<Rightarrow> 0 | Some p \<Rightarrow> p) = rt_priority cur"

definition check_put_rule :: "OperatorIdentity \<Rightarrow> PushRuleBody \<Rightarrow> Rule \<Rightarrow> (ApiFailure, RateLimit option) result" where
  "check_put_rule identity body existing =
     rbind (map_err rbac_error (enforce_read identity (r_owner existing))) (\<lambda>_.
     rbind (map_err api_error (rule_shape body)) (\<lambda>listen.
     rbind (map_err api_error (parse_rate_limit_body (pb_rate_limit body))) (\<lambda>rate_limit.
       if pb_client body \<noteq> cn_as_str (r_client_name existing) \<or>
          \<not> eq_ignore_ascii_case (pb_protocol body) (protocol_as_str (r_protocol existing)) \<or> listen \<noteq> listen_range existing
       then Inl shape_mismatch
       else (case pb_targets body of
               None \<Rightarrow>
                 if (case pb_target_host body of None \<Rightarrow> [] | Some h \<Rightarrow> h) \<noteq> r_target_host existing \<or>
                    (case pb_target_port body of None \<Rightarrow> 0 | Some p \<Rightarrow> p) \<noteq> r_target_port existing
                 then Inl shape_mismatch
                 else if rate_limit \<noteq> None then Inl (api_error (OpRateLimitValidation ''validation.rate_limit_on_legacy_shape''))
                 else Inr rate_limit
             | Some typed \<Rightarrow>
                 if length typed = length (targets_view existing) \<and> list_all2 same_target typed (targets_view existing)
                 then Inr rate_limit else Inl shape_mismatch))))"

definition put_rule_begin ::
  "AppState \<Rightarrow> OperatorIdentity \<Rightarrow> nat \<Rightarrow> PushRuleBody \<Rightarrow> string \<Rightarrow> bool \<Rightarrow> AppState \<times> (ApiFailure, Rule) result" where
  "put_rule_begin st identity rid body request_id sent =
     (case rs_get (as_rules st) rid of
        None \<Rightarrow> (st, Inl (AfError (ApiError 404 ''rule_not_found'')))
      | Some existing \<Rightarrow>
          (case check_put_rule identity body existing of
             Inl e \<Rightarrow> (st, Inl e)
           | Inr rate_limit \<Rightarrow> lift_api (update_limit_begin st rid rate_limit request_id sent)))"

definition get_rules :: "AppState \<Rightarrow> OperatorIdentity \<Rightarrow> string option \<Rightarrow> string option \<Rightarrow> Rule list" where
  "get_rules st identity client owner =
     (let rules = cli_list_rules st client in
      if oi_role identity \<noteq> Superadmin then filter (\<lambda>r. r_owner r = oi_user_id identity) rules
      else (case owner of None \<Rightarrow> rules | Some w \<Rightarrow> filter (\<lambda>r. uid_as_str (r_owner r) = w) rules))"

end
