(* ===== verification/Admin_Api.thy ===== *)
theory Admin_Api
  imports Rule_Api
begin

text \<open>
  The administrative handlers (operator/grants.rs and operator/users.rs) with the cascades from a
  grant or a user to the rules, and the part of a client session that touches rules
  (grpc/service.rs): the replay of rules and owner limits after a connect and a status that answers no
  waiting request.  New ids, the parse of a grant id, the time and the argon hash are arguments.  The
  order of a hash map's values, which the cascade walks, does not matter to what it removes.
\<close>

section \<open>Grants (grants.rs)\<close>

record CreateGrantBody =
  gb_user_id :: string
  gb_client :: string
  gb_listen_port_start :: u16
  gb_listen_port_end :: u16
  gb_protocols :: "string list"
  gb_note :: "string option"

definition grant_of_body :: "CreateGrantBody \<Rightarrow> GrantId \<Rightarrow> timestamp \<Rightarrow> (RbacError, Grant) result" where
  "grant_of_body body gid now =
     rbind (uid_from_str (gb_user_id body)) (\<lambda>user_id.
     rbind (if gb_client body = ''*'' then Inr ScopeAny
            else map_err (\<lambda>_. InvalidClient) (rbind (client_name_new (gb_client body)) (\<lambda>n. Inr (ScopeNamed n)))) (\<lambda>client.
     rbind (if gb_listen_port_start body = 0 \<or> gb_listen_port_start body > gb_listen_port_end body
            then Inl InvalidPortRange else Inr ()) (\<lambda>_.
     rbind (case ps_collect (gb_protocols body) 0 of None \<Rightarrow> Inl EmptyProtocolSet | Some bits \<Rightarrow> ps_non_empty bits) (\<lambda>protocols.
       Inr \<lparr>g_id = gid, g_user_id = user_id, g_client = client, g_listen_port_start = gb_listen_port_start body,
            g_listen_port_end = gb_listen_port_end body, g_protocols = protocols, g_note = gb_note body,
            g_created_at = now\<rparr>))))"

definition post_grants ::
  "AppState \<Rightarrow> OperatorIdentity \<Rightarrow> CreateGrantBody \<Rightarrow> GrantId \<Rightarrow> timestamp \<Rightarrow> AppState \<times> (ApiFailure, Grant) result" where
  "post_grants st identity body gid now =
     (case map_err rbac_error (rbind (require_role identity Superadmin) (\<lambda>_. grant_of_body body gid now)) of
        Inl e \<Rightarrow> (st, Inl e)
      | Inr grant \<Rightarrow>
          (case add_grant (as_db st) grant of
             Inl e \<Rightarrow> (st, Inl (admin_api_store e))
           | Inr db \<Rightarrow> (st\<lparr>as_db := db\<rparr>, Inr grant)))"

definition get_grants :: "AppState \<Rightarrow> OperatorIdentity \<Rightarrow> string option \<Rightarrow> (ApiFailure, Grant list) result" where
  "get_grants st identity user_id =
     map_err rbac_error
       (rbind (require_role identity Superadmin) (\<lambda>_.
        rbind (case user_id of None \<Rightarrow> Inr None | Some s \<Rightarrow> rbind (parse_stored_user_id s) (\<lambda>u. Inr (Some u))) (\<lambda>f.
          Inr (list_grants (as_db st) f))))"

definition rule_request :: "Rule \<Rightarrow> PushRequest" where
  "rule_request rule =
     \<lparr>pq_client = r_client_name rule, pq_listen_port_start = r_listen_port rule,
      pq_listen_port_end = (case r_listen_port_end rule of None \<Rightarrow> r_listen_port rule | Some e \<Rightarrow> e),
      pq_protocol = push_proto (r_protocol rule)\<rparr>"

definition drop_rule_quietly :: "AppState \<Rightarrow> nat \<Rightarrow> AppState" where
  "drop_rule_quietly st rid =
     st\<lparr>as_rules := (case rs_remove (as_rules st) rid of Inl _ \<Rightarrow> as_rules st | Inr (rules, _) \<Rightarrow> rules),
        as_rows := rd_delete_rule (as_rows st) rid\<rparr>"

fun cascade_rules :: "AppState \<Rightarrow> OperatorIdentity \<Rightarrow> Grant list \<Rightarrow> Rule list \<Rightarrow> AppState \<times> nat list" where
  "cascade_rules st synthetic remaining [] = (st, [])"
| "cascade_rules st synthetic remaining (rule # rules) =
     (if is_ok (enforce_push synthetic (rule_request rule) remaining) then cascade_rules st synthetic remaining rules
      else let (st, removed) = cascade_rules (drop_rule_quietly st (r_id rule)) synthetic remaining rules
           in (st, r_id rule # removed))"

definition delete_grant ::
  "AppState \<Rightarrow> OperatorIdentity \<Rightarrow> GrantId option \<Rightarrow> AppState \<times> (ApiFailure, nat list) result" where
  "delete_grant st identity grant_id =
     (case map_err rbac_error (rbind (require_role identity Superadmin) (\<lambda>_. ok_or GrantNotFound grant_id)) of
        Inl e \<Rightarrow> (st, Inl e)
      | Inr gid \<Rightarrow>
          (case revoke_grant (as_db st) gid of
             Inl e \<Rightarrow> (st, Inl (admin_api_store e))
           | Inr (db, grant) \<Rightarrow>
               let st = st\<lparr>as_db := db\<rparr>;
                   owner = g_user_id grant;
                   (st, removed) = cascade_rules st \<lparr>oi_user_id = owner, oi_role = RoleUser\<rparr> (grants_for db owner)
                     (list_owned_by (as_rules st) owner)
               in (st, Inr removed)))"

section \<open>Users (users.rs)\<close>

record CreateUserBody =
  ub_user_id :: string
  ub_display_name :: string
  ub_role :: string
  ub_initial_password :: "string option"
  ub_password_change_required :: bool

definition user_of_body :: "CreateUserBody \<Rightarrow> timestamp \<Rightarrow> (RbacError, User) result" where
  "user_of_body body now =
     rbind (uid_from_str (ub_user_id body)) (\<lambda>uid.
       let display_name = trim (ub_display_name body) in
       if display_name = [] \<or> length display_name > 64 then Inl InvalidDisplayName
       else rbind (if ub_role body = ''superadmin'' then Inr Superadmin
                   else if ub_role body = ''user'' then Inr RoleUser else Inl RoleRequired) (\<lambda>role.
         Inr \<lparr>u_id = uid, u_display_name = display_name, u_role = role, u_created_at = now, u_disabled = False\<rparr>))"

definition post_users ::
  "(string \<Rightarrow> string option) \<Rightarrow> AppState \<Rightarrow> OperatorIdentity \<Rightarrow> CreateUserBody \<Rightarrow> timestamp
   \<Rightarrow> AppState \<times> (ApiFailure, User) result" where
  "post_users argon st identity body now =
     (case map_err rbac_error (rbind (require_role identity Superadmin) (\<lambda>_. user_of_body body now)) of
        Inl e \<Rightarrow> (st, Inl e)
      | Inr user \<Rightarrow>
          let password = (case ub_initial_password body of None \<Rightarrow> [] | Some p \<Rightarrow> p) in
          if password = [] then (st, Inl (AfError (ApiError 422 ''initial_password_required'')))
          else (case hash_password argon password of
                  Inl e \<Rightarrow> (st, Inl (AfError (password_error e)))
                | Inr hash \<Rightarrow>
                    (case add_user_with_password (as_db st) user (Some hash) (ub_password_change_required body) of
                       Inl e \<Rightarrow> (st, Inl (admin_api_store e))
                     | Inr db \<Rightarrow> (st\<lparr>as_db := db\<rparr>, Inr user))))"

text \<open>A user with the number of its grants.\<close>

definition get_users :: "AppState \<Rightarrow> OperatorIdentity \<Rightarrow> (ApiFailure, (User \<times> nat) list) result" where
  "get_users st identity =
     map_err rbac_error (rbind (require_role identity Superadmin) (\<lambda>_.
       Inr (map (\<lambda>u. (u, length (list_grants (as_db st) (Some (u_id u))))) (list_users (as_db st)))))"

definition get_user_view :: "AppState \<Rightarrow> OperatorIdentity \<Rightarrow> string \<Rightarrow> (ApiFailure, User \<times> nat) result" where
  "get_user_view st identity user_id =
     map_err rbac_error
       (rbind (require_role identity Superadmin) (\<lambda>_.
        rbind (parse_stored_user_id user_id) (\<lambda>uid.
        rbind (ok_or UserNotFound (get_user (as_db st) uid)) (\<lambda>user.
          Inr (user, length (list_grants (as_db st) (Some uid)))))))"

text \<open>The deletion in its two halves, between which other requests may run: the checks, and the
  removal with its cascade.  The row of the user takes its rule rows along; the explicit delete finds none.\<close>

definition delete_user_check :: "AppState \<Rightarrow> OperatorIdentity \<Rightarrow> string \<Rightarrow> (RbacError, UserId) result" where
  "delete_user_check st identity user_id =
     rbind (require_role identity Superadmin) (\<lambda>_.
     rbind (parse_stored_user_id user_id) (\<lambda>uid.
       if uid = oi_user_id identity then Inl CannotRemoveSelf
       else (case get_user (as_db st) uid of
               None \<Rightarrow> Inr uid
             | Some target \<Rightarrow>
                 if u_role target = Superadmin \<and> count_superadmins (as_db st) \<le> 1 then Inl LastSuperadmin else Inr uid)))"

definition delete_user_apply ::
  "AppState \<Rightarrow> UserId \<Rightarrow> AppState \<times> (ApiFailure, UserRemoveSummary \<times> nat list) result" where
  "delete_user_apply st uid =
     (case remove_user (as_db st) uid of
        Inl e \<Rightarrow> (st, Inl (admin_api_store e))
      | Inr (db, summary) \<Rightarrow>
          let (rules, removed) = remove_owned_by (as_rules st) uid
          in (st\<lparr>as_db := db, as_rules := rules, as_rows := delete_rules_owned_by (as_rows st) uid\<rparr>, Inr (summary, removed)))"

definition delete_user ::
  "AppState \<Rightarrow> OperatorIdentity \<Rightarrow> string \<Rightarrow> AppState \<times> (ApiFailure, UserRemoveSummary \<times> nat list) result" where
  "delete_user st identity user_id =
     (case delete_user_check st identity user_id of
        Inl e \<Rightarrow> (st, Inl (rbac_error e))
      | Inr uid \<Rightarrow> delete_user_apply st uid)"

section \<open>The client session (service.rs)\<close>

definition version_at_least :: "string option \<Rightarrow> nat \<Rightarrow> nat \<Rightarrow> bool" where
  "version_at_least version major_floor minor_floor =
     (case version of None \<Rightarrow> False | Some v \<Rightarrow> version_ge v major_floor minor_floor)"

definition replay_gate_reason :: "Rule \<Rightarrow> bool \<Rightarrow> string option \<Rightarrow> (string, unit) result" where
  "replay_gate_reason rule udp client_version =
     (if r_protocol rule = Udp \<and> \<not> udp then Inl ''unsupported_protocol''
      else if r_targets rule \<noteq> [] \<and> length (r_targets rule) \<ge> 2 \<and> \<not> version_at_least client_version 0 7
      then Inl ''multi_target_unsupported_by_client''
      else if r_sni rule \<noteq> None \<and> \<not> version_at_least client_version 0 9 then Inl ''sni_unsupported_by_client''
      else if list_ex (\<lambda>t. rt_proxy_protocol t \<noteq> None) (r_targets rule) \<and> \<not> version_at_least client_version 0 10
      then Inl ''proxy_protocol_unsupported_by_client''
      else if r_rate_limit rule \<noteq> None \<and> \<not> version_at_least client_version 0 11
      then Inl ''rate_limit_unsupported_by_client''
      else Inr ())"

definition try_mark :: "AppState \<Rightarrow> (RuleStoreError, ServerRuleStore) result \<Rightarrow> AppState" where
  "try_mark st r = (case r of Inl _ \<Rightarrow> st | Inr rules \<Rightarrow> st\<lparr>as_rules := rules\<rparr>)"

text \<open>\<open>room\<close> is how many messages the session's channel still takes before it closes.\<close>

fun replay_loop ::
  "AppState \<Rightarrow> nat \<Rightarrow> bool \<Rightarrow> string option \<Rightarrow> timestamp \<Rightarrow> (nat \<Rightarrow> string) \<Rightarrow> nat \<Rightarrow> Rule list \<Rightarrow> AppState" where
  "replay_loop st session udp version now request_id room [] = st"
| "replay_loop st session udp version now request_id room (rule # rules) =
     (if r_state rule \<noteq> RsActive then replay_loop st session udp version now request_id room rules
      else (case replay_gate_reason rule udp version of
              Inl reason \<Rightarrow>
                let st = try_mark st (mark_failed (as_rules st) (r_id rule) reason now)
                in replay_loop (persist_best_effort st (r_id rule)) session udp version now request_id room rules
            | Inr _ \<Rightarrow>
                let st = try_mark st (mark_pending (as_rules st) (r_id rule) now) in
                (case rs_get (as_rules st) (r_id rule) of
                   None \<Rightarrow> replay_loop st session udp version now request_id room rules
                 | Some updated \<Rightarrow>
                     let st = persist_best_effort st (r_id rule) in
                     if room = 0 then st
                     else replay_loop
                            (queue_msg st session (RuleUpdate (request_id (r_id rule)) (rule_action ActPush)
                               (Some (proto_rule_from_rule updated))))
                            session udp version now request_id (room - 1) rules)))"

definition replay_rules_for_client ::
  "AppState \<Rightarrow> ClientId \<Rightarrow> nat \<Rightarrow> timestamp \<Rightarrow> (nat \<Rightarrow> string) \<Rightarrow> nat \<Rightarrow> AppState" where
  "replay_rules_for_client st client_id session now request_id room =
     replay_loop st session (cs_supports (as_clients st) client_id WpUdp = Some True)
       (client_version_of (as_clients st) client_id) now request_id room (rs_list (as_rules st) (Some client_id))"

definition replay_owner_caps_for_client :: "AppState \<Rightarrow> ClientId \<Rightarrow> ClientName \<Rightarrow> nat \<Rightarrow> nat \<Rightarrow> AppState" where
  "replay_owner_caps_for_client st client_id client_name session room =
     (if \<not> version_at_least (client_version_of (as_clients st) client_id) 0 11 then st
      else foldl (\<lambda>st w. queue_msg st session
                    (OwnerRateLimitUpdate (cn_as_str client_name) (ow_owner_id w) (Some (ow_rate_limit w)) 1 (ow_client_id w)))
             st (take room (oc_list_for_client (as_owner_caps st) client_id)))"

definition apply_unsolicited_rule_status :: "AppState \<Rightarrow> ClientId \<Rightarrow> RuleStatus \<Rightarrow> timestamp \<Rightarrow> AppState" where
  "apply_unsolicited_rule_status st client_id status now =
     (case rs_get (as_rules st) (st_rule_id status) of
        None \<Rightarrow> st
      | Some existing \<Rightarrow>
          if r_client_id existing \<noteq> client_id then st
          else (case outcome_of (st_outcome status) of
                  AoActivated \<Rightarrow>
                    persist_best_effort (try_mark st (mark_active (as_rules st) (st_rule_id status) now)) (st_rule_id status)
                | AoFailed \<Rightarrow>
                    persist_best_effort (try_mark st (mark_failed (as_rules st) (st_rule_id status) (reason_of status) now))
                      (st_rule_id status)
                | _ \<Rightarrow> st))"

end
