(* ===== verification/Rule_Guarantees.thy ===== *)
theory Rule_Guarantees
  imports Admin_Api
begin

text \<open>
  What the operator API guarantees about rules, grants and users, over the handlers of Rule_Api and
  Admin_Api: rules stay within the grants of their owners, revoking a grant removes exactly the rules
  it alone allowed, a superadmin remains, and what a reconnecting client is sent.  A handler runs
  in one step up to the point where it waits for the client; the races that a finer
  interleaving opens are stated on the halves of the handlers concerned.
\<close>

section \<open>What a rule claims\<close>

definition claim_of :: "Rule \<Rightarrow> UserId \<times> PushRequest" where
  "claim_of r = (r_owner r, rule_request r)"

definition held :: "AppState \<Rightarrow> (UserId \<times> PushRequest) set" where
  "held st = claim_of ` rules_of (as_rules st)"

text \<open>A claim is authorised when its owner is a user and, unless that user is a superadmin, one
  grant of the user covers the whole request.\<close>

definition authorised :: "OperatorDb \<Rightarrow> UserId \<times> PushRequest \<Rightarrow> bool" where
  "authorised db c \<longleftrightarrow>
     (case get_user db (fst c) of
        None \<Rightarrow> False
      | Some u \<Rightarrow> u_role u = Superadmin \<or> (\<exists>g \<in> set (db_grants db). g_user_id g = fst c \<and> grant_covers g (snd c)))"

definition api_ok :: "AppState \<Rightarrow> bool" where
  "api_ok st \<longleftrightarrow> db_wf (as_db st) \<and> store_ok (as_rules st) \<and> (\<forall>c \<in> held st. authorised (as_db st) c)"

section \<open>Steps that add no claim\<close>

definition quiet :: "AppState \<Rightarrow> AppState \<Rightarrow> bool" where
  "quiet st st' \<longleftrightarrow> as_db st' = as_db st \<and> (store_ok (as_rules st) \<longrightarrow> store_ok (as_rules st') \<and> held st' \<subseteq> held st)"

lemma quiet_refl [simp]: "quiet st st"
  by (simp add: quiet_def)

lemma quiet_trans: "quiet a b \<Longrightarrow> quiet b c \<Longrightarrow> quiet a c"
  by (auto simp: quiet_def)

lemma quiet_same: "as_db st' = as_db st \<Longrightarrow> as_rules st' = as_rules st \<Longrightarrow> quiet st st'"
  by (simp add: quiet_def held_def)

lemma quiet_persist [simp]: "quiet st (persist_best_effort st rid)"
  by (rule quiet_same) (simp_all add: persist_best_effort_def split: option.splits sum.splits)

lemma quiet_queue [simp]: "quiet st (queue_msg st s m)"
  by (rule quiet_same) (simp_all add: queue_msg_def)

lemma claim_of_edit [simp]:
  "claim_of (r\<lparr>r_state := s, r_last_state_change_at := now\<rparr>) = claim_of r" "claim_of (r\<lparr>r_rate_limit := l\<rparr>) = claim_of r"
  by (auto simp: claim_of_def rule_request_def split: option.split)

lemma replace_claim:
  assumes "map_of (rs_rules st) i = Some r" and "claim_of r' = claim_of r"
  shows "claim_of ` snd ` set (AList.update i r' (rs_rules st)) \<subseteq> claim_of ` rules_of st"
proof -
  have "claim_of r' \<in> claim_of ` rules_of st"
    using map_of_SomeD [OF assms(1)] assms(2) unfolding rules_of_def by (metis imageI snd_conv)
  then show ?thesis
    using image_mono [OF set_update_sub, of claim_of i r' "rs_rules st"] by (simp add: rules_of_def insert_absorb)
qed

lemma set_state_claims: "set_state st i s now = Inr st' \<Longrightarrow> claim_of ` rules_of st' \<subseteq> claim_of ` rules_of st"
proof -
  assume "set_state st i s now = Inr st'"
  then obtain r where "map_of (rs_rules st) i = Some r"
    "rs_rules st' = AList.update i (r\<lparr>r_state := s, r_last_state_change_at := now\<rparr>) (rs_rules st)"
    by (auto simp: set_state_def split: option.splits if_splits)
  then show ?thesis using replace_claim [of st i r "r\<lparr>r_state := s, r_last_state_change_at := now\<rparr>"]
    by (simp add: rules_of_def [of st'])
qed

lemma rate_claims: "update_rate_limit st i l = Inr (st', r) \<Longrightarrow> claim_of ` rules_of st' \<subseteq> claim_of ` rules_of st"
proof -
  assume "update_rate_limit st i l = Inr (st', r)"
  then obtain r0 where "map_of (rs_rules st) i = Some r0" "rs_rules st' = AList.update i (r0\<lparr>r_rate_limit := l\<rparr>) (rs_rules st)"
    by (auto simp: update_rate_limit_def Let_def split: option.splits)
  then show ?thesis using replace_claim [of st i r0 "r0\<lparr>r_rate_limit := l\<rparr>"]
    by (simp add: rules_of_def [of st'])
qed

lemma quiet_rules:
  assumes "store_ok (as_rules st) \<Longrightarrow> store_ok rules" and "claim_of ` rules_of rules \<subseteq> claim_of ` rules_of (as_rules st)"
    and "as_db st' = as_db st" and "as_rules st' = rules"
  shows "quiet st st'"
  using assms by (simp add: quiet_def held_def)

lemma quiet_set_state: "set_state (as_rules st) i s now = Inr rules \<Longrightarrow> quiet st (st\<lparr>as_rules := rules\<rparr>)"
  by (rule quiet_rules [where rules = rules]) (simp_all add: store_ok_state set_state_claims)

lemma quiet_mark [simp]: "quiet st (try_mark st (set_state (as_rules st) i s now))"
  by (auto simp: try_mark_def intro: quiet_set_state split: sum.splits)

lemma quiet_remove:
  "rs_remove (as_rules st) i = Inr (rules, r) \<Longrightarrow> as_db st' = as_db st \<Longrightarrow> as_rules st' = rules \<Longrightarrow> quiet st st'"
  by (rule quiet_rules [where rules = rules]) (simp_all add: store_ok_remove image_mono remove_shape)

lemma quiet_rate: "update_rate_limit (as_rules st) i l = Inr (rules, r) \<Longrightarrow> quiet st (st\<lparr>as_rules := rules\<rparr>)"
  by (rule quiet_rules [where rules = rules]) (simp_all add: store_ok_rate rate_claims)

lemma quiet_ok: "quiet st st' \<Longrightarrow> api_ok st \<Longrightarrow> api_ok st'"
  by (auto simp: quiet_def api_ok_def)


section \<open>The handlers\<close>

lemma mark_pending_quiet [simp]: "quiet st (try_mark st (mark_pending (as_rules st) i now))"
  "quiet st (try_mark st (mark_failed (as_rules st) i reason now))" "quiet st (try_mark st (mark_active (as_rules st) i now))"
  by (simp_all add: mark_defs)

lemma push_finish_quiet: "quiet st (fst (push_finish st rid a now))"
proof -
  have marked: "quiet st (persist_best_effort (try_mark st r) rid)" if "quiet st (try_mark st r)" for r
    using that by (rule quiet_trans) simp
  have "fst (push_finish st rid a now) \<in>
    {st, persist_best_effort (try_mark st (mark_active (as_rules st) rid now)) rid} \<union>
    range (\<lambda>reason. persist_best_effort (try_mark st (mark_failed (as_rules st) rid reason now)) rid)"
    by (auto simp: push_finish_def try_mark_def Let_def split: ack.split ActivationOutcome.split sum.split)
  then show ?thesis using marked by auto
qed

lemma remove_rule_quiet: "quiet st (fst (remove_rule st rid request_id sent))"
  by (cases "rs_remove (as_rules st) rid")
    (auto simp: remove_rule_def Let_def queue_msg_def intro!: quiet_remove split: option.splits)

lemma delete_rule_quiet: "quiet st (fst (delete_rule st identity rid request_id sent))"
  using remove_rule_quiet [of st rid request_id sent]
  by (auto simp: delete_rule_def split: sum.splits prod.splits option.splits)

lemma update_limit_quiet: "quiet st (fst (update_limit_begin st rid l request_id sent))"
proof (cases "update_rate_limit (as_rules st) rid l")
  case (Inr p)
  obtain rules r where p: "p = (rules, r)" by fastforce
  have q: "quiet st (st\<lparr>as_rules := rules\<rparr>)" using quiet_rate Inr p by blast
  have "quiet (st\<lparr>as_rules := rules\<rparr>) (fst (update_limit_begin st rid l request_id sent)) \<or>
      fst (update_limit_begin st rid l request_id sent) = st"
    by (auto simp: update_limit_begin_def Inr p Let_def queue_msg_def intro!: quiet_same split: option.splits sum.splits)
  then show ?thesis using quiet_trans [OF q] by auto
qed (auto simp: update_limit_begin_def split: option.splits)

lemma put_rule_quiet: "quiet st (fst (put_rule_begin st identity rid body request_id sent))"
  by (auto simp: put_rule_begin_def lift_api_def update_limit_quiet split: option.splits sum.splits)

lemma replay_loop_quiet: "quiet st (replay_loop st session udp version now request_id room rules)"
proof (induction rules arbitrary: st room)
  case (Cons rule rules)
  let ?p = "try_mark st (mark_pending (as_rules st) (r_id rule) now)"
  let ?f = "\<lambda>reason. try_mark st (mark_failed (as_rules st) (r_id rule) reason now)"
  have p: "quiet st (persist_best_effort ?p (r_id rule))" by (rule quiet_trans [of _ ?p]) simp_all
  have f: "quiet st (persist_best_effort (?f reason) (r_id rule))" for reason
    by (rule quiet_trans [of _ "?f reason"]) simp_all
  have q: "quiet st (queue_msg (persist_best_effort ?p (r_id rule)) session m)" for m
    by (rule quiet_trans [OF p]) simp
  show ?case
    using p quiet_trans [OF f Cons.IH] quiet_trans [OF q Cons.IH] quiet_trans [OF mark_pending_quiet(1) Cons.IH] Cons.IH
    by (simp add: Let_def split: sum.split option.split)
qed simp

lemma unsolicited_quiet: "quiet st (apply_unsolicited_rule_status st c status now)"
  by (auto simp: apply_unsolicited_rule_status_def intro: quiet_trans [OF _ quiet_persist] split: option.split ActivationOutcome.split)

lemma replay_caps_quiet: "quiet st (replay_owner_caps_for_client st c n session room)"
proof -
  have "quiet st (foldl (\<lambda>st w. queue_msg st session (f w)) st ws)" for f :: "OwnerRateLimitRow \<Rightarrow> ServerMessage" and ws
    by (induction ws arbitrary: st) (auto intro: quiet_trans [OF quiet_queue])
  then show ?thesis by (simp add: replay_owner_caps_for_client_def)
qed


section \<open>A push adds one claim\<close>

lemma rule_request_new:
  "pr_wf (pa_listen a) \<Longrightarrow> rule_request (new_rule a i now) = push_request (pa_client_name a) (pa_listen a) (pa_protocol a)"
  by (auto simp: rule_request_def push_request_def end_of_def pr_wf_def pr_len_gt_1_iff)

text \<open>What reaches the registry: the arguments were checked against the grants of the caller.\<close>

definition checked :: "AppState \<Rightarrow> OperatorIdentity \<Rightarrow> PushArgs \<Rightarrow> bool" where
  "checked st identity a \<longleftrightarrow> pa_owner a = oi_user_id identity \<and>
     is_ok (enforce_push identity (push_request (pa_client_name a) (pa_listen a) (pa_protocol a))
       (grants_for (as_db st) (oi_user_id identity)))"

text \<open>Arguments a client can take, with a listen range that is well formed.\<close>

definition wire_args :: "PushArgs \<Rightarrow> bool" where
  "wire_args a \<longleftrightarrow> pr_wf (pa_target a) \<and> is_ok (target_parse (pa_target_host a)) \<and> list_all valid_target (pa_targets a) \<and>
     pa_health_check a \<noteq> Some 0"

definition delivers ::
  "AppState \<Rightarrow> OperatorIdentity \<Rightarrow> PortRange \<Rightarrow> string \<Rightarrow> bool \<Rightarrow> timestamp \<Rightarrow> AppState \<times> (OperatorError, Rule) result \<Rightarrow> bool" where
  "delivers st identity listen request_id sent now out \<longleftrightarrow>
     (\<exists>e. out = (st, Inl e)) \<or>
     (\<exists>a encode session. out = push_deliver st a encode session request_id sent now \<and> checked st identity a \<and>
        pa_listen a = listen \<and> wire_args a \<and> (\<forall>i. encode (new_rule a i now) = proto_rule_from_rule (new_rule a i now)))"

lemma delivers_refused [simp]: "delivers st identity listen request_id sent now (st, Inl e)"
  by (simp add: delivers_def)

lemma is_ok_map_err [simp]: "is_ok (map_err g r) = is_ok r"
  by (cases r) simp_all

lemma delivers_case:
  "(\<And>x. c = Inr x \<Longrightarrow> delivers st identity listen request_id sent now (k x)) \<Longrightarrow>
   delivers st identity listen request_id sent now (case c of Inl e \<Rightarrow> (st, Inl e) | Inr x \<Rightarrow> k x)"
  by (cases c) simp_all

lemma delivers_push:
  "checked st identity a \<Longrightarrow> pa_listen a = listen \<Longrightarrow> wire_args a \<Longrightarrow> (\<And>i. encode (new_rule a i now) = proto_rule_from_rule (new_rule a i now)) \<Longrightarrow>
   delivers st identity listen request_id sent now (push_deliver st a encode session request_id sent now)"
  unfolding delivers_def by blast

lemma push_rule_delivers:
  assumes "pr_wf target"
  shows "delivers st identity listen request_id sent now
     (push_rule_begin st identity raw_client listen target_host target protocol prefer_ipv6 range_cap request_id sent now)"
  unfolding push_rule_begin_def
proof (rule delivers_case, goal_cases)
  case (1 x)
  obtain client_name proto session client_id where x: "x = (client_name, proto, session, client_id)" by (cases x)
  have "is_ok (enforce_push identity (push_request client_name listen proto) (grants_for (as_db st) (oi_user_id identity)))"
    "is_ok (target_parse target_host)"
    using 1 by (auto simp: x rbind_Inr_iff)
  then show ?case
    unfolding x prod.case using assms
    by (intro delivers_push) (simp_all add: checked_def single_push_rule_def proto_rule_from_rule_def
        new_rule_def end_if_range_end_of wire_args_def)
qed

lemma push_multi_delivers:
  assumes "is_ok (enforce_push identity (push_request client_name listen proto) (grants_for (as_db st) (oi_user_id identity)))"
    and "is_ok (targets_validate targets)" and "hc \<noteq> Some 0"
  shows "delivers st identity listen request_id sent now
     (push_multi_begin st identity client_name listen targets hc proto prefer_ipv6 range_cap sni rate_limit request_id sent now)"
  unfolding push_multi_begin_def Let_def
proof (rule delivers_case, goal_cases)
  case (1 x)
  obtain session client_id where x: "x = (session, client_id)" by (cases x)
  have valid: "targets \<noteq> []" "list_all valid_target targets"
    using assms(2) targets_validate_correct [of targets] by (cases "targets_validate targets"; auto simp: list_all_iff)+
  then have "valid_target (hd targets)" by (cases targets) simp_all
  then show ?case
    unfolding x prod.case using assms valid
    by (intro delivers_push) (simp_all add: checked_def multi_push_rule_def proto_rule_from_rule_def new_rule_def
        end_if_range_end_of pr_single_def end_of_def pr_len_def end_or_zero_def wire_args_def valid_target_def pr_wf_def)
qed

lemma push_multi_target_delivers:
  "delivers st identity listen request_id sent now
     (push_multi_target st identity body raw listen sni rate_limit request_id sent now)"
  unfolding push_multi_target_def
proof (rule delivers_case, goal_cases)
  case (1 x)
  obtain client_name typed proto where x: "x = (client_name, typed, proto)" by (cases x)
  have "is_ok (enforce_push identity (push_request client_name listen proto) (grants_for (as_db st) (oi_user_id identity)))"
    "is_ok (targets_validate typed)" "pb_health_check body \<noteq> Some 0"
    using 1 by (auto simp: x check_multi_target_def rbind_Inr_iff)
  then show ?case unfolding x prod.case by (rule push_multi_delivers)
qed

lemma push_sni_delivers:
  "delivers st identity listen request_id sent now
     (push_legacy_with_sni st identity raw_client protocol listen host target prefer_ipv6 sni request_id sent now)"
  unfolding push_legacy_with_sni_def Let_def
proof (rule delivers_case, goal_cases)
  case (1 x)
  obtain client_name proto where x: "x = (client_name, proto)" by (cases x)
  have "is_ok (enforce_push identity (push_request client_name listen proto) (grants_for (as_db st) (oi_user_id identity)))"
    "is_ok (targets_validate [\<lparr>rt_host = host, rt_port = pr_start target, rt_priority = 0, rt_proxy_protocol = None\<rparr>])"
    using 1 by (auto simp: x rbind_Inr_iff)
  then show ?case unfolding x prod.case by (rule push_multi_delivers) simp
qed

text \<open>Every accepted shape of the request goes through one of the three.\<close>

definition api_delivers ::
  "AppState \<Rightarrow> OperatorIdentity \<Rightarrow> string \<Rightarrow> bool \<Rightarrow> timestamp \<Rightarrow> AppState \<times> (ApiFailure, Rule) result \<Rightarrow> bool" where
  "api_delivers st identity request_id sent now out \<longleftrightarrow>
     (\<exists>e. out = (st, Inl e)) \<or>
     (\<exists>listen r. pr_wf listen \<and> delivers st identity listen request_id sent now r \<and> out = lift_api r)"

lemma build_range_wf: "build_range a e = Inr r \<Longrightarrow> pr_wf r"
  by (auto simp: build_range_def pr_new_def pr_wf_def split: if_splits option.splits)

lemma post_rules_delivers: "api_delivers st identity request_id sent now (post_rules_begin st identity body request_id sent now)"
proof -
  let ?c = "rbind (rule_shape body) (\<lambda>listen. rbind (sni_of_body body listen) (\<lambda>sni.
             rbind (parse_rate_limit_body (pb_rate_limit body)) (\<lambda>rl. Inr (listen, sni, rl))))"
  show ?thesis
  proof (cases ?c)
    case (Inl e)
    then show ?thesis by (simp add: post_rules_begin_def api_delivers_def)
  next
    case (Inr x)
    obtain listen sni rl where x: "x = (listen, sni, rl)" by (cases x)
    have "pr_wf listen" using Inr by (auto simp: x rbind_Inr_iff rule_shape_def Let_def build_range_wf split: if_splits)
    then have lift: "api_delivers st identity request_id sent now (lift_api r)" if "delivers st identity listen request_id sent now r" for r
      using that unfolding api_delivers_def by blast
    have refused: "api_delivers st identity request_id sent now (st, Inl e)" for e by (simp add: api_delivers_def)
    show ?thesis
      unfolding post_rules_begin_def Inr x prod.case sum.case
      using lift [OF push_multi_target_delivers] lift [OF push_sni_delivers] lift [OF push_rule_delivers] refused build_range_wf
      by (simp split: option.split sum.split)
  qed
qed


lemma push_deliver_effect:
  assumes ok: "store_ok (as_rules st)" and n: "rs_next_id (as_rules st) < u64_max"
  shows "as_db (fst (push_deliver st a encode session request_id sent now)) = as_db st \<and>
    store_ok (as_rules (fst (push_deliver st a encode session request_id sent now))) \<and>
    held (fst (push_deliver st a encode session request_id sent now)) \<subseteq>
      insert (claim_of (new_rule a (rs_next_id (as_rules st)) now)) (held st)"
proof (cases "push_range_with_targets (as_rules st) a now")
  case (Inl e)
  then show ?thesis using ok by (auto simp: push_deliver_def)
next
  case (Inr p)
  obtain rules rule where p: "p = (rules, rule)" by (cases p)
  have rule: "rule = new_rule a (rs_next_id (as_rules st)) now"
    and all: "rs_rules rules = AList.update (rs_next_id (as_rules st)) rule (rs_rules (as_rules st))"
    using Inr p by (auto simp: push_Inr_iff)
  let ?st1 = "st\<lparr>as_rules := rules\<rparr>"
  have ok1: "store_ok rules" using store_ok_push [OF ok _ n] Inr p by blast
  have held1: "held ?st1 \<subseteq> insert (claim_of rule) (held st)"
    using image_mono [OF set_update_sub, of claim_of "rs_next_id (as_rules st)" rule "rs_rules (as_rules st)"]
    by (simp add: held_def rules_of_def all)
  have "quiet ?st1 (fst (push_deliver st a encode session request_id sent now))"
    by (cases "rs_remove rules (r_id rule)")
      (auto simp: push_deliver_def Inr p Let_def queue_msg_def intro: quiet_same quiet_remove [where i = "r_id rule"] split: sum.split)
  then show ?thesis using ok1 held1 by (auto simp: quiet_def rule)
qed

lemma grants_for_set: "set (grants_for db u) = {g \<in> set (db_grants db). g_user_id g = u}"
  by (auto simp: grants_for_def)

text \<open>The caller as the middleware identified it: a user of the table, with the role it has there.\<close>

definition valid_identity :: "OperatorDb \<Rightarrow> OperatorIdentity \<Rightarrow> bool" where
  "valid_identity db identity \<longleftrightarrow> (case get_user db (oi_user_id identity) of None \<Rightarrow> False | Some u \<Rightarrow> u_role u = oi_role identity)"

lemma checked_authorised:
  assumes "checked st identity a" and "valid_identity (as_db st) identity" and "pr_wf (pa_listen a)"
  shows "authorised (as_db st) (claim_of (new_rule a i now))"
  using assms by (auto simp: checked_def valid_identity_def authorised_def claim_of_def rule_request_new
      enforce_push_ok_iff grants_for_set split: option.splits)

lemma post_rules_ok:
  assumes ok: "api_ok st" and who: "valid_identity (as_db st) identity" and n: "rs_next_id (as_rules st) < u64_max"
  shows "api_ok (fst (post_rules_begin st identity body request_id sent now))"
proof -
  consider "fst (post_rules_begin st identity body request_id sent now) = st"
    | a encode session where "checked st identity a" "pr_wf (pa_listen a)"
        "fst (post_rules_begin st identity body request_id sent now) = fst (push_deliver st a encode session request_id sent now)"
    using post_rules_delivers [of st identity request_id sent now body]
    unfolding api_delivers_def delivers_def lift_api_def by fastforce
  then show ?thesis
  proof cases
    case 2
    have "store_ok (as_rules st)" using ok by (simp add: api_ok_def)
    note eff = push_deliver_effect [OF this n, of a encode session request_id sent now, folded 2(3)]
    show ?thesis using ok eff checked_authorised [OF 2(1) who 2(2), of "rs_next_id (as_rules st)" now]
      by (auto simp: api_ok_def)
  qed (use ok in simp)
qed

section \<open>Cascades\<close>

lemma rules_of_remove:
  assumes ok: "store_ok st" and r: "r \<in> rules_of st"
  shows "\<exists>st'. rs_remove st (r_id r) = Inr (st', r) \<and> store_ok st' \<and> rules_of st' = rules_of st - {r}"
proof -
  have get: "map_of (rs_rules st) (r_id r) = Some r" using rules_of_iff [OF ok] r by blast
  then obtain st' where rm: "rs_remove st (r_id r) = Inr (st', r)" and all: "rs_rules st' = AList.delete (r_id r) (rs_rules st)"
    by (simp add: rs_remove_def)
  have ok': "store_ok st'" using store_ok_remove [OF ok rm] .
  have "x \<in> rules_of st' \<longleftrightarrow> x \<in> rules_of st - {r}" for x
    using get unfolding rules_of_iff [OF ok'] Diff_iff rules_of_iff [OF ok] all by (auto simp: delete_conv')
  then show ?thesis using rm ok' by blast
qed

text \<open>Dropping the rules that fail a test, in any order.\<close>

definition uncovered :: "Grant list \<Rightarrow> Rule \<Rightarrow> bool" where
  "uncovered grants r \<longleftrightarrow> \<not> (\<exists>g \<in> set grants. grant_covers g (rule_request r))"

lemma cascade_exact:
  assumes "store_ok (as_rules st)" and "set rules \<subseteq> rules_of (as_rules st)" and "distinct (map r_id rules)"
  shows "\<exists>st'. cascade_rules st \<lparr>oi_user_id = owner, oi_role = RoleUser\<rparr> grants rules =
      (st', map r_id (filter (uncovered grants) rules)) \<and>
    store_ok (as_rules st') \<and> rules_of (as_rules st') = rules_of (as_rules st) - {r \<in> set rules. uncovered grants r} \<and>
    st' = st\<lparr>as_rules := as_rules st', as_rows := as_rows st'\<rparr>"
  using assms
proof (induction rules arbitrary: st)
  case (Cons r rules)
  have test: "is_ok (enforce_push \<lparr>oi_user_id = owner, oi_role = RoleUser\<rparr> (rule_request r) grants) \<longleftrightarrow> \<not> uncovered grants r"
    by (simp add: enforce_push_ok_iff uncovered_def)
  show ?case
  proof (cases "uncovered grants r")
    case True
    obtain rs where rs: "rs_remove (as_rules st) (r_id r) = Inr (rs, r)" "store_ok rs" "rules_of rs = rules_of (as_rules st) - {r}"
      using rules_of_remove [OF Cons.prems(1), of r] Cons.prems(2) by auto
    let ?st1 = "drop_rule_quietly st (r_id r)"
    have st1: "as_rules ?st1 = rs" by (simp add: drop_rule_quietly_def rs)
    have sub: "set rules \<subseteq> rules_of (as_rules ?st1)" using Cons.prems(2,3) st1 rs(3) by auto
    obtain st' where st': "cascade_rules ?st1 \<lparr>oi_user_id = owner, oi_role = RoleUser\<rparr> grants rules =
        (st', map r_id (filter (uncovered grants) rules))" "store_ok (as_rules st')"
      "rules_of (as_rules st') = rules_of (as_rules ?st1) - {r \<in> set rules. uncovered grants r}"
      "st' = ?st1\<lparr>as_rules := as_rules st', as_rows := as_rows st'\<rparr>"
      using Cons.IH [of ?st1] sub Cons.prems(3) rs(2) st1 by auto
    have "st' = st\<lparr>as_rules := as_rules st', as_rows := as_rows st'\<rparr>"
      by (subst st'(4)) (simp add: drop_rule_quietly_def)
    then show ?thesis using st'(1-3) True test st1 rs(3) by (intro exI [of _ st']) auto
  next
    case False
    then obtain st' where "cascade_rules st \<lparr>oi_user_id = owner, oi_role = RoleUser\<rparr> grants rules =
        (st', map r_id (filter (uncovered grants) rules))" "store_ok (as_rules st')"
      "rules_of (as_rules st') = rules_of (as_rules st) - {r \<in> set rules. uncovered grants r}"
      "st' = st\<lparr>as_rules := as_rules st', as_rows := as_rows st'\<rparr>"
      using Cons.IH [of st] Cons.prems by auto
    then show ?thesis using False test by (intro exI [of _ st']) auto
  qed
qed simp


lemma rule_ids_distinct:
  assumes ok: "store_ok rs"
  shows "distinct (map r_id (map snd (rs_rules rs)))"
proof -
  have keys: "distinct (map fst (rs_rules rs))" using ok unfolding store_ok_def by (rule conjunct1)
  have "r_id r = i" if "(i, r) \<in> set (rs_rules rs)" for i r
    using store_get [OF ok] map_of_is_SomeI [OF keys that] by blast
  then have "map r_id (map snd (rs_rules rs)) = map fst (rs_rules rs)" by auto
  with keys show ?thesis by (simp only:)
qed

lemma owned_rules:
  assumes ok: "store_ok rs"
  shows "set (list_owned_by rs u) = {r \<in> rules_of rs. r_owner r = u}" and "distinct (map r_id (list_owned_by rs u))"
  unfolding list_owned_by_def
  by (auto simp: rules_of_def) (rule filter_distinct [OF rule_ids_distinct [OF ok]])

lemma delete_grant_cases:
  assumes ok: "store_ok (as_rules st)" and "delete_grant st identity gid = (st', Inr removed)"
  obtains i g db where "gid = Some i" "revoke_grant (as_db st) i = Inr (db, g)" "oi_role identity = Superadmin"
    "store_ok (as_rules st')" "removed = map r_id (filter (uncovered (grants_for db (g_user_id g))) (list_owned_by (as_rules st) (g_user_id g)))"
    "rules_of (as_rules st') = rules_of (as_rules st) -
       {r \<in> rules_of (as_rules st). r_owner r = g_user_id g \<and> uncovered (grants_for db (g_user_id g)) r}"
    "st' = st\<lparr>as_db := db, as_rules := as_rules st', as_rows := as_rows st'\<rparr>"
proof -
  obtain i where i: "gid = Some i" and su: "oi_role identity = Superadmin"
    using assms(2) by (cases gid) (auto simp: delete_grant_def ok_or_def require_role_def split: if_splits)
  obtain db g where g: "revoke_grant (as_db st) i = Inr (db, g)"
    using assms(2) su by (cases "revoke_grant (as_db st) i") (auto simp: i delete_grant_def ok_or_def require_role_def)
  let ?rules = "list_owned_by (as_rules st) (g_user_id g)" and ?st1 = "st\<lparr>as_db := db\<rparr>"
  have own: "set ?rules = {r \<in> rules_of (as_rules st). r_owner r = g_user_id g}" "distinct (map r_id ?rules)"
    using owned_rules [OF ok] by blast+
  obtain st1 where st1: "cascade_rules ?st1 \<lparr>oi_user_id = g_user_id g, oi_role = RoleUser\<rparr> (grants_for db (g_user_id g)) ?rules =
      (st1, map r_id (filter (uncovered (grants_for db (g_user_id g))) ?rules))" "store_ok (as_rules st1)"
    "rules_of (as_rules st1) = rules_of (as_rules st) - {r \<in> set ?rules. uncovered (grants_for db (g_user_id g)) r}"
    "st1 = ?st1\<lparr>as_rules := as_rules st1, as_rows := as_rows st1\<rparr>"
    using cascade_exact [of ?st1 ?rules "g_user_id g" "grants_for db (g_user_id g)"] own ok by auto
  have "st' = st1 \<and> removed = map r_id (filter (uncovered (grants_for db (g_user_id g))) ?rules)"
    using assms(2) su st1(1) by (simp add: i g delete_grant_def ok_or_def require_role_def Let_def)
  then show thesis using that [OF i g su] st1(2-4) own(1) by auto
qed

lemma revoke_effect:
  assumes "db_wf db" and "revoke_grant db i = Inr (db', g)"
  shows "g \<in> set (db_grants db)" "g_id g = i" "set (db_grants db') = set (db_grants db) - {g}" "get_user db' = get_user db"
proof -
  have g: "find (\<lambda>g. g_id g = i) (db_grants db) = Some g" and db': "db' = db\<lparr>db_grants := filter (\<lambda>g. g_id g \<noteq> i) (db_grants db)\<rparr>"
    using assms(2) by (auto simp: revoke_grant_def split: option.splits)
  show mem: "g \<in> set (db_grants db)" "g_id g = i" using g by (auto simp: find_Some_iff)
  have "inj_on g_id (set (db_grants db))" using assms(1) by (simp add: db_wf_def distinct_map)
  then show "set (db_grants db') = set (db_grants db) - {g}" using mem by (auto simp: db' dest: inj_onD)
  show "get_user db' = get_user db" by (simp add: fun_eq_iff get_user_def db')
qed

lemma delete_grant_ok:
  assumes ok: "api_ok st"
  shows "api_ok (fst (delete_grant st identity gid))"
proof (cases "snd (delete_grant st identity gid)")
  case (Inl e)
  then have "fst (delete_grant st identity gid) = st"
    by (cases "map_err rbac_error (rbind (require_role identity Superadmin) (\<lambda>_. ok_or GrantNotFound gid))")
      (auto simp: delete_grant_def Let_def simp del: map_err_Inr_iff split: sum.splits prod.splits)
  then show ?thesis using ok by simp
next
  case (Inr removed)
  let ?st' = "fst (delete_grant st identity gid)"
  have del: "delete_grant st identity gid = (?st', Inr removed)" using Inr by (metis prod.collapse)
  have "store_ok (as_rules st)" using ok by (simp add: api_ok_def)
  then obtain i g db where g: "revoke_grant (as_db st) i = Inr (db, g)" and ok': "store_ok (as_rules ?st')"
    and left: "rules_of (as_rules ?st') = rules_of (as_rules st) -
       {r \<in> rules_of (as_rules st). r_owner r = g_user_id g \<and> uncovered (grants_for db (g_user_id g)) r}"
    and st': "?st' = st\<lparr>as_db := db, as_rules := as_rules ?st', as_rows := as_rows ?st'\<rparr>"
    using del by (rule delete_grant_cases)
  have db: "as_db ?st' = db" by (subst st') simp
  have wf: "db_wf (as_db st)" and auth: "\<forall>c \<in> held st. authorised (as_db st) c" using ok by (simp_all add: api_ok_def)
  have "authorised db (claim_of r)" if "r \<in> rules_of (as_rules ?st')" for r
  proof -
    have "authorised (as_db st) (claim_of r)" using that left auth by (auto simp: held_def)
    then show ?thesis
      using that left revoke_effect [OF wf g]
      by (auto simp: authorised_def claim_of_def uncovered_def grants_for_set split: option.splits)
  qed
  then show ?thesis using ok' revoke_grant_wf [OF wf g] by (auto simp: api_ok_def db held_def)
qed


lemma remove_ids_exact:
  "store_ok st \<Longrightarrow> set rs \<subseteq> rules_of st \<Longrightarrow> distinct (map r_id rs) \<Longrightarrow>
   rules_of (fst (remove_ids st (map r_id rs))) = rules_of st - set rs \<and> snd (remove_ids st (map r_id rs)) = map r_id rs"
proof (induction rs arbitrary: st)
  case (Cons r rs)
  obtain st1 where st1: "rs_remove st (r_id r) = Inr (st1, r)" "store_ok st1" "rules_of st1 = rules_of st - {r}"
    using rules_of_remove [OF Cons.prems(1), of r] Cons.prems(2) by auto
  have "set rs \<subseteq> rules_of st1" using Cons.prems(2,3) st1(3) by auto
  then have IH: "rules_of (fst (remove_ids st1 (map r_id rs))) = rules_of st1 - set rs"
    "snd (remove_ids st1 (map r_id rs)) = map r_id rs"
    using Cons.IH [OF st1(2)] Cons.prems(3) by auto
  show ?case using IH st1 by (cases "remove_ids st1 (map r_id rs)") auto
qed simp

lemma remove_owned_exact:
  assumes "store_ok rs"
  shows "rules_of (fst (remove_owned_by rs u)) = {r \<in> rules_of rs. r_owner r \<noteq> u}"
    and "set (snd (remove_owned_by rs u)) = r_id ` {r \<in> rules_of rs. r_owner r = u}" and "store_ok (fst (remove_owned_by rs u))"
  using remove_ids_exact [OF assms, of "list_owned_by rs u"] owned_rules [OF assms, of u] store_ok_remove_ids [OF assms]
  by (auto simp: remove_owned_by_def)

lemma remove_user_effect:
  assumes "remove_user db uid = Inr (db', s)"
  shows "get_user db' u = (if u = uid then None else get_user db u)"
    and "set (db_grants db') = {g \<in> set (db_grants db). g_user_id g \<noteq> uid}"
proof -
  have d: "db_users db' = filter (\<lambda>r. u_id (ur_user r) \<noteq> uid) (db_users db)"
    "db_grants db' = filter (\<lambda>g. g_user_id g \<noteq> uid) (db_grants db)"
    using assms by (auto simp: remove_user_def split: if_splits)
  have "find (\<lambda>r. u_id (ur_user r) = u) (filter (\<lambda>r. u_id (ur_user r) \<noteq> uid) rs) =
      (if u = uid then None else find (\<lambda>r. u_id (ur_user r) = u) rs)" for rs :: "UserRow list"
    by (induction rs) auto
  then show "get_user db' u = (if u = uid then None else get_user db u)" by (simp add: get_user_def d)
  show "set (db_grants db') = {g \<in> set (db_grants db). g_user_id g \<noteq> uid}" by (auto simp: d)
qed

lemma delete_user_apply_ok:
  assumes ok: "api_ok st"
  shows "api_ok (fst (delete_user_apply st uid))"
proof (cases "remove_user (as_db st) uid")
  case (Inl e)
  then show ?thesis using ok by (simp add: delete_user_apply_def)
next
  case (Inr p)
  obtain db s where p: "p = (db, s)" by (cases p)
  have rm: "remove_user (as_db st) uid = Inr (db, s)" by (simp add: Inr p)
  have parts: "db_wf (as_db st)" "store_ok (as_rules st)" "\<forall>c \<in> held st. authorised (as_db st) c"
    using ok by (simp_all add: api_ok_def)
  note left = remove_owned_exact [OF parts(2), of uid]
  have st': "as_db (fst (delete_user_apply st uid)) = db"
    "as_rules (fst (delete_user_apply st uid)) = fst (remove_owned_by (as_rules st) uid)"
    by (simp_all add: delete_user_apply_def rm split: prod.split)
  have "authorised db (claim_of r)" if "r \<in> rules_of (as_rules st)" "r_owner r \<noteq> uid" for r
  proof -
    have "authorised (as_db st) (claim_of r)" using that parts(3) by (auto simp: held_def)
    then show ?thesis
      using that remove_user_effect [OF rm] by (auto simp: authorised_def claim_of_def split: option.splits)
  qed
  then show ?thesis
    using remove_user_wf [OF parts(1) rm] left by (auto simp: api_ok_def held_def st')
qed

lemma delete_user_ok: "api_ok st \<Longrightarrow> api_ok (fst (delete_user st identity user_id))"
  by (auto simp: delete_user_def delete_user_apply_ok split: sum.split)

text \<open>Adding a user or a grant takes nothing away.\<close>

lemma authorised_mono:
  "authorised db c \<Longrightarrow> (\<And>u. get_user db (fst c) = Some u \<Longrightarrow> \<exists>v. get_user db' (fst c) = Some v \<and> u_role v = u_role u) \<Longrightarrow>
   set (db_grants db) \<subseteq> set (db_grants db') \<Longrightarrow> authorised db' c"
  by (fastforce simp: authorised_def split: option.splits)

lemma post_grants_ok:
  assumes ok: "api_ok st"
  shows "api_ok (fst (post_grants st identity body gid now))"
proof -
  have "api_ok (st\<lparr>as_db := db\<rparr>)" if "add_grant (as_db st) g = Inr db" for db g
  proof -
    have "get_user db = get_user (as_db st)" "set (db_grants (as_db st)) \<subseteq> set (db_grants db)"
      using that by (auto simp: add_grant_def insert_grant_def get_user_def fun_eq_iff split: if_splits)
    then have "authorised db c" if "authorised (as_db st) c" for c using authorised_mono [OF that, of db] by simp
    then show ?thesis using ok add_grant_wf [OF _ that] by (simp add: api_ok_def held_def)
  qed
  then show ?thesis using ok by (auto simp: post_grants_def split: sum.split)
qed

lemma add_user_effect:
  assumes "add_user_with_password db user hash q = Inr db'"
  shows "db_grants db' = db_grants db"
    and "get_user db u = Some x \<Longrightarrow> \<exists>y. get_user db' u = Some y \<and> u_role y = u_role x"
proof -
  obtain db1 where db1: "insert_user db user = Inr db1"
    "db' = (case hash of None \<Rightarrow> db1 | Some h \<Rightarrow> set_password db1 (u_id user) h q)"
    using assms by (auto simp: add_user_with_password_def rbind_Inr_iff split: if_splits)
  have ins: "db1 = db\<lparr>db_users := db_users db @ [\<lparr>ur_user = user, ur_password_hash = None, ur_change_required = False\<rparr>]\<rparr>"
    using db1(1) by (simp add: insert_user_def split: if_splits)
  have "map_option ur_user (find (\<lambda>r. u_id (ur_user r) = u)
      (map (\<lambda>r. if u_id (ur_user r) = v then r\<lparr>ur_password_hash := Some h, ur_change_required := q\<rparr> else r) rs)) =
      map_option ur_user (find (\<lambda>r. u_id (ur_user r) = u) rs)" for v h and rs :: "UserRow list"
    by (induction rs) auto
  then have pw: "get_user (set_password d v h q) u = get_user d u" for d v h
    by (simp add: get_user_def set_password_def)
  show "db_grants db' = db_grants db" by (simp add: db1(2) ins split: option.split)
  show "\<exists>y. get_user db' u = Some y \<and> u_role y = u_role x" if "get_user db u = Some x"
  proof -
    have "get_user db1 u = Some x" using that by (auto simp: ins get_user_def find_append)
    then show ?thesis by (simp add: db1(2) pw split: option.split)
  qed
qed

lemma post_users_ok:
  assumes ok: "api_ok st"
  shows "api_ok (fst (post_users argon st identity body now))"
proof -
  have "api_ok (st\<lparr>as_db := db\<rparr>)" if "add_user_with_password (as_db st) u h q = Inr db" for db u h q
  proof -
    have "authorised db c" if "authorised (as_db st) c" for c
      using authorised_mono [OF that, of db] add_user_effect [OF \<open>add_user_with_password (as_db st) u h q = Inr db\<close>] by simp
    then show ?thesis using ok add_user_password_wf [OF _ that] by (simp add: api_ok_def held_def)
  qed
  then show ?thesis using ok by (auto simp: post_users_def Let_def split: sum.split)
qed


section \<open>Runs of the API\<close>

text \<open>One request or one message of a client, handled in one step.  The server starts from
  persisted rules that were authorised; the counter of rule ids has not reached its end.  The
  renaming of a client is not a step: it renames the client in its rules but not in the grants,
  which name clients by their display name.\<close>

inductive api_step :: "AppState \<Rightarrow> AppState \<Rightarrow> bool" where
  step_post_rules: "valid_identity (as_db st) identity \<Longrightarrow> rs_next_id (as_rules st) < u64_max \<Longrightarrow>
     api_step st (fst (post_rules_begin st identity body request_id sent now))"
| step_ack: "api_step st (fst (push_finish st rid a now))"
| step_delete_rule: "api_step st (fst (delete_rule st identity rid request_id sent))"
| step_put_rule: "api_step st (fst (put_rule_begin st identity rid body request_id sent))"
| step_post_grants: "api_step st (fst (post_grants st identity gbody gid now))"
| step_delete_grant: "api_step st (fst (delete_grant st identity ogid))"
| step_post_users: "api_step st (fst (post_users argon st identity ubody now))"
| step_delete_user: "api_step st (fst (delete_user st identity user_id))"
| step_replay: "api_step st (replay_rules_for_client st client session now request_ids room)"
| step_replay_caps: "api_step st (replay_owner_caps_for_client st client client_name session room)"
| step_status: "api_step st (apply_unsolicited_rule_status st client status now)"
| step_clients: "api_step st (st\<lparr>as_clients := clients\<rparr>)"

inductive api_run :: "AppState \<Rightarrow> bool" where
  run_start: "db_wf (as_db st) \<Longrightarrow> distinct (map r_id rules) \<Longrightarrow> \<forall>r \<in> set rules. r_id r < u64_max \<Longrightarrow>
     \<forall>r \<in> set rules. authorised (as_db st) (claim_of r) \<Longrightarrow> as_rules st = hydrate rs_new rules \<Longrightarrow> api_run st"
| run_step: "api_run st \<Longrightarrow> api_step st st' \<Longrightarrow> api_run st'"

lemma api_step_ok: "api_step st st' \<Longrightarrow> api_ok st \<Longrightarrow> api_ok st'"
proof (induction rule: api_step.induct)
  case (step_clients st clients)
  then show ?case using quiet_ok [OF quiet_same, of "st\<lparr>as_clients := clients\<rparr>" st] by simp
qed (simp_all add: post_rules_ok post_grants_ok delete_grant_ok post_users_ok delete_user_ok replay_rules_for_client_def
    quiet_ok [OF push_finish_quiet] quiet_ok [OF delete_rule_quiet] quiet_ok [OF put_rule_quiet] quiet_ok [OF replay_loop_quiet]
    quiet_ok [OF replay_caps_quiet] quiet_ok [OF unsolicited_quiet])

lemma api_run_ok: "api_run st \<Longrightarrow> api_ok st"
proof (induction rule: api_run.induct)
  case (run_start st rules)
  have "store_ok (as_rules st)" using reach_ok [OF reach_init [OF run_start(2,3)]] run_start(5) by simp
  then show ?case using run_start hydrate_rules [of rs_new rules] by (auto simp: api_ok_def held_def)
qed (rule api_step_ok)


text \<open>C14 (revocation_removes_exactly_uncovered): revoking a grant takes away that grant and exactly
  the rules of its holder that no remaining grant of the holder covers, and reports their ids.
  Nothing is sent: the client that forwards for a removed rule is not told to stop.\<close>

theorem revocation_removes_exactly_uncovered:
  assumes "api_run st" and "delete_grant st identity (Some gid) = (st', Inr removed)"
  shows "\<exists>g \<in> set (db_grants (as_db st)). g_id g = gid \<and> set (db_grants (as_db st')) = set (db_grants (as_db st)) - {g} \<and>
    rules_of (as_rules st') = {r \<in> rules_of (as_rules st). r_owner r = g_user_id g \<longrightarrow>
      (\<exists>h \<in> set (db_grants (as_db st')). g_user_id h = g_user_id g \<and> grant_covers h (rule_request r))} \<and>
    set removed = r_id ` (rules_of (as_rules st) - rules_of (as_rules st')) \<and>
    as_sent st' = as_sent st"
proof -
  have ok: "db_wf (as_db st)" "store_ok (as_rules st)" using api_run_ok [OF assms(1)] by (simp_all add: api_ok_def)
  obtain g db where g: "revoke_grant (as_db st) gid = Inr (db, g)"
    and rem: "removed = map r_id (filter (uncovered (grants_for db (g_user_id g))) (list_owned_by (as_rules st) (g_user_id g)))"
    and left: "rules_of (as_rules st') = rules_of (as_rules st) -
       {r \<in> rules_of (as_rules st). r_owner r = g_user_id g \<and> uncovered (grants_for db (g_user_id g)) r}"
    and st': "st' = st\<lparr>as_db := db, as_rules := as_rules st', as_rows := as_rows st'\<rparr>"
    by (rule delete_grant_cases [OF ok(2) assms(2)]) blast
  have db: "as_db st' = db" "as_sent st' = as_sent st" by (subst st', simp)+
  have "set removed = r_id ` (rules_of (as_rules st) - rules_of (as_rules st'))"
    using owned_rules(1) [OF ok(2), of "g_user_id g"] by (auto simp: rem left)
  then show ?thesis
    using revoke_effect [OF ok(1) g] left
    by (intro bexI [of _ g]) (auto simp: db uncovered_def grants_for_set)
qed


section \<open>An instance\<close>

text \<open>A superadmin, a user with one grant, one connected client.\<close>

definition demo_user :: "string \<Rightarrow> OperatorRole \<Rightarrow> UserRow" where
  "demo_user name role = \<lparr>ur_user = \<lparr>u_id = UserId name, u_display_name = name, u_role = role, u_created_at = 0, u_disabled = False\<rparr>,
     ur_password_hash = None, ur_change_required = False\<rparr>"

definition demo_grant :: Grant where
  "demo_grant = \<lparr>g_id = 1, g_user_id = UserId ''ann'', g_client = ScopeAny, g_listen_port_start = 8000, g_listen_port_end = 8010,
     g_protocols = PS_TCP, g_note = None, g_created_at = 0\<rparr>"

definition demo_db :: OperatorDb where
  "demo_db = db_empty\<lparr>db_users := [demo_user ''root'' Superadmin, demo_user ''ann'' RoleUser], db_grants := [demo_grant]\<rparr>"

definition demo_clients :: ConnectedClients where
  "demo_clients = cs_new\<lparr>cs_inner := [(7, \<lparr>cl_client_name = ClientName ''edge'', cl_remote_addr = None, cl_connected_at = 0,
     cl_session_id = 0, cl_supported_protocols = [WpTcp], cl_client_version = Some ''1.4.0''\<rparr>)]\<rparr>"

definition demo_app :: AppState where
  "demo_app = \<lparr>as_db = demo_db, as_rules = rs_new, as_rows = rd_empty, as_clients = demo_clients, as_owner_caps = oc_open [],
     as_stats = [], as_per_port = [], as_sent = [], as_range_cap = 16\<rparr>"

definition demo_ann :: OperatorIdentity where
  "demo_ann = \<lparr>oi_user_id = UserId ''ann'', oi_role = RoleUser\<rparr>"

definition demo_root :: OperatorIdentity where
  "demo_root = \<lparr>oi_user_id = UserId ''root'', oi_role = Superadmin\<rparr>"

definition demo_body :: PushRuleBody where
  "demo_body = \<lparr>pb_client = ''edge'', pb_listen_port = 8000, pb_listen_port_end = None, pb_target_host = Some ''10.0.0.9'',
     pb_target_port = Some 9000, pb_target_port_end = None, pb_protocol = ''tcp'', pb_prefer_ipv6 = None, pb_targets = None,
     pb_health_check = None, pb_sni = None, pb_rate_limit = None\<rparr>"

text \<open>The state after the user has pushed a rule that the client has activated.\<close>

definition demo_active :: Rule where
  "demo_active = (new_rule \<lparr>pa_client_id = 7, pa_client_name = ClientName ''edge'', pa_listen = pr_single 8000,
     pa_target_host = ''10.0.0.9'', pa_target = pr_single 9000, pa_protocol = Tcp, pa_prefer_ipv6 = None, pa_range_cap = 16,
     pa_owner = UserId ''ann'', pa_targets = [], pa_health_check = None, pa_sni = None, pa_rate_limit = None\<rparr> 3 0)
     \<lparr>r_state := RsActive\<rparr>"

definition demo_serving :: AppState where
  "demo_serving = demo_app\<lparr>as_rules := hydrate rs_new [demo_active]\<rparr>"

lemma demo_db_wf: "db_wf demo_db"
  by (simp add: db_wf_def demo_db_def db_empty_def demo_user_def demo_grant_def user_exists_def)

lemma demo_authorised: "authorised demo_db (claim_of demo_active)"
  by (simp add: authorised_def claim_of_def demo_active_def new_rule_def demo_db_def db_empty_def demo_user_def demo_grant_def
      get_user_def grant_covers_def rule_request_def pr_single_def end_of_def pr_len_def ps_contains_def)

lemma demo_run: "api_run demo_serving"
  by (rule run_start [of _ "[demo_active]"])
    (simp_all add: demo_serving_def demo_app_def demo_db_wf demo_authorised, simp_all add: demo_active_def new_rule_def u64_max_def)

lemma demo_rules: "rules_of (as_rules demo_serving) = {demo_active}"
  by (simp add: demo_serving_def hydrate_def hydrate_rule_def rules_of_def rs_new_def)


theorem revocation_removes_exactly_uncovered_witness:
  "\<exists>st' removed. delete_grant demo_serving demo_root (Some 1) = (st', Inr removed) \<and> set removed = {3} \<and> rules_of (as_rules st') = {}"
proof -
  have db: "db_grants (as_db demo_serving) = [demo_grant]" by (simp add: demo_serving_def demo_app_def demo_db_def)
  have "is_ok (snd (delete_grant demo_serving demo_root (Some 1)))"
    by (simp add: delete_grant_def require_role_def demo_root_def ok_or_def revoke_grant_def db demo_grant_def Let_def split: prod.split)
  then obtain st' removed where del: "delete_grant demo_serving demo_root (Some 1) = (st', Inr removed)"
    by (cases "delete_grant demo_serving demo_root (Some 1)"; cases "snd (delete_grant demo_serving demo_root (Some 1))") auto
  have mine: "r_owner demo_active = g_user_id demo_grant" "r_id demo_active = 3"
    by (simp_all add: demo_active_def new_rule_def demo_grant_def)
  show ?thesis
    using revocation_removes_exactly_uncovered [OF demo_run del] del mine unfolding db demo_rules by auto
qed

end
