(* ===== verification/Api_Guarantees.thy ===== *)
theory Api_Guarantees
  imports Rule_Guarantees
begin

text \<open>
  From the request to the client and back after a reconnect: what an accepted push leaves behind,
  what a reconnecting client is sent and what a second reconnect misses, and that one superadmin
  remains.
\<close>

section \<open>An accepted push\<close>

lemma wire_args_ok:
  "wire_args a \<Longrightarrow> pr_wf (pa_listen a) \<Longrightarrow> uid_as_str (pa_owner a) \<noteq> [] \<Longrightarrow> wire_ok (new_rule a i now)"
  by (auto simp: wire_args_def wire_ok_def new_rule_def ends_ok_def end_of_def pr_wf_def pr_len_gt_1_iff word_gt_0)

lemma push_deliver_Inr:
  assumes "push_deliver st a encode session request_id sent now = (st', Inr rule)"
  obtains rules rows where "push_range_with_targets (as_rules st) a now = Inr (rules, rule)"
    "upsert_rule (known_user st) (as_rows st) rule = Inr rows" "sent"
    "st' = queue_msg (st\<lparr>as_rules := rules, as_rows := rows\<rparr>) session (RuleUpdate request_id (rule_action ActPush) (Some (encode rule)))"
proof -
  obtain rules r where push: "push_range_with_targets (as_rules st) a now = Inr (rules, r)"
    using assms by (cases "push_range_with_targets (as_rules st) a now") (auto simp: push_deliver_def)
  have known: "known_user (st\<lparr>as_rules := rules\<rparr>) = known_user st" by (simp add: fun_eq_iff known_user_def)
  obtain rows where rows: "upsert_rule (known_user st) (as_rows st) r = Inr rows"
    using assms push by (cases "upsert_rule (known_user st) (as_rows st) r") (auto simp: push_deliver_def known)
  show thesis
    using that [of rules rows] assms push rows by (auto simp: push_deliver_def known Let_def split: if_splits)
qed

lemma upsert_row_has: "\<exists>row \<in> set (upsert_row rows w). rw_id row = rw_id w"
proof (cases "list_ex (\<lambda>old. rw_id old = rw_id w) rows")
  case True
  then obtain old where "old \<in> set rows" "rw_id old = rw_id w" by (auto simp: list_ex_iff)
  then have "w\<lparr>rw_created_at := rw_created_at old\<rparr> \<in> set (upsert_row rows w)"
    using True by (auto simp: upsert_row_def intro!: image_eqI [of _ _ old])
  then show ?thesis by (rule rev_bexI) simp
qed (simp add: upsert_row_def)




section \<open>Reconnecting\<close>

lemma persist_frame [simp]:
  "as_rules (persist_best_effort st i) = as_rules st" "as_sent (persist_best_effort st i) = as_sent st"
  "as_clients (persist_best_effort st i) = as_clients st"
  by (simp_all add: persist_best_effort_def split: option.split sum.split)

lemma try_mark_frame [simp]: "as_sent (try_mark st r) = as_sent st" "as_clients (try_mark st r) = as_clients st"
  by (simp_all add: try_mark_def split: sum.split)

lemma queue_frame [simp]: "as_rules (queue_msg st s m) = as_rules st" "as_sent (queue_msg st s m) = as_sent st @ [(s, m)]"
  by (simp_all add: queue_msg_def)

definition moved :: "RuleState \<Rightarrow> timestamp \<Rightarrow> Rule \<Rightarrow> Rule" where
  "moved s now r = r\<lparr>r_state := s, r_last_state_change_at := now\<rparr>"

lemma get_marked:
  assumes "map_of (rs_rules (as_rules st)) i = Some r" and "r_state r = RsActive"
  shows "map_of (rs_rules (as_rules (try_mark st (set_state (as_rules st) i s now)))) j =
    (if j = i then Some (moved s now r) else map_of (rs_rules (as_rules st)) j)"
  using assms by (simp add: try_mark_def set_state_def moved_def map_of_update)

text \<open>The state in which the replay leaves a rule.\<close>

definition replayed :: "bool \<Rightarrow> string option \<Rightarrow> timestamp \<Rightarrow> Rule \<Rightarrow> Rule" where
  "replayed udp version now r =
     (if r_state r \<noteq> RsActive then r
      else (case replay_gate_reason r udp version of Inl reason \<Rightarrow> moved (RsFailed reason) now r | Inr _ \<Rightarrow> moved RsPending now r))"

definition sendable :: "bool \<Rightarrow> string option \<Rightarrow> Rule \<Rightarrow> bool" where
  "sendable udp version r \<longleftrightarrow> r_state r = RsActive \<and> is_ok (replay_gate_reason r udp version)"

definition replay_msg :: "nat \<Rightarrow> (nat \<Rightarrow> string) \<Rightarrow> Rule \<Rightarrow> nat \<times> ServerMessage" where
  "replay_msg session request_id r =
     (session, RuleUpdate (request_id (r_id r)) (rule_action ActPush) (Some (proto_rule_from_rule r)))"

lemma proto_moved [simp]: "proto_rule_from_rule (moved s now r) = proto_rule_from_rule r"
  by (simp add: proto_rule_from_rule_def moved_def)

text \<open>What a loop over some rules does to the messages and to the registry.\<close>

definition replay_done ::
  "nat \<Rightarrow> bool \<Rightarrow> string option \<Rightarrow> timestamp \<Rightarrow> (nat \<Rightarrow> string) \<Rightarrow> Rule list \<Rightarrow> AppState \<Rightarrow> AppState \<Rightarrow> bool" where
  "replay_done session udp version now request_id rules st st' \<longleftrightarrow>
     as_sent st' = as_sent st @ map (replay_msg session request_id) (filter (sendable udp version) rules) \<and>
     (\<forall>i. map_of (rs_rules (as_rules st')) i =
        (if i \<in> r_id ` set rules then map_option (replayed udp version now) (map_of (rs_rules (as_rules st)) i)
         else map_of (rs_rules (as_rules st)) i))"

lemma replay_done_Nil: "replay_done session udp version now request_id [] st st"
  by (simp add: replay_done_def)

lemma replay_done_Cons:
  assumes one: "replay_done session udp version now request_id [r] st st1"
    and rest: "replay_done session udp version now request_id rules st1 st2" and "r_id r \<notin> r_id ` set rules"
  shows "replay_done session udp version now request_id (r # rules) st st2"
  unfolding replay_done_def
proof (intro conjI allI)
  show "as_sent st2 = as_sent st @ map (replay_msg session request_id) (filter (sendable udp version) (r # rules))"
    using one rest by (simp add: replay_done_def)
  fix i
  have "map_of (rs_rules (as_rules st2)) i = (if i \<in> r_id ` set rules then map_option (replayed udp version now) (map_of (rs_rules (as_rules st1)) i)
      else map_of (rs_rules (as_rules st1)) i)"
    using rest unfolding replay_done_def by blast
  moreover have "map_of (rs_rules (as_rules st1)) i = (if i = r_id r then map_option (replayed udp version now) (map_of (rs_rules (as_rules st)) i)
      else map_of (rs_rules (as_rules st)) i)"
    using one unfolding replay_done_def by auto
  ultimately show "map_of (rs_rules (as_rules st2)) i =
      (if i \<in> r_id ` set (r # rules) then map_option (replayed udp version now) (map_of (rs_rules (as_rules st)) i)
       else map_of (rs_rules (as_rules st)) i)"
    using assms(3) by auto
qed


lemma replay_one:
  assumes get: "map_of (rs_rules (as_rules st)) (r_id r) = Some r" and room: "0 < room"
  obtains st1 n where "\<And>rules. replay_loop st session udp version now request_id room (r # rules) =
      replay_loop st1 session udp version now request_id n rules"
    "room \<le> Suc n" "replay_done session udp version now request_id [r] st st1"
proof -
  consider "r_state r \<noteq> RsActive" | reason where "r_state r = RsActive" "replay_gate_reason r udp version = Inl reason"
    | "r_state r = RsActive" "replay_gate_reason r udp version = Inr ()"
    by (cases "replay_gate_reason r udp version") auto
  then show thesis
  proof cases
    case 1
    have "replay_done session udp version now request_id [r] st st"
      using 1 get by (auto simp: replay_done_def sendable_def replayed_def)
    then show thesis using 1 by (intro that [of st room]) simp_all
  next
    case 2
    let ?st1 = "persist_best_effort (try_mark st (mark_failed (as_rules st) (r_id r) reason now)) (r_id r)"
    have "map_of (rs_rules (as_rules ?st1)) j =
        (if j = r_id r then Some (moved (RsFailed reason) now r) else map_of (rs_rules (as_rules st)) j)" for j
      using get_marked [OF get 2(1)] by (simp add: mark_defs)
    then have "replay_done session udp version now request_id [r] st ?st1"
      using 2 get by (simp add: replay_done_def sendable_def replayed_def)
    then show thesis using 2 by (intro that [of ?st1 room]) (simp_all add: Let_def)
  next
    case 3
    let ?st0 = "try_mark st (mark_pending (as_rules st) (r_id r) now)"
    let ?st1 = "queue_msg (persist_best_effort ?st0 (r_id r)) session
      (RuleUpdate (request_id (r_id r)) (rule_action ActPush) (Some (proto_rule_from_rule (moved RsPending now r))))"
    have st0: "map_of (rs_rules (as_rules ?st0)) j =
        (if j = r_id r then Some (moved RsPending now r) else map_of (rs_rules (as_rules st)) j)" for j
      using get_marked [OF get 3(1)] by (simp add: mark_defs)
    have "replay_done session udp version now request_id [r] st ?st1"
      using 3 get by (simp add: replay_done_def sendable_def replayed_def replay_msg_def st0)
    moreover have "replay_loop st session udp version now request_id room (r # rules) =
        replay_loop ?st1 session udp version now request_id (room - 1) rules" for rules
      using 3 room by (simp add: Let_def rs_get_def st0)
    ultimately show thesis by (intro that [of ?st1 "room - 1"]) simp_all
  qed
qed

lemma replay_loop_done:
  "\<forall>r \<in> set rules. map_of (rs_rules (as_rules st)) (r_id r) = Some r \<Longrightarrow> distinct (map r_id rules) \<Longrightarrow> length rules \<le> room \<Longrightarrow>
   replay_done session udp version now request_id rules st (replay_loop st session udp version now request_id room rules)"
proof (induction rules arbitrary: st room)
  case (Cons r rules)
  obtain st1 n where st1: "replay_loop st session udp version now request_id room (r # rules) =
      replay_loop st1 session udp version now request_id n rules" "room \<le> Suc n"
    "replay_done session udp version now request_id [r] st st1"
  proof -
    have "map_of (rs_rules (as_rules st)) (r_id r) = Some r" "0 < room" using Cons.prems(1,3) by auto
    then show thesis by (rule replay_one) (rule that)
  qed
  have fresh: "r_id r \<notin> r_id ` set rules" using Cons.prems(2) by simp
  have "map_of (rs_rules (as_rules st1)) (r_id x) = Some x" if "x \<in> set rules" for x
  proof -
    have "r_id x \<noteq> r_id r" using imageI [OF that, of r_id] fresh by auto
    then show ?thesis using st1(3) Cons.prems(1) that by (simp add: replay_done_def)
  qed
  then have "replay_done session udp version now request_id rules st1 (replay_loop st1 session udp version now request_id n rules)"
    using Cons.IH [of st1 n] Cons.prems(2,3) st1(2) by simp
  then show ?case unfolding st1(1) by (rule replay_done_Cons [OF st1(3) _ fresh])
qed (simp add: replay_done_Nil)


lemma rs_list_rules:
  assumes ok: "store_ok rs"
  shows "set (rs_list rs (Some c)) = {r \<in> rules_of rs. r_client_id r = c}" and "distinct (map r_id (rs_list rs (Some c)))"
    and "\<forall>r \<in> set (rs_list rs (Some c)). map_of (rs_rules rs) (r_id r) = Some r"
proof -
  show mem: "set (rs_list rs (Some c)) = {r \<in> rules_of rs. r_client_id r = c}" by (auto simp: rs_list_def rules_of_def)
  show "\<forall>r \<in> set (rs_list rs (Some c)). map_of (rs_rules rs) (r_id r) = Some r"
    unfolding mem using rules_of_iff [OF ok] by blast
  have "distinct (map r_id (filter (\<lambda>r. r_client_id r = c) (map snd (rs_rules rs))))"
    by (rule filter_distinct) (rule rule_ids_distinct [OF ok])
  then show "distinct (map r_id (rs_list rs (Some c)))" by (simp add: rs_list_def distinct_map)
qed

lemma replay_store_ok: "store_ok (as_rules st) \<Longrightarrow> store_ok (as_rules (replay_rules_for_client st c session now request_id room))"
  using replay_loop_quiet [of st] unfolding replay_rules_for_client_def quiet_def by blast

text \<open>C20 (replay_sends_every_active_rule): a client that connects is sent, in the order of their ids, one
  push for each of its active rules that its protocols and its version can take, as long as the session
  takes the messages; each of these waits for the client's answer, an active rule the client cannot
  take has failed, and no other rule of the registry has changed.\<close>

theorem replay_sends_every_active_rule:
  assumes "store_ok (as_rules st)" and "length (rs_list (as_rules st) (Some c)) \<le> room"
    and "udp = (cs_supports (as_clients st) c WpUdp = Some True)" and "version = client_version_of (as_clients st) c"
    and "st' = replay_rules_for_client st c session now request_id room"
  shows "as_sent st' = as_sent st @ map (\<lambda>r. (session, RuleUpdate (request_id (r_id r)) (rule_action ActPush) (Some (proto_rule_from_rule r))))
      (filter (\<lambda>r. r_state r = RsActive \<and> replay_gate_reason r udp version = Inr ()) (rs_list (as_rules st) (Some c))) \<and>
    (\<forall>i r. rs_get (as_rules st) i = Some r \<longrightarrow>
       rs_get (as_rules st') i = Some
         (if r_client_id r = c \<and> r_state r = RsActive
          then r\<lparr>r_state := (case replay_gate_reason r udp version of Inl reason \<Rightarrow> RsFailed reason | Inr _ \<Rightarrow> RsPending),
                 r_last_state_change_at := now\<rparr>
          else r))"
proof -
  note listed = rs_list_rules [OF assms(1), of c]
  have dn: "replay_done session udp version now request_id (rs_list (as_rules st) (Some c)) st st'"
    unfolding assms(5) replay_rules_for_client_def assms(3,4) by (rule replay_loop_done [OF listed(3,2) assms(2)])
  have gate: "is_ok (replay_gate_reason r udp version) \<longleftrightarrow> replay_gate_reason r udp version = Inr ()" for r
    by (cases "replay_gate_reason r udp version") simp_all
  have "replay_msg session request_id = (\<lambda>r. (session, RuleUpdate (request_id (r_id r)) (rule_action ActPush) (Some (proto_rule_from_rule r))))"
    "sendable udp version = (\<lambda>r. r_state r = RsActive \<and> replay_gate_reason r udp version = Inr ())"
    by (simp_all add: fun_eq_iff replay_msg_def sendable_def gate)
  moreover have "rs_get (as_rules st') i = Some (if r_client_id r = c then replayed udp version now r else r)"
    if "rs_get (as_rules st) i = Some r" for i r
  proof -
    have r: "map_of (rs_rules (as_rules st)) i = Some r" "r_id r = i" using that store_get [OF assms(1)] by (auto simp: rs_get_def)
    have "i \<in> r_id ` set (rs_list (as_rules st) (Some c)) \<longleftrightarrow> r_client_id r = c"
    proof
      assume "i \<in> r_id ` set (rs_list (as_rules st) (Some c))"
      then obtain x where "x \<in> set (rs_list (as_rules st) (Some c))" "r_id x = i" by auto
      then show "r_client_id r = c" using r listed(1,3) by auto
    next
      assume "r_client_id r = c"
      then have "r \<in> set (rs_list (as_rules st) (Some c))" using r rules_of_iff [OF assms(1)] unfolding listed(1) by simp
      then show "i \<in> r_id ` set (rs_list (as_rules st) (Some c))" using r(2) by blast
    qed
    then show ?thesis using dn r by (simp add: replay_done_def rs_get_def)
  qed
  moreover have "(if r_client_id r = c then replayed udp version now r else r) =
      (if r_client_id r = c \<and> r_state r = RsActive
       then r\<lparr>r_state := (case replay_gate_reason r udp version of Inl reason \<Rightarrow> RsFailed reason | Inr _ \<Rightarrow> RsPending),
              r_last_state_change_at := now\<rparr> else r)" for r
    by (simp add: replayed_def moved_def split: sum.split)
  ultimately show ?thesis using dn by (simp add: replay_done_def)
qed

text \<open>C21 (second_reconnect_gets_nothing): once a client's rules were handed to one session, a further session is sent
  none of them: if the client reconnects before it answered, the replay leaves everything as it is and
  the rules stay pending.\<close>

theorem second_reconnect_gets_nothing:
  assumes "store_ok (as_rules st)" and "length (rs_list (as_rules st) (Some c)) \<le> room"
    and "st' = (replay_rules_for_client st c session now request_id room)\<lparr>as_clients := clients\<rparr>"
  shows "replay_rules_for_client st' c session' now' request_id' room' = st'"
proof -
  let ?st1 = "replay_rules_for_client st c session now request_id room"
  note listed = rs_list_rules [OF assms(1), of c]
  have ok: "store_ok (as_rules ?st1)" by (rule replay_store_ok [OF assms(1)])
  obtain udp version where dn: "replay_done session udp version now request_id (rs_list (as_rules st) (Some c)) st ?st1"
    unfolding replay_rules_for_client_def using replay_loop_done [OF listed(3,2) assms(2)] by blast
  have settled: "r_state r \<noteq> RsActive" if "r \<in> set (rs_list (as_rules ?st1) (Some c))" for r
  proof -
    have r: "map_of (rs_rules (as_rules ?st1)) (r_id r) = Some r" "r_client_id r = c"
      using that rs_list_rules [OF ok, of c] by auto
    show ?thesis
    proof (cases "r_id r \<in> r_id ` set (rs_list (as_rules st) (Some c))")
      case True
      then obtain r0 where "r = replayed udp version now r0" using dn r(1) by (auto simp: replay_done_def)
      then show ?thesis by (simp add: replayed_def moved_def split: sum.split)
    next
      case False
      then have old: "map_of (rs_rules (as_rules st)) (r_id r) = Some r" using dn r(1) by (auto simp: replay_done_def)
      then show ?thesis using False r(2) listed(1) rules_of_iff [OF assms(1)] by auto
    qed
  qed
  have idle: "replay_loop s session' udp version now' request_id' room' rules = s"
    if "\<forall>r \<in> set rules. r_state r \<noteq> RsActive" for s rules udp version
    using that by (induction rules) simp_all
  have "as_rules st' = as_rules ?st1" by (simp add: assms(3))
  then show ?thesis unfolding replay_rules_for_client_def [of st'] using settled by (intro idle) simp
qed


section \<open>The last superadmin\<close>

lemma superadmin_iff: "has_active_superadmin db \<longleftrightarrow> (\<exists>r \<in> set (db_users db). active_superadmin r)"
  by (auto simp: has_active_superadmin_def count_superadmins_def filter_empty_conv)

lemma removed_users: "remove_user db uid = Inr (db', s) \<Longrightarrow> db_users db' = filter (\<lambda>r. u_id (ur_user r) \<noteq> uid) (db_users db)"
  by (auto simp: remove_user_def split: if_splits)

lemma same_user:
  assumes "db_wf db" and "get_user db uid = Some u" and "r \<in> set (db_users db)" and "u_id (ur_user r) = uid"
  shows "ur_user r = u"
proof -
  obtain r' where r': "r' \<in> set (db_users db)" "ur_user r' = u" "u_id u = uid" using get_user_Some [OF assms(2)] by blast
  have "inj_on (\<lambda>r. u_id (ur_user r)) (set (db_users db))" using assms(1) by (simp add: db_wf_def distinct_map)
  then show ?thesis using inj_onD [of _ _ r r'] assms(3,4) r' by fastforce
qed

lemma delete_user_superadmin:
  assumes wf: "db_wf (as_db st)" and has: "has_active_superadmin (as_db st)"
  shows "has_active_superadmin (as_db (fst (delete_user st identity user_id)))"
proof (cases "delete_user_check st identity user_id")
  case (Inl e)
  then show ?thesis using has by (simp add: delete_user_def)
next
  case (Inr uid)
  show ?thesis
  proof (cases "remove_user (as_db st) uid")
    case (Inl e)
    then show ?thesis using has Inr by (simp add: delete_user_def delete_user_apply_def)
  next
    case rm: (Inr p)
    obtain db s where p: "p = (db, s)" by (cases p)
    have db: "as_db (fst (delete_user st identity user_id)) = db"
      using Inr rm by (simp add: p delete_user_def delete_user_apply_def split: prod.split)
    have users: "db_users db = filter (\<lambda>r. u_id (ur_user r) \<noteq> uid) (db_users (as_db st))" using removed_users rm p by blast
    let ?act = "filter active_superadmin (db_users (as_db st))"
    have "\<exists>r \<in> set ?act. u_id (ur_user r) \<noteq> uid"
    proof (rule ccontr)
      assume none: "\<not> (\<exists>r \<in> set ?act. u_id (ur_user r) \<noteq> uid)"
      obtain r where r: "r \<in> set ?act" using has unfolding superadmin_iff by auto
      then have uid: "u_id (ur_user r) = uid" using none by blast
      have "user_exists (as_db st) uid" using r uid by (auto simp: user_exists_iff)
      then obtain u where u: "get_user (as_db st) uid = Some u" using get_user_exists by auto
      have "ur_user r = u" using same_user [OF wf u] r uid by simp
      then have "u_role u = Superadmin" using r by (simp add: active_superadmin_def)
      then have two: "length ?act \<ge> 2"
        using Inr u by (auto simp: delete_user_check_def rbind_Inr_iff count_superadmins_def split: if_splits option.splits)
      have "distinct (map (\<lambda>r. u_id (ur_user r)) ?act)" using wf by (simp add: db_wf_def filter_distinct)
      moreover have "set (map (\<lambda>r. u_id (ur_user r)) ?act) \<subseteq> {uid}" using none by auto
      ultimately have "length (map (\<lambda>r. u_id (ur_user r)) ?act) \<le> card {uid}"
        using distinct_card [of "map (\<lambda>r. u_id (ur_user r)) ?act"] card_mono [of "{uid}" "set (map (\<lambda>r. u_id (ur_user r)) ?act)"]
        by simp
      then show False using two by simp
    qed
    then show ?thesis unfolding db superadmin_iff by (auto simp: users)
  qed
qed

lemma push_deliver_db: "as_db (fst (push_deliver st a encode session request_id sent now)) = as_db st"
  by (simp add: push_deliver_def Let_def queue_msg_def split: sum.split prod.split)

lemma post_rules_db: "as_db (fst (post_rules_begin st identity body request_id sent now)) = as_db st"
  using post_rules_delivers [of st identity request_id sent now body]
  unfolding api_delivers_def delivers_def lift_api_def by (elim disjE exE conjE) (simp_all add: push_deliver_db)

lemma cascade_db: "as_db (fst (cascade_rules st who grants rules)) = as_db st"
proof (induction rules arbitrary: st)
  case (Cons r rules)
  then show ?case by (simp add: split_beta Let_def) (simp add: drop_rule_quietly_def)
qed simp

lemma delete_grant_users: "db_users (as_db (fst (delete_grant st identity gid))) = db_users (as_db st)"
proof -
  have "db_users (as_db (fst (cascade_rules (st\<lparr>as_db := db\<rparr>) who grants rules))) = db_users (as_db st)"
    if "revoke_grant (as_db st) i = Inr (db, g)" for i db g who grants rules
    using that by (auto simp: cascade_db revoke_grant_def split: option.splits)
  then show ?thesis by (auto simp: delete_grant_def Let_def split: sum.split prod.split) (metis fst_conv)
qed

lemma add_user_superadmin:
  assumes "has_active_superadmin db" and "add_user_with_password db u h q = Inr db'"
  shows "has_active_superadmin db'"
proof -
  obtain r where r: "r \<in> set (db_users db)" "active_superadmin r" using assms(1) superadmin_iff by blast
  have "map ur_user (db_users db') = map ur_user (db_users db) @ [u]"
    using assms(2)
    by (auto simp: add_user_with_password_def insert_user_def set_password_def rbind_Inr_iff comp_def if_distrib
        split: if_splits option.splits)
  from arg_cong [OF this, of set] have "ur_user r \<in> ur_user ` set (db_users db')" using r(1) by simp
  then show ?thesis using r(2) by (auto simp: superadmin_iff active_superadmin_def)
qed

lemma post_users_superadmin:
  "has_active_superadmin (as_db st) \<Longrightarrow> has_active_superadmin (as_db (fst (post_users argon st identity body now)))"
  by (auto simp: post_users_def Let_def add_user_superadmin split: sum.split)

text \<open>C22 (superadmin_remains): no request, handled to its end, takes the last active superadmin away.\<close>

theorem superadmin_remains:
  assumes "api_run st" and "api_step st st'" and "has_active_superadmin (as_db st)"
  shows "has_active_superadmin (as_db st')"
proof -
  have wf: "db_wf (as_db st)" using api_run_ok [OF assms(1)] by (simp add: api_ok_def)
  have quiet: "has_active_superadmin (as_db s')" if "quiet st s'" for s' using that assms(3) by (simp add: quiet_def)
  show ?thesis
    using assms(2)
  proof cases
    case step_post_rules
    then show ?thesis using assms(3) by (simp add: post_rules_db)
  next
    case (step_post_grants identity gbody gid now)
    have "db_users (as_db st') = db_users (as_db st)"
      unfolding step_post_grants by (auto simp: post_grants_def add_grant_def insert_grant_def split: sum.split if_splits)
    then show ?thesis using assms(3) by (simp add: superadmin_iff)
  next
    case (step_delete_grant identity ogid)
    then show ?thesis using delete_grant_users [of st identity ogid] assms(3) by (simp add: superadmin_iff)
  next
    case (step_post_users argon identity ubody now)
    then show ?thesis using post_users_superadmin [OF assms(3)] by simp
  next
    case (step_delete_user identity user_id)
    then show ?thesis using delete_user_superadmin [OF wf assms(3)] by simp
  qed (auto intro!: quiet simp: quiet_same push_finish_quiet delete_rule_quiet put_rule_quiet replay_rules_for_client_def
      replay_loop_quiet replay_caps_quiet unsolicited_quiet)
qed


text \<open>C38 (crossed_deletions_lose_superadmin): the check and the removal are two steps.  When the only two
  superadmins delete each other and both checks run before either removal, both pass and no active
  superadmin is left.\<close>

theorem crossed_deletions_lose_superadmin:
  assumes wf: "db_wf (as_db st)" and two: "filter active_superadmin (db_users (as_db st)) = [ra, rb]"
    and a: "a = u_id (ur_user ra)" and b: "b = u_id (ur_user rb)"
    and parse: "parse_stored_user_id (uid_as_str a) = Inr a" "parse_stored_user_id (uid_as_str b) = Inr b"
  shows "delete_user_check st \<lparr>oi_user_id = a, oi_role = Superadmin\<rparr> (uid_as_str b) = Inr b \<and>
    delete_user_check st \<lparr>oi_user_id = b, oi_role = Superadmin\<rparr> (uid_as_str a) = Inr a \<and>
    \<not> has_active_superadmin (as_db (fst (delete_user_apply (fst (delete_user_apply st b)) a)))"
proof -
  have mem: "ra \<in> set (db_users (as_db st))" "rb \<in> set (db_users (as_db st))"
    using arg_cong [OF two, of set] by auto
  have "distinct (map (\<lambda>r. u_id (ur_user r)) [ra, rb])" unfolding two [symmetric] using wf by (simp add: db_wf_def filter_distinct)
  then have ne: "a \<noteq> b" by (simp add: a b)
  have count: "count_superadmins (as_db st) = 2" by (simp add: count_superadmins_def two)
  have users: "db_users (as_db (fst (delete_user_apply s u))) = filter (\<lambda>r. u_id (ur_user r) \<noteq> u) (db_users (as_db s))"
    if "u \<in> (\<lambda>r. u_id (ur_user r)) ` set (db_users (as_db s))" for s u
    using that by (simp add: delete_user_apply_def remove_user_def user_exists_iff split: prod.split)
  have b_gone: "db_users (as_db (fst (delete_user_apply st b))) = filter (\<lambda>r. u_id (ur_user r) \<noteq> b) (db_users (as_db st))"
    using mem(2) b by (intro users) blast
  then have "a \<in> (\<lambda>r. u_id (ur_user r)) ` set (db_users (as_db (fst (delete_user_apply st b))))"
    using mem(1) a ne by auto
  note gone = users [OF this, unfolded b_gone]
  have only: "r \<in> {ra, rb}" if "r \<in> set (db_users (as_db st))" "active_superadmin r" for r
    using that arg_cong [OF two, of set] by auto
  have "\<not> has_active_superadmin (as_db (fst (delete_user_apply (fst (delete_user_apply st b)) a)))"
    unfolding superadmin_iff gone using only a b by auto
  then show ?thesis
    using ne count parse by (simp add: delete_user_check_def require_role_def split: option.split)
qed

section \<open>Instances\<close>

definition post_ann :: "AppState \<times> (ApiFailure, Rule) result" where
  "post_ann = post_rules_begin demo_app demo_ann demo_body ''q1'' True 5"

definition ann_args :: PushArgs where
  "ann_args = \<lparr>pa_client_id = 7, pa_client_name = ClientName ''edge'', pa_listen = pr_single 8000,
     pa_target_host = ''10.0.0.9'', pa_target = pr_single 9000, pa_protocol = Tcp, pa_prefer_ipv6 = None, pa_range_cap = 16,
     pa_owner = UserId ''ann'', pa_targets = [], pa_health_check = None, pa_sni = None, pa_rate_limit = None\<rparr>"

lemma ann_parts:
  "client_name_new ''edge'' = Inr (ClientName ''edge'')" "is_ok (target_parse ''10.0.0.9'')"
  "parse_protocol ''tcp'' = Inr Tcp"
  by code_simp+


lemma ann_covered: "enforce_push demo_ann (push_request (ClientName ''edge'') (pr_single 8000) Tcp)
    (grants_for (as_db demo_app) (oi_user_id demo_ann)) = Inr ()"
  unfolding enforce_push_unit enforce_push_ok_iff grants_for_set
  by (simp add: demo_ann_def demo_app_def demo_db_def demo_grant_def grant_covers_def push_request_def pr_single_def ps_contains_def)

lemma ann_connected:
  "handles_by_name (as_clients demo_app) (ClientName ''edge'') = Some 0" "client_id_by_name (as_clients demo_app) (ClientName ''edge'') = Some 7"
  by (simp_all add: handles_by_name_def client_id_by_name_def find_by_name_def demo_app_def demo_clients_def cs_new_def)

lemma ann_shape: "rule_shape demo_body = Inr (pr_single 8000)"
  by (simp add: rule_shape_def demo_body_def Let_def build_range_def pr_new_def pr_single_def)

lemma ann_delivered:
  "post_ann = lift_api (push_deliver demo_app ann_args
     (\<lambda>rule. single_push_rule rule (pr_single 8000) ''10.0.0.9'' (pr_single 9000) Tcp None) 0 ''q1'' True 5)"
proof -
  have "post_ann = lift_api (push_rule_begin demo_app demo_ann ''edge'' (pr_single 8000) ''10.0.0.9'' (pr_single 9000) ''tcp'' None 16 ''q1'' True 5)"
    unfolding post_ann_def post_rules_begin_def ann_shape
    by (simp add: demo_body_def sni_of_body_def parse_rate_limit_body_def build_range_def pr_new_def pr_single_def)
      (simp add: demo_app_def)
  moreover have "oi_user_id demo_ann = UserId ''ann''" by (simp add: demo_ann_def)
  ultimately show ?thesis
    using ann_parts ann_covered ann_connected
    by (cases "target_parse ''10.0.0.9''") (simp_all add: push_rule_begin_def udp_gate_def ann_args_def ok_or_def)
qed

lemma ann_pushed: "\<exists>rules. push_range_with_targets (as_rules demo_app) ann_args 5 = Inr (rules, new_rule ann_args 0 5)"
  by (simp add: push_Inr_iff demo_app_def ann_args_def rs_new_def pr_single_def pr_len_def check_conflicts_def index_range_def)

lemma ann_stored: "\<exists>rows. upsert_rule (known_user demo_app) rd_empty (new_rule ann_args 0 5) = Inr rows"
  by (simp add: upsert_rule_def Let_def rule_row_def row_binds_def row_checks_def fits_i64_def null_or_def no_limit_def known_user_def
      new_rule_def ann_args_def demo_app_def demo_db_def demo_user_def pr_single_def end_of_def pr_len_def i64_max_def)




lemma demo_store_ok: "store_ok (as_rules demo_serving)"
  using api_run_ok [OF demo_run] by (simp add: api_ok_def)

lemma demo_list: "rs_list (as_rules demo_serving) (Some 7) = [demo_active]"
  by (simp add: rs_list_def demo_serving_def hydrate_def hydrate_rule_def rs_new_def) (simp add: demo_active_def new_rule_def)

lemma demo_gate: "r_state demo_active = RsActive" "replay_gate_reason demo_active udp version = Inr ()"
  by (simp_all add: demo_active_def new_rule_def replay_gate_reason_def)

theorem replay_sends_every_active_rule_witness:
  "as_sent (replay_rules_for_client demo_serving 7 1 9 (\<lambda>_. ''r'') 4) =
     [(1, RuleUpdate ''r'' (rule_action ActPush) (Some (proto_rule_from_rule demo_active)))]"
proof -
  have "as_sent demo_serving = []" by (simp add: demo_serving_def demo_app_def)
  then show ?thesis
    using replay_sends_every_active_rule [OF demo_store_ok, of 7 4, OF _ refl refl refl] demo_gate by (simp add: demo_list)
qed

theorem second_reconnect_gets_nothing_witness:
  "let st = (replay_rules_for_client demo_serving 7 1 9 (\<lambda>_. ''r'') 4)\<lparr>as_clients := demo_clients\<rparr>
   in replay_rules_for_client st 7 2 10 (\<lambda>_. ''s'') 4 = st"
  unfolding Let_def by (rule second_reconnect_gets_nothing [OF demo_store_ok _ refl]) (simp add: demo_list)

theorem superadmin_remains_witness:
  "has_active_superadmin (as_db (fst (delete_user demo_serving demo_root ''root'')))"
  by (rule superadmin_remains [OF demo_run step_delete_user])
    (simp add: superadmin_iff demo_serving_def demo_app_def demo_db_def demo_user_def active_superadmin_def)

definition demo_two :: AppState where
  "demo_two = demo_app\<lparr>as_db := db_empty\<lparr>db_users := [demo_user ''root'' Superadmin, demo_user ''eve'' Superadmin]\<rparr>\<rparr>"

theorem crossed_deletions_lose_superadmin_witness:
  "\<not> has_active_superadmin (as_db (fst (delete_user_apply (fst (delete_user_apply demo_two (UserId ''eve''))) (UserId ''root''))))"
proof -
  have parse: "parse_stored_user_id ''root'' = Inr (UserId ''root'')" "parse_stored_user_id ''eve'' = Inr (UserId ''eve'')"
    by code_simp+
  have wf: "db_wf (as_db demo_two)" by (simp add: db_wf_def demo_two_def db_empty_def demo_user_def)
  have two: "filter active_superadmin (db_users (as_db demo_two)) = [demo_user ''root'' Superadmin, demo_user ''eve'' Superadmin]"
    by (simp add: demo_two_def demo_user_def active_superadmin_def)
  have ids: "UserId ''root'' = u_id (ur_user (demo_user ''root'' Superadmin))" "UserId ''eve'' = u_id (ur_user (demo_user ''eve'' Superadmin))"
    by (simp_all add: demo_user_def)
  have "parse_stored_user_id (uid_as_str (UserId ''root'')) = Inr (UserId ''root'')"
    "parse_stored_user_id (uid_as_str (UserId ''eve'')) = Inr (UserId ''eve'')" using parse by (simp_all only: UserId.sel)
  from crossed_deletions_lose_superadmin [OF wf two ids this] show ?thesis by (elim conjE)
qed

end
