(* ===== verification/Spec2Isabelle.thy ===== *)
theory Spec2Isabelle
  imports Port_Range Host_Target Rate_Copy Failover Resolver Sni_Listener Udp_Flows Auth_Guarantees Api_Guarantees
begin

text \<open>
  Verification of Portunus, a TCP/UDP port forwarder with a central control server.
\<close>

section \<open>Properties across components\<close>

text \<open>C6 (sni_connection_end_to_end): for a client that sends a well-formed ClientHello, cut into
  reads in any way, before the peek deadline, the listener reads the host the client asks for
  and hands the connection to a rule of the group that applies to it with the highest
  precedence, together with exactly the bytes taken from the stream (the rest follows in the
  stream); or it drops the connection because no rule applies, the rule's slot is gone, or a
  rate limit rejects it.\<close>

theorem sni_connection_end_to_end:
  assumes "hello_wf h" and "list_all (timely (start + PEEK_TIMEOUT)) stream"
    and "stream_bytes stream = enc_hello minor h @ payload"
    and "from_members ms = Inr (ds_table ds)"
    and "read_client_hello start stream = (peeked, stream')"
  shows "case snd (handle_accept ds peeked elapsed True now w) of
      SniProxied slot preread og rg \<Rightarrow> preread @ stream_bytes stream' = stream_bytes stream \<and>
        (\<exists>rid kind. ds_slots ds rid = Some slot \<and> candidate ms (sni_of h) kind rid \<and>
           (\<forall>kind' rid'. candidate ms (sni_of h) kind' rid' \<longrightarrow> kind_rank kind \<le> kind_rank kind'))
    | SniNoRoute \<Rightarrow> (\<exists>rid kind. candidate ms (sni_of h) kind rid \<and> ds_slots ds rid = None) \<or>
        (\<forall>kind rid. \<not> candidate ms (sni_of h) kind rid)
    | SniRateRejected \<Rightarrow> True
    | _ \<Rightarrow> False"
proof -
  obtain b where b: "peeked = Inr (b, sni_of h)" "b @ stream_bytes stream' = stream_bytes stream"
    using peek_well_formed [OF assms(1-3,5)] by blast
  show ?thesis
    using route_conn_outcome [OF assms(4), where preread = b and sni = "sni_of h" and now = now
        and w = "observe_peek w elapsed"] b
    by (auto simp: handle_accept_def split: sni_outcome.splits)
qed

definition sample_state :: SniDispatchState where
  "sample_state = \<lparr>ds_table = srt_empty, ds_slots = Map.empty\<rparr>"

theorem sni_connection_end_to_end_witness:
  "\<forall>w. snd (handle_accept sample_state
       (fst (read_client_hello 0 [(1, Arrived (enc_hello 1 (fixture ''A.b.'') @ ''x''))])) 1 True 1 w) \<noteq>
     SniPeekFailed PeekMalformed"
proof
  fix w
  let ?s = "[(1, Arrived (enc_hello 1 (fixture ''A.b.'') @ ''x''))]"
  have wf: "hello_wf (fixture ''A.b.'')" by (rule fixture_wf) (simp, code_simp)
  have t: "list_all (timely (0 + PEEK_TIMEOUT)) ?s" by (simp add: timely_def PEEK_TIMEOUT_def)
  have b: "stream_bytes ?s = enc_hello 1 (fixture ''A.b.'') @ ''x''" by simp
  have m: "from_members [] = Inr (ds_table sample_state)"
    by (simp add: from_members_def sample_state_def srt_empty_def)
  from sni_connection_end_to_end [OF wf t b m prod.collapse [symmetric], where elapsed = 1 and now = 1 and w = w]
  show "snd (handle_accept sample_state (fst (read_client_hello 0 ?s)) 1 True 1 w) \<noteq> SniPeekFailed PeekMalformed"
    by (auto split: sni_outcome.splits)
qed

end
